(* ===== verification/Prelude.thy ===== *)
theory Prelude
  imports Main "HOL-Library.Word"
begin

text \<open>
  Shared vocabulary of the development: the C integer types of an LP64 target, the result
  type of code that may stop the machine, the collections of simplification rules, and the
  generic lemmas on words and lists that several components use.
\<close>

unbundle bit_operations_syntax

section \<open>C integer types\<close>

type_synonym u8 = "8 word"
type_synonym u16 = "16 word"
type_synonym u32 = "32 word"
type_synonym u64 = "64 word"

section \<open>Results of code that may not return\<close>

text \<open>
  \<open>halt()\<close> never returns, and neither does the boot loader's \<open>exit_status\<close>. A model of
  code that may reach one of them returns \<open>Inl\<close> of the way it stopped, or \<open>Inr\<close> of its
  value. \<open>bind\<close> is sequential composition: nothing runs after a stop.
\<close>

datatype stop =
    Halted           \<comment> \<open>\<open>halt()\<close>: interrupts off, hlt, loop forever\<close>
  | Exited u64       \<comment> \<open>\<open>EXIT_STATUS(status, ...)\<close> in the boot loader\<close>
  | Undefined        \<comment> \<open>undefined behaviour: an uninitialised pointer is followed\<close>

type_synonym 'a result = "stop + 'a"

definition bind :: "'a result \<Rightarrow> ('a \<Rightarrow> 'b result) \<Rightarrow> 'b result" where
  "bind m f = (case m of Inl e \<Rightarrow> Inl e | Inr x \<Rightarrow> f x)"

lemma bind_Inl [simp]: "bind (Inl e) f = Inl e"
  by (simp add: bind_def)

lemma bind_Inr [simp]: "bind (Inr x) f = f x"
  by (simp add: bind_def)

lemma bind_eq_Inr: "bind m f = Inr y \<longleftrightarrow> (\<exists>x. m = Inr x \<and> f x = Inr y)"
  by (cases m) auto

lemma bind_eq_Inl: "bind m f = Inl e \<longleftrightarrow> m = Inl e \<or> (\<exists>x. m = Inr x \<and> f x = Inl e)"
  by (cases m) auto

lemma bind_assoc: "bind (bind m f) g = bind m (\<lambda>x. bind (f x) g)"
  by (cases m) auto

text \<open>
  A counting loop whose body may stop the machine: the body runs on each element in turn,
  and the first stop ends the loop.
\<close>

fun for_each :: "('a \<Rightarrow> 's \<Rightarrow> 's result) \<Rightarrow> 'a list \<Rightarrow> 's \<Rightarrow> 's result" where
  "for_each f [] s = Inr s"
| "for_each f (x # xs) s = bind (f x s) (for_each f xs)"

lemma for_each_append: "for_each f (xs @ ys) s = bind (for_each f xs s) (for_each f ys)"
  by (induction xs arbitrary: s) (simp_all add: bind_assoc bind_def split: sum.splits)

lemma for_each_map: "for_each f (map g xs) s = for_each (\<lambda>x. f (g x)) xs s"
  by (induction xs arbitrary: s) (simp_all add: bind_def split: sum.splits)

lemma for_each_total: "for_each (\<lambda>x s. Inr (f x s)) xs s = Inr (fold f xs s)"
  by (induction xs arbitrary: s) simp_all

lemma bind_cong: "(\<And>x. m = Inr x \<Longrightarrow> f x = g x) \<Longrightarrow> bind m f = bind m g"
  by (cases m) auto

section \<open>Words\<close>

named_theorems word_layout \<open>how addresses split into page, index and offset\<close>

lemma word_eq_bits: "(a :: 'a::len word) = b \<longleftrightarrow> (\<forall>n. bit a n \<longleftrightarrow> bit b n)"
  by (auto intro: bit_word_eqI)

lemma and_mask_take_bit: "w AND mask n = take_bit n w"
  by (simp add: take_bit_eq_mask)

lemma unat_of_nat_small: "n < 2 ^ LENGTH('a) \<Longrightarrow> unat (of_nat n :: 'a::len word) = n"
  by (simp add: unat_of_nat)

lemma unat_of_nat64 [simp]: "n < 18446744073709551616 \<Longrightarrow> unat (of_nat n :: u64) = n"
  by (simp add: unat_of_nat)

lemma of_nat64_inj:
  assumes "a < 18446744073709551616" and "b < 18446744073709551616"
  shows "(of_nat a :: u64) = of_nat b \<longleftrightarrow> a = b"
  using unat_of_nat64[OF assms(1)] unat_of_nat64[OF assms(2)] by metis

lemma unat_lt64 [simp]: "unat (w :: u64) < 18446744073709551616"
  using unsigned_less[of w, where ?'a = nat] by simp

lemma unat_le64 [simp]: "unat (w :: u64) \<le> 18446744073709551616"
  by (rule less_imp_le, rule unat_lt64)

lemma uint_pos: "w \<noteq> 0 \<Longrightarrow> 0 < uint (w :: 'a::len word)"
  by (simp add: less_le word_uint_eq_iff)

lemma unat_pred: "0 < (n :: 'a::len word) \<Longrightarrow> unat (n - 1) = unat n - 1"
  by (simp add: unat_minus_one word_neq_0_conv)

lemma unat_pred_less: "0 < (n :: 'a::len word) \<Longrightarrow> unat (n - 1) < unat n"
  by (simp add: unat_pred unat_gt_0 word_neq_0_conv)

lemma unat_pred2_less: "0 < n - 1 \<Longrightarrow> unat (n - 2) < unat (n - 1 :: 'a::len word)"
  using unat_pred_less[of "n - 1"] by simp

lemma take_bit_id: "unat w < 2 ^ n \<Longrightarrow> take_bit n w = (w :: 'a::len word)"
  by (simp add: word_unat_eq_iff unsigned_take_bit_eq take_bit_nat_eq_self)

lemma word_inc_nat: "w + of_nat (Suc n) = w + 1 + (of_nat n :: 'a::len word)"
  by (simp add: algebra_simps)

lemma range_split:
  "a \<le> b \<Longrightarrow> b \<le> (c :: nat) \<Longrightarrow> (\<forall>n. a \<le> n \<and> n < c \<longrightarrow> P n) \<longleftrightarrow>
     (\<forall>n. a \<le> n \<and> n < b \<longrightarrow> P n) \<and> (\<forall>n. b \<le> n \<and> n < c \<longrightarrow> P n)"
  by (meson le_trans less_le_trans not_le)

section \<open>Lists\<close>

lemma upt_split: "i < n \<Longrightarrow> [0..<n] = [0..<i] @ i # [Suc i..<n]"
  by (metis append_Cons append_Nil less_imp_le upt_conv_Cons upt_add_eq_append le0 le_Suc_ex)

lemma concat_map_split:
  "i < n \<Longrightarrow> concat (map f [0..<n]) =
     concat (map f [0..<i]) @ f i @ concat (map f [Suc i..<n])"
  by (simp only: upt_split map_append concat_append list.map concat.simps)

lemma concat_map_cong: "(\<And>j. j \<in> set xs \<Longrightarrow> f j = g j) \<Longrightarrow> concat (map f xs) = concat (map g xs)"
  by (metis map_cong)

lemma find_append: "find P (xs @ ys) = (case find P xs of None \<Rightarrow> find P ys | Some x \<Rightarrow> Some x)"
  by (induction xs) auto

lemma case_option_id [simp]: "(case x of None \<Rightarrow> None | Some y \<Rightarrow> Some y) = x"
  by (cases x) auto

end
