(* ===== verification/Bytes.thy ===== *)
theory Bytes
  imports Prelude
begin

text \<open>
  The byte-addressed memory of the machine: a total function from 64-bit addresses to
  bytes. Addresses wrap at \<open>2\<^sup>6\<^sup>4\<close>, as pointer arithmetic does. A C object of \<open>n\<close> bytes is
  read and written as \<open>n\<close> little-endian bytes. A region \<open>[a, a + n)\<close> may wrap.
\<close>

type_synonym mem = "u64 \<Rightarrow> u8"

section \<open>Little-endian words\<close>

fun le_word :: "u8 list \<Rightarrow> 'a::len word" where
  "le_word [] = 0"
| "le_word (b # bs) = ucast b OR push_bit 8 (le_word bs)"

fun le_bytes :: "nat \<Rightarrow> 'a::len word \<Rightarrow> u8 list" where
  "le_bytes 0 w = []"
| "le_bytes (Suc n) w = ucast w # le_bytes n (drop_bit 8 w)"

lemma length_le_bytes [simp]: "length (le_bytes n w) = n"
  by (induction n arbitrary: w) auto

lemma le_bytes_nth: "i < n \<Longrightarrow> le_bytes n w ! i = ucast (drop_bit (8 * i) w)"
  by (induction n arbitrary: w i) (auto simp: nth_Cons' algebra_simps)

lemma le_word_le_bytes: "le_word (le_bytes n w) = take_bit (8 * n) (w :: 'a::len word)"
proof (induction n arbitrary: w)
  case 0
  then show ?case by simp
next
  case (Suc n)
  have "ucast (ucast w :: u8) OR push_bit 8 (take_bit (8 * n) (drop_bit 8 w)) =
      take_bit (8 * Suc n) w"
    by (rule bit_word_eqI) (auto simp: bit_simps)
  then show ?case by (simp add: Suc.IH)
qed

lemma le_bytes_le_word:
  "8 * length bs \<le> LENGTH('a) \<Longrightarrow> le_bytes (length bs) (le_word bs :: 'a::len word) = bs"
proof (induction bs)
  case Nil
  then show ?case by simp
next
  case (Cons b bs)
  have len: "8 \<le> LENGTH('a)" "8 + 8 * length bs \<le> LENGTH('a)"
    using Cons.prems by auto
  have lo: "ucast (ucast b OR push_bit 8 (le_word bs) :: 'a word) = b"
    using len by (intro bit_word_eqI) (auto simp: bit_simps)
  have bound: "drop_bit 8 (ucast b OR push_bit 8 (le_word bs) :: 'a word) =
      take_bit (LENGTH('a) - 8) (le_word bs)"
    using len by (intro bit_word_eqI) (auto simp: bit_simps dest: bit_imp_le_length)
  have trunc: "le_bytes n (take_bit k w) = le_bytes n (w :: 'a word)" if "8 * n \<le> k" for n k w
    using that
  proof (induction n arbitrary: k w)
    case 0
    then show ?case by simp
  next
    case (Suc n)
    have "ucast (take_bit k w) = (ucast w :: u8)"
      using Suc.prems by (intro bit_word_eqI) (auto simp: bit_simps)
    moreover have "drop_bit 8 (take_bit k w) = take_bit (k - 8) (drop_bit 8 w)"
      by (intro bit_word_eqI) (auto simp: bit_simps)
    ultimately show ?case using Suc by simp
  qed
  have "le_bytes (length (b # bs)) (le_word (b # bs) :: 'a word) =
      b # le_bytes (length bs) (take_bit (LENGTH('a) - 8) (le_word bs) :: 'a word)"
    by (simp only: list.size(4) add_Suc_right add_0_right One_nat_def le_bytes.simps
        le_word.simps lo bound)
  also have "\<dots> = b # bs"
    using Cons len by (simp add: trunc)
  finally show ?case .
qed

section \<open>Regions\<close>

definition in_region :: "u64 \<Rightarrow> nat \<Rightarrow> u64 \<Rightarrow> bool" where
  "in_region a n x \<longleftrightarrow> unat (x - a) < n"

definition no_wrap :: "u64 \<Rightarrow> nat \<Rightarrow> bool" where
  "no_wrap a n \<longleftrightarrow> unat a + n \<le> 2 ^ 64"

lemma in_region_0 [simp]: "\<not> in_region a 0 x"
  by (simp add: in_region_def)

lemma in_region_offset: "i < n \<Longrightarrow> n \<le> 2 ^ 64 \<Longrightarrow> in_region a n (a + of_nat i)"
  by (simp add: in_region_def)

lemma in_regionE:
  assumes "in_region a n x"
  obtains i where "i < n" and "x = a + of_nat i" and "i < 2 ^ 64"
proof
  show "unat (x - a) < n" using assms by (simp add: in_region_def)
  show "x = a + of_nat (unat (x - a))" by simp
  show "unat (x - a) < 2 ^ 64" by simp
qed

lemma in_region_add:
  assumes "j + k \<le> 2 ^ 64"
  shows "in_region a (j + k) x \<longleftrightarrow> in_region a j x \<or> in_region (a + of_nat j) k x"
proof (cases "unat (x - a) < j")
  case True
  then show ?thesis by (simp add: in_region_def)
next
  case False
  have "j \<le> unat (x - a)" using False by simp
  moreover have j: "unat (of_nat j :: u64) = j"
    using \<open>j \<le> unat (x - a)\<close> unat_lt64[of "x - a"] by (intro unat_of_nat64) linarith
  ultimately have "(of_nat j :: u64) \<le> x - a"
    by (simp add: word_le_nat_alt)
  then have "unat (x - a - of_nat j) = unat (x - a) - unat (of_nat j :: u64)"
    by (rule unat_sub)
  with j have "unat (x - (a + of_nat j)) = unat (x - a) - j"
    by (simp add: algebra_simps)
  then show ?thesis using False by (auto simp: in_region_def)
qed

lemma in_region_Suc:
  "Suc k \<le> 2 ^ 64 \<Longrightarrow> in_region a (Suc k) x \<longleftrightarrow> x = a \<or> in_region (a + 1) k x"
  using in_region_add[of 1 k a x] by (simp add: in_region_def unat_eq_zero)

text \<open>
  \<open>separate a n b k\<close>: neither range starts inside the other, so they share no byte.
\<close>

definition separate :: "u64 \<Rightarrow> nat \<Rightarrow> u64 \<Rightarrow> nat \<Rightarrow> bool" where
  "separate a n b k \<longleftrightarrow> n \<le> unat (b - a) \<and> k \<le> unat (a - b)"

lemma separate_neq:
  assumes "separate a n b k" and "i < n" and "j < k"
  shows "a + of_nat i \<noteq> b + of_nat j"
proof
  assume eq: "a + of_nat i = b + of_nat j"
  have n: "n \<le> unat (b - a)" "k \<le> unat (a - b)" using assms(1) by (simp_all add: separate_def)
  show False
  proof (cases "j \<le> i")
    case True
    then have "b - a = of_nat (i - j)" using eq by (simp add: algebra_simps)
    then have "unat (b - a) \<le> i - j" by (simp add: unat_of_nat)
    then show False using n assms(2) by linarith
  next
    case False
    then have "a - b = of_nat (j - i)" using eq by (simp add: algebra_simps)
    then have "unat (a - b) \<le> j - i" by (simp add: unat_of_nat)
    then show False using n assms(3) by linarith
  qed
qed

lemma separate_not_in_region: "separate a n b k \<Longrightarrow> i < n \<Longrightarrow> \<not> in_region b k (a + of_nat i)"
  by (meson in_regionE separate_neq)

lemma separate_sym: "separate a n b k \<Longrightarrow> separate b k a n"
  by (simp add: separate_def)

section \<open>Reading and writing byte ranges\<close>

definition load_bytes :: "mem \<Rightarrow> u64 \<Rightarrow> nat \<Rightarrow> u8 list" where
  "load_bytes m a n = map (\<lambda>i. m (a + of_nat i)) [0..<n]"

definition store_bytes :: "mem \<Rightarrow> u64 \<Rightarrow> u8 list \<Rightarrow> mem" where
  "store_bytes m a bs = (\<lambda>x. if unat (x - a) < length bs then bs ! unat (x - a) else m x)"

lemma length_load_bytes [simp]: "length (load_bytes m a n) = n"
  by (simp add: load_bytes_def)

lemma load_bytes_cong:
  "(\<And>i. i < n \<Longrightarrow> m (a + of_nat i) = m' (a + of_nat i)) \<Longrightarrow> load_bytes m a n = load_bytes m' a n"
  by (simp add: load_bytes_def)

lemma load_store_bytes:
  "length bs \<le> 2 ^ 64 \<Longrightarrow> load_bytes (store_bytes m a bs) a (length bs) = bs"
  by (intro nth_equalityI) (simp_all add: load_bytes_def store_bytes_def)

lemma store_bytes_outside: "\<not> in_region a (length bs) x \<Longrightarrow> store_bytes m a bs x = m x"
  by (simp add: store_bytes_def in_region_def)

lemma load_bytes_0 [simp]: "load_bytes m a 0 = []"
  by (simp add: load_bytes_def)

lemma load_bytes_Suc: "load_bytes m a (Suc n) = m a # load_bytes m (a + 1) n"
  by (simp add: load_bytes_def upt_conv_Cons map_Suc_upt [symmetric] del: upt_Suc)
    (simp add: comp_def algebra_simps)

lemma load_bytes_numeral [simp]:
  "load_bytes m a (numeral k) = m a # load_bytes m (a + 1) (pred_numeral k)"
  by (simp only: numeral_eq_Suc load_bytes_Suc)

lemma load_bytes_snoc: "load_bytes m a (Suc n) = load_bytes m a n @ [m (a + of_nat n)]"
  by (simp add: load_bytes_def)

lemma load_bytes_upd:
  "(\<And>i. i < n \<Longrightarrow> a + of_nat i \<noteq> x) \<Longrightarrow> load_bytes (m(x := b)) a n = load_bytes m a n"
  by (rule load_bytes_cong) auto

lemma store_bytes_Nil [simp]: "store_bytes m a [] = m"
  by (simp add: store_bytes_def)

lemma store_bytes_append:
  assumes "length bs + length cs \<le> 2 ^ 64"
  shows "store_bytes m a (bs @ cs) = store_bytes (store_bytes m a bs) (a + of_nat (length bs)) cs"
proof
  fix x
  let ?j = "length bs" and ?k = "length cs"
  have eq: "in_region a (?j + ?k) x \<longleftrightarrow> in_region a ?j x \<or> in_region (a + of_nat ?j) ?k x"
    using assms by (rule in_region_add)
  show "store_bytes m a (bs @ cs) x =
      store_bytes (store_bytes m a bs) (a + of_nat ?j) cs x"
  proof (cases "in_region (a + of_nat ?j) ?k x")
    case True
    then obtain i where i: "i < ?k" "x = a + of_nat ?j + of_nat i" by (rule in_regionE)
    then have x: "x = a + of_nat (?j + i)" by simp
    have "unat (x - a) = unat (of_nat (?j + i) :: u64)" unfolding x by simp
    also have "\<dots> = ?j + i" using i assms by (intro unat_of_nat64) simp
    finally have "unat (x - a) = ?j + i" .
    moreover have "unat (x - (a + of_nat ?j)) = i" unfolding i(2) using i assms by simp
    ultimately show ?thesis using i(1) by (simp add: store_bytes_def nth_append)
  next
    case False
    then show ?thesis using eq by (auto simp: store_bytes_def in_region_def nth_append)
  qed
qed

lemma store_bytes_single [simp]: "store_bytes m a [b] = m(a := b)"
  by (auto simp: store_bytes_def fun_eq_iff unat_eq_zero)

lemma store_bytes_Cons:
  "length bs < 2 ^ 64 \<Longrightarrow> store_bytes m a (b # bs) = store_bytes (m(a := b)) (a + 1) bs"
  using store_bytes_append[of "[b]" bs m a] by simp

lemma store_bytes_snoc:
  assumes "length bs < 2 ^ 64"
  shows "store_bytes m a (bs @ [b]) = store_bytes (m(a + of_nat (length bs) := b)) a bs"
proof -
  have "store_bytes m a (bs @ [b]) = (store_bytes m a bs)(a + of_nat (length bs) := b)"
    using store_bytes_append[of bs "[b]" m a] assms
    by simp
  also have "\<dots> = store_bytes (m(a + of_nat (length bs) := b)) a bs"
    using assms by (auto simp: store_bytes_def fun_eq_iff)
  finally show ?thesis .
qed

lemma store_bytes_replicate:
  "store_bytes m a (replicate n b) = (\<lambda>x. if in_region a n x then b else m x)"
  by (auto simp: store_bytes_def in_region_def)

section \<open>64-bit objects\<close>

definition load64 :: "mem \<Rightarrow> u64 \<Rightarrow> u64" where
  "load64 m a = le_word (load_bytes m a 8)"

definition store64 :: "mem \<Rightarrow> u64 \<Rightarrow> u64 \<Rightarrow> mem" where
  "store64 m a v = store_bytes m a (le_bytes 8 v)"

lemma load64_store64_same [simp]: "load64 (store64 m a v) a = v"
  using load_store_bytes[of "le_bytes 8 v" m a]
  by (simp add: load64_def store64_def le_word_le_bytes take_bit_word_eq_self)

lemma load64_cong:
  "(\<And>i. i < 8 \<Longrightarrow> m (a + of_nat i) = m' (a + of_nat i)) \<Longrightarrow> load64 m a = load64 m' a"
  unfolding load64_def by (rule arg_cong[where f = le_word], rule load_bytes_cong) simp

lemma store64_outside: "\<not> in_region a 8 x \<Longrightarrow> store64 m a v x = m x"
  by (simp add: store64_def store_bytes_outside)

text \<open>Two aligned quadwords are equal or disjoint.\<close>

definition aligned8 :: "u64 \<Rightarrow> bool" where
  "aligned8 a \<longleftrightarrow> a AND 7 = 0"

lemma seven_mask: "(7 :: u64) = mask 3"
  by (simp add: mask_eq_exp_minus_1)

lemma aligned8_bits: "aligned8 a \<longleftrightarrow> (\<forall>n < 3. \<not> bit a n)"
proof -
  have "a AND 7 = 0 \<longleftrightarrow> take_bit 3 a = 0"
    by (simp add: seven_mask and_mask_take_bit)
  also have "\<dots> \<longleftrightarrow> (\<forall>n < 3. \<not> bit a n)"
    by (auto simp: bit_eq_iff bit_simps) 
  finally show ?thesis by (simp add: aligned8_def)
qed

lemma aligned8_dvd: "aligned8 a \<longleftrightarrow> 8 dvd uint a"
proof -
  have "aligned8 a \<longleftrightarrow> take_bit 3 a = 0" by (simp add: aligned8_def seven_mask and_mask_take_bit)
  also have "\<dots> \<longleftrightarrow> take_bit 3 (uint a) = 0"
    by (simp add: word_uint_eq_iff unsigned_take_bit_eq)
  also have "\<dots> \<longleftrightarrow> 8 dvd uint a" by (simp add: take_bit_eq_mod dvd_eq_mod_eq_0)
  finally show ?thesis .
qed

lemma aligned8_minus: "aligned8 a \<Longrightarrow> aligned8 b \<Longrightarrow> aligned8 (a - b)"
  by (simp add: aligned8_dvd uint_word_ariths dvd_mod_iff)

lemma aligned8_times: "aligned8 (8 * a)"
  by (simp add: aligned8_dvd uint_word_ariths dvd_mod_iff)

lemma small_offset_bits: "i < 2 ^ k \<Longrightarrow> k \<le> n \<Longrightarrow> \<not> bit (of_nat i :: u64) n"
  by (metis bit_of_nat_iff bit_take_bit_iff not_le take_bit_nat_eq_self)

lemma aligned8_add_small:
  assumes "aligned8 a" and "i < 8"
  shows "a + of_nat i = a OR of_nat i"
proof (rule disjunctive_add)
  fix n show "\<not> bit a n \<or> \<not> bit (of_nat i :: u64) n"
    using assms small_offset_bits[of i 3 n] by (cases "n < 3") (auto simp: aligned8_bits)
qed

lemma aligned8_round_down:
  assumes "aligned8 a" and "i < 8"
  shows "(a + of_nat i) AND NOT 7 = a"
  unfolding aligned8_add_small[OF assms] seven_mask
proof (rule bit_word_eqI)
  fix n assume "n < LENGTH(64)"
  then show "bit ((a OR of_nat i) AND NOT (mask 3)) n = bit a n"
    using assms small_offset_bits[of i 3 n]
    by (cases "n < 3") (auto simp: bit_or_iff bit_and_iff bit_not_iff bit_mask_iff aligned8_bits)
qed

lemma aligned8_disjoint:
  assumes "aligned8 a" and "aligned8 b" and "a \<noteq> b" and "i < 8"
  shows "\<not> in_region a 8 (b + of_nat i)"
proof
  assume "in_region a 8 (b + of_nat i)"
  then obtain j where "j < 8" and "b + of_nat i = a + of_nat j"
    by (rule in_regionE)
  then have "b = a"
    using assms aligned8_round_down by metis
  with assms(3) show False by simp
qed

lemma load64_store64_other:
  "aligned8 a \<Longrightarrow> aligned8 b \<Longrightarrow> a \<noteq> b \<Longrightarrow> load64 (store64 m a v) b = load64 m b"
  by (rule load64_cong) (simp add: store64_outside aligned8_disjoint)

lemma load64_store64:
  "aligned8 a \<Longrightarrow> aligned8 b \<Longrightarrow> load64 (store64 m a v) b = (if a = b then v else load64 m b)"
  by (simp add: load64_store64_other)

lemma load64_zero: "(\<And>i. i < 8 \<Longrightarrow> m (a + of_nat i) = 0) \<Longrightarrow> load64 m a = 0"
proof -
  assume z: "\<And>i. i < 8 \<Longrightarrow> m (a + of_nat i) = 0"
  then have "load64 m a = load64 (\<lambda>_. 0) a" by (intro load64_cong) simp
  also have "\<dots> = 0" by (simp add: load64_def load_bytes_def numeral_eq_Suc upt_rec)
  finally show ?thesis .
qed

end
