(* ===== verification/CString.thy ===== *)
theory CString
  imports Bytes
begin

text \<open>
  The memory and string routines of \<open>lib/string.c\<close>, with the two \<open>rep stos\<close> helpers of
  \<open>include/opsys/x86.h\<close>. A routine takes the memory and its pointer arguments and returns
  the new memory with the C result. A \<open>size_t\<close> count is a \<open>u64\<close>; a loop that only counts
  it down runs on its value as a \<open>nat\<close>, a loop whose counter can wrap keeps the word.
\<close>

section \<open>Filling and comparing\<close>

fun stosb :: "mem \<Rightarrow> u64 \<Rightarrow> u32 \<Rightarrow> nat \<Rightarrow> mem" where
  "stosb m addr data 0 = m"
| "stosb m addr data (Suc cnt) = stosb (m(addr := ucast data)) (addr + 1) data cnt"

fun stosl :: "mem \<Rightarrow> u64 \<Rightarrow> u32 \<Rightarrow> nat \<Rightarrow> mem" where
  "stosl m addr data 0 = m"
| "stosl m addr data (Suc cnt) = stosl (store_bytes m addr (le_bytes 4 data)) (addr + 4) data cnt"

definition memset :: "mem \<Rightarrow> u64 \<Rightarrow> u32 \<Rightarrow> u64 \<Rightarrow> mem \<times> u64" where
  "memset m dst c n =
     (if dst mod 4 = 0 \<and> n mod 4 = 0 then
        let c = c AND 0xFF in
        (stosl m dst (push_bit 24 c OR push_bit 16 c OR push_bit 8 c OR c) (unat (n div 4)), dst)
      else (stosb m dst c (unat n), dst))"

fun memcmp_loop :: "mem \<Rightarrow> u64 \<Rightarrow> u64 \<Rightarrow> nat \<Rightarrow> int" where
  "memcmp_loop m s1 s2 0 = 0"
| "memcmp_loop m s1 s2 (Suc n) =
     (if m s1 \<noteq> m s2 then uint (m s1) - uint (m s2)
      else memcmp_loop m (s1 + 1) (s2 + 1) n)"

definition memcmp :: "mem \<Rightarrow> u64 \<Rightarrow> u64 \<Rightarrow> u64 \<Rightarrow> int" where
  "memcmp m v1 v2 n = memcmp_loop m v1 v2 (unat n)"

section \<open>Copying\<close>

fun copy_forward :: "mem \<Rightarrow> u64 \<Rightarrow> u64 \<Rightarrow> nat \<Rightarrow> mem" where
  "copy_forward m d s 0 = m"
| "copy_forward m d s (Suc n) = copy_forward (m(d := m s)) (d + 1) (s + 1) n"

fun copy_backward :: "mem \<Rightarrow> u64 \<Rightarrow> u64 \<Rightarrow> nat \<Rightarrow> mem" where
  "copy_backward m d s 0 = m"
| "copy_backward m d s (Suc n) = copy_backward (m(d - 1 := m (s - 1))) (d - 1) (s - 1) n"

definition memmove :: "mem \<Rightarrow> u64 \<Rightarrow> u64 \<Rightarrow> u64 \<Rightarrow> mem \<times> u64" where
  "memmove m dst src n =
     (if src < dst \<and> src + n > dst
      then (copy_backward m (dst + n) (src + n) (unat n), dst)
      else (copy_forward m dst src (unat n), dst))"

definition memcpy :: "mem \<Rightarrow> u64 \<Rightarrow> u64 \<Rightarrow> u64 \<Rightarrow> mem \<times> u64" where
  "memcpy m dst src n = memmove m dst src n"

section \<open>Strings\<close>

fun strncmp_loop :: "mem \<Rightarrow> u64 \<Rightarrow> u64 \<Rightarrow> nat \<Rightarrow> int" where
  "strncmp_loop m p q 0 = 0"
| "strncmp_loop m p q (Suc n) =
     (if m p \<noteq> 0 \<and> m p = m q then strncmp_loop m (p + 1) (q + 1) n
      else uint (m p) - uint (m q))"

definition strncmp :: "mem \<Rightarrow> u64 \<Rightarrow> u64 \<Rightarrow> u64 \<Rightarrow> int" where
  "strncmp m p q n = strncmp_loop m p q (unat n)"

text \<open>\<open>strlen\<close> does not return when no byte of the memory is zero: \<open>None\<close>.\<close>

partial_function (option) strlen_loop :: "mem \<Rightarrow> u64 \<Rightarrow> u64 \<Rightarrow> u64 option" where
  "strlen_loop m s n = (if m (s + n) \<noteq> 0 then strlen_loop m s (n + 1) else Some n)"

definition strlen :: "mem \<Rightarrow> u64 \<Rightarrow> u64 option" where
  "strlen m s = strlen_loop m s 0"

definition strcmp :: "mem \<Rightarrow> u64 \<Rightarrow> u64 \<Rightarrow> int option" where
  "strcmp m p q =
     Option.bind (strlen m p) (\<lambda>p_len.
     Option.bind (strlen m p) (\<lambda>q_len.
       let min_len = (if p_len < q_len then p_len else q_len) in
       Some (strncmp m p q (min_len + 1))))"

text \<open>
  The first loop of \<open>strncpy\<close> decrements \<open>n\<close> also when its test fails, so it leaves
  \<open>n - 1\<close>, which wraps when \<open>n\<close> is 0; the second loop starts from what the first leaves.
\<close>

function strncpy_copy :: "mem \<Rightarrow> u64 \<Rightarrow> u64 \<Rightarrow> u64 \<Rightarrow> mem \<times> u64 \<times> u64" where
  "strncpy_copy m dst src n =
     (if n > 0 then
        let m' = m(dst := m src) in
        if m src \<noteq> 0 then strncpy_copy m' (dst + 1) (src + 1) (n - 1)
        else (m', dst + 1, n - 1)
      else (m, dst, n - 1))"
  by pat_completeness auto
termination
  by (relation "measure (\<lambda>(m, dst, src, n). unat n)")
     (auto simp: unat_pred_less word_neq_0_conv)

function strncpy_pad :: "mem \<Rightarrow> u64 \<Rightarrow> u64 \<Rightarrow> mem" where
  "strncpy_pad m dst n = (if n > 0 then strncpy_pad (m(dst := 0)) (dst + 1) (n - 1) else m)"
  by pat_completeness auto
termination
  by (relation "measure (\<lambda>(m, dst, n). unat n)")
     (auto simp: unat_pred_less word_neq_0_conv)

definition strncpy :: "mem \<Rightarrow> u64 \<Rightarrow> u64 \<Rightarrow> u64 \<Rightarrow> mem \<times> u64" where
  "strncpy m dst src n =
     (let os = dst; (m, dst, n) = strncpy_copy m dst src n in (strncpy_pad m dst n, os))"

function safestrcpy_loop :: "mem \<Rightarrow> u64 \<Rightarrow> u64 \<Rightarrow> u64 \<Rightarrow> mem \<times> u64" where
  "safestrcpy_loop m dst src n =
     (let n = n - 1 in
      if n > 0 then
        let m' = m(dst := m src) in
        if m src \<noteq> 0 then safestrcpy_loop m' (dst + 1) (src + 1) n
        else (m', dst + 1)
      else (m, dst))"
  by pat_completeness auto
termination
  by (relation "measure (\<lambda>(m, dst, src, n). unat (n - 1))")
     (auto simp: unat_pred2_less word_neq_0_conv)

definition safestrcpy :: "mem \<Rightarrow> u64 \<Rightarrow> u64 \<Rightarrow> u64 \<Rightarrow> mem \<times> u64" where
  "safestrcpy m dst src n =
     (let os = dst in
      if n \<le> 0 then (m, os)
      else let (m, dst) = safestrcpy_loop m dst src n in (m(dst := 0), os))"

declare strncpy_copy.simps [simp del] strncpy_pad.simps [simp del] safestrcpy_loop.simps [simp del]


section \<open>Filling\<close>

lemma stosb_eq:
  "cnt \<le> 2 ^ 64 \<Longrightarrow>
   stosb m addr data cnt = (\<lambda>x. if in_region addr cnt x then ucast data else m x)"
proof (induction cnt arbitrary: m addr)
  case 0
  then show ?case by simp
next
  case (Suc cnt)
  then show ?case by (auto simp: in_region_Suc fun_eq_iff)
qed

lemma stosl_eq:
  assumes "\<And>i. i < 4 \<Longrightarrow> le_bytes 4 data ! i = c"
  shows "4 * cnt \<le> 2 ^ 64 \<Longrightarrow>
     stosl m addr data cnt = (\<lambda>x. if in_region addr (4 * cnt) x then c else m x)"
proof (induction cnt arbitrary: m addr)
  case 0
  then show ?case by simp
next
  case (Suc cnt)
  have "in_region addr (4 * Suc cnt) x \<longleftrightarrow> in_region addr 4 x \<or> in_region (addr + 4) (4 * cnt) x"
    for x using in_region_add[of 4 "4 * cnt" addr x] Suc.prems by simp
  then show ?case
    using Suc assms by (auto simp: store_bytes_def in_region_def fun_eq_iff)
qed

lemma stosl_pattern:
  assumes "i < 4" and "d = (c :: u32) AND 0xFF"
  shows "le_bytes 4 (push_bit 24 d OR push_bit 16 d OR push_bit 8 d OR d :: u32) ! i = ucast c"
proof -
  have "d = c AND mask 8" using assms(2) by (simp add: mask_eq_exp_minus_1)
  then have d: "bit d n \<longleftrightarrow> n < 8 \<and> bit c n" for n
    by (auto simp: bit_simps)
  have "i = 0 \<or> i = 1 \<or> i = 2 \<or> i = 3" using assms(1) by auto
  then show ?thesis
    by (elim disjE) (hypsubst, (simp only: le_bytes_nth, intro bit_word_eqI, auto simp: bit_simps d)+)
qed

lemma memset_eq:
  "memset m dst c n = ((\<lambda>x. if in_region dst (unat n) x then ucast c else m x), dst)"
proof (cases "dst mod 4 = 0 \<and> n mod 4 = 0")
  case True
  have "unat (n mod 4) = 0" using True by simp
  then have "unat n mod 4 = 0" by (simp add: unat_mod_distrib)
  then have n: "4 * unat (n div 4) = unat n"
    by (simp add: unat_div_distrib) presburger
  have "4 * unat (n div 4) \<le> 2 ^ 64" using n by simp
  then have "stosl m dst (push_bit 24 d OR push_bit 16 d OR push_bit 8 d OR d) (unat (n div 4)) =
      (\<lambda>x. if in_region dst (unat n) x then ucast c else m x)" if "d = c AND 0xFF" for d
    unfolding n[symmetric] by (intro stosl_eq stosl_pattern that)
  from this[OF refl] show ?thesis
    by (simp only: memset_def Let_def True simp_thms if_True)
next
  case False
  then show ?thesis unfolding memset_def if_not_P[OF False] by (simp add: stosb_eq)
qed

section \<open>Comparing\<close>

text \<open>
  \<open>str_cmp\<close> is the comparison C promises: the difference of the first two bytes that
  differ, the end of a string counting as a zero byte.
\<close>

fun str_cmp :: "u8 list \<Rightarrow> u8 list \<Rightarrow> int" where
  "str_cmp [] [] = 0"
| "str_cmp [] (c # cs) = - uint c"
| "str_cmp (b # bs) [] = uint b"
| "str_cmp (b # bs) (c # cs) = (if b = c then str_cmp bs cs else uint b - uint c)"

lemma str_cmp_sign:
  "0 \<notin> set bs \<Longrightarrow> 0 \<notin> set cs \<Longrightarrow>
   (str_cmp bs cs = 0 \<longleftrightarrow> bs = cs) \<and> (str_cmp bs cs < 0 \<longleftrightarrow> ord_class.lexordp bs cs)"
proof (induction bs cs rule: str_cmp.induct)
  case (2 c cs)
  then have "0 < uint c" by (simp add: uint_pos)
  then show ?case by simp
next
  case (3 b bs)
  then have "0 < uint b" by (simp add: uint_pos)
  then show ?case by simp
qed (auto simp: word_less_def word_uint_eq_iff)

lemma memcmp_loop_sign:
  "(memcmp_loop m a b n = 0 \<longleftrightarrow> load_bytes m a n = load_bytes m b n) \<and>
   (memcmp_loop m a b n < 0 \<longleftrightarrow> ord_class.lexordp (load_bytes m a n) (load_bytes m b n))"
  by (induction n arbitrary: a b) (auto simp: load_bytes_Suc word_less_def word_uint_eq_iff)

section \<open>Copying\<close>

lemma copy_forward_eq:
  "n \<le> 2 ^ 64 \<Longrightarrow> (\<And>i j. j < i \<Longrightarrow> i < n \<Longrightarrow> s + of_nat i \<noteq> d + of_nat j) \<Longrightarrow>
   copy_forward m d s n = store_bytes m d (load_bytes m s n)"
proof (induction n arbitrary: m d s)
  case 0
  then show ?case by simp
next
  case (Suc n)
  have "s + 1 + of_nat i \<noteq> d" if "i < n" for i
    using Suc.prems(2)[of 0 "Suc i"] that by (simp add: algebra_simps)
  then have ld: "load_bytes (m(d := m s)) (s + 1) n = load_bytes m (s + 1) n"
    by (rule load_bytes_upd)
  have "s + 1 + of_nat i \<noteq> d + 1 + of_nat j" if "j < i" "i < n" for i j
    using Suc.prems(2)[of "Suc j" "Suc i"] that by (simp add: algebra_simps)
  then show ?case
    using Suc by (simp add: ld load_bytes_Suc store_bytes_Cons)
qed

lemma copy_backward_eq:
  "n \<le> 2 ^ 64 \<Longrightarrow> (\<And>i j. i < j \<Longrightarrow> j < n \<Longrightarrow> s + of_nat i \<noteq> d + of_nat j) \<Longrightarrow>
   copy_backward m (d + of_nat n) (s + of_nat n) n = store_bytes m d (load_bytes m s n)"
proof (induction n arbitrary: m)
  case 0
  then show ?case by simp
next
  case (Suc n)
  have "load_bytes (m(d + of_nat n := m (s + of_nat n))) s n = load_bytes m s n"
    using Suc.prems(2)[of _ n] by (intro load_bytes_upd) auto
  then show ?case
    using Suc by (simp add: load_bytes_snoc store_bytes_snoc algebra_simps)
qed

section \<open>Strings in memory\<close>

definition cstring :: "mem \<Rightarrow> u64 \<Rightarrow> u8 list \<Rightarrow> bool" where
  "cstring m s bs \<longleftrightarrow>
     0 \<notin> set bs \<and> load_bytes m s (length bs) = bs \<and> m (s + of_nat (length bs)) = 0
     \<and> length bs < 2 ^ 64"

lemma cstring_Nil [simp]: "cstring m s [] \<longleftrightarrow> m s = 0"
  by (simp add: cstring_def)

lemma cstring_Cons [simp]:
  "cstring m s (b # bs) \<longleftrightarrow> m s = b \<and> b \<noteq> 0 \<and> cstring m (s + 1) bs \<and> length bs + 1 < 2 ^ 64"
proof -
  have "s + of_nat (length (b # bs)) = s + 1 + of_nat (length bs)" by simp
  then show ?thesis
    unfolding cstring_def list.size add_0_right add_Suc_right load_bytes_Suc list.inject
    by (auto simp: add.assoc)
qed

lemma cstring_nth: "cstring m s bs \<Longrightarrow> i < length bs \<Longrightarrow> m (s + of_nat i) = bs ! i \<and> bs ! i \<noteq> 0"
proof -
  assume c: "cstring m s bs" and i: "i < length bs"
  then have "load_bytes m s (length bs) ! i = bs ! i" by (simp add: cstring_def)
  with i have "m (s + of_nat i) = bs ! i" by (simp add: load_bytes_def)
  moreover have "bs ! i \<in> set bs" using i by simp
  then have "bs ! i \<noteq> 0" using c by (metis cstring_def)
  ultimately show ?thesis by simp
qed

lemma cstring_upd:
  "cstring m s bs \<Longrightarrow> (\<And>i. i \<le> length bs \<Longrightarrow> s + of_nat i \<noteq> x) \<Longrightarrow> cstring (m(x := b)) s bs"
  by (simp add: cstring_def load_bytes_upd)

lemma strlen_loop_cstring:
  assumes "cstring m s bs" and "k \<le> length bs"
  shows "strlen_loop m s (of_nat k) = Some (of_nat (length bs))"
  using assms(2)
proof (induction rule: inc_induct)
  case base
  show ?case using assms(1) by (subst strlen_loop.simps) (simp add: cstring_def)
next
  case (step k)
  then have "m (s + of_nat k) \<noteq> 0" using cstring_nth[OF assms(1)] by simp
  then show ?case using step.IH by (subst strlen_loop.simps) (simp add: algebra_simps)
qed

lemma strlen_cstring: "cstring m s bs \<Longrightarrow> strlen m s = Some (of_nat (length bs))"
  using strlen_loop_cstring[of m s bs 0] by (simp add: strlen_def)

lemma strlen_loop_stops:
  assumes "strlen_loop m s n = Some r"
  shows "m (s + r) = 0"
proof (rule strlen_loop.raw_induct[where P = "\<lambda>m s n r. m (s + r) = 0", OF _ assms])
  fix f :: "mem \<Rightarrow> u64 \<Rightarrow> u64 \<Rightarrow> u64 option" and m s n r
  assume "\<And>m s n r. f m s n = Some r \<Longrightarrow> m (s + r) = 0"
    and "(if m (s + n) \<noteq> 0 then f m s (n + 1) else Some n) = Some r"
  then show "m (s + r) = 0" by (auto split: if_splits)
qed

lemma zero_byte_cstring:
  assumes "m x = 0"
  shows "\<exists>bs. cstring m s bs"
proof -
  let ?i = "LEAST i. m (s + of_nat i) = 0"
  have ex: "m (s + of_nat (unat (x - s))) = 0" using assms by simp
  then have "m (s + of_nat ?i) = 0" by (rule LeastI)
  moreover have "?i \<le> unat (x - s)" using ex by (rule Least_le)
  then have "?i < 2 ^ 64" by (rule le_less_trans) simp
  moreover have "0 \<notin> set (load_bytes m s ?i)"
    by (auto simp: load_bytes_def dest: not_less_Least)
  ultimately have "cstring m s (load_bytes m s ?i)" by (simp add: cstring_def)
  then show ?thesis ..
qed

lemma strncmp_loop_eq:
  "cstring m p bs \<Longrightarrow> cstring m q cs \<Longrightarrow>
   strncmp_loop m p q n = str_cmp (take n bs) (take n cs)"
proof (induction n arbitrary: p q bs cs)
  case 0
  then show ?case by simp
next
  case (Suc n)
  then show ?case by (cases bs; cases cs) auto
qed

section \<open>Copying strings\<close>

lemma strncpy_copy_cstring:
  "cstring m s bs \<Longrightarrow> length bs < unat n \<Longrightarrow>
   (\<And>i j. i \<le> length bs \<Longrightarrow> j < i \<Longrightarrow> s + of_nat i \<noteq> d + of_nat j) \<Longrightarrow>
   strncpy_copy m d s n =
     (store_bytes m d (bs @ [0]), d + of_nat (length bs) + 1, n - of_nat (length bs) - 1)"
proof (induction bs arbitrary: m d s n)
  case Nil
  then show ?case by (subst strncpy_copy.simps) (simp add: word_less_nat_alt Let_def)
next
  case (Cons b bs)
  have n: "0 < n" "length bs < unat (n - 1)"
    using Cons.prems(2) by (auto simp: word_less_nat_alt unat_pred)
  have sep: "s + 1 + of_nat i \<noteq> d + of_nat j" if "i \<le> length bs" "j \<le> i" for i j
    using Cons.prems(3)[of "Suc i" j] that by (simp add: add.assoc)
  have upd: "cstring (m(d := b)) (s + 1) bs"
    using Cons.prems(1) sep[of _ 0] by (intro cstring_upd) auto
  have sep': "s + 1 + of_nat i \<noteq> d + 1 + of_nat j" if "i \<le> length bs" "j < i" for i j
    using sep[of i "Suc j"] that by (simp add: add.assoc)
  have "strncpy_copy (m(d := b)) (d + 1) (s + 1) (n - 1) =
      (store_bytes (m(d := b)) (d + 1) (bs @ [0]), d + 1 + of_nat (length bs) + 1,
       n - 1 - of_nat (length bs) - 1)"
    by (rule Cons.IH[OF upd n(2) sep'])
  then show ?case
    using Cons.prems(1) n(1)
    by (subst strncpy_copy.simps) (simp add: Let_def store_bytes_Cons algebra_simps)
qed

lemma strncpy_copy_full:
  "k = unat n \<Longrightarrow> (\<And>i. i < k \<Longrightarrow> m (s + of_nat i) \<noteq> 0) \<Longrightarrow>
   (\<And>i j. i < k \<Longrightarrow> j < i \<Longrightarrow> s + of_nat i \<noteq> d + of_nat j) \<Longrightarrow>
   strncpy_copy m d s n = (store_bytes m d (load_bytes m s k), d + n, - 1)"
proof (induction k arbitrary: m d s n)
  case 0
  then have "n = 0" by (simp add: unat_eq_zero)
  then show ?case by (subst strncpy_copy.simps) simp
next
  case (Suc k)
  have n: "0 < n" "k = unat (n - 1)"
    using Suc.prems(1) by (auto simp: word_less_nat_alt unat_pred)
  have sep: "s + 1 + of_nat i \<noteq> d + of_nat j" if "i < k" "j \<le> i" for i j
    using Suc.prems(3)[of "Suc i" j] that by (simp add: add.assoc)
  have ld: "load_bytes (m(d := m s)) (s + 1) k = load_bytes m (s + 1) k"
    using sep[of _ 0] by (intro load_bytes_upd) auto
  have "strncpy_copy (m(d := m s)) (d + 1) (s + 1) (n - 1) =
      (store_bytes (m(d := m s)) (d + 1) (load_bytes (m(d := m s)) (s + 1) k), d + 1 + (n - 1), - 1)"
  proof (rule Suc.IH[OF n(2)])
    show "(m(d := m s)) (s + 1 + of_nat i) \<noteq> 0" if "i < k" for i
      using Suc.prems(2)[of "Suc i"] sep[of i 0] that by (simp add: add.assoc)
    show "s + 1 + of_nat i \<noteq> d + 1 + of_nat j" if "i < k" "j < i" for i j
      using sep[of i "Suc j"] that by (simp add: add.assoc)
  qed
  moreover have "k < 18446744073709551616" using Suc.prems(1) unat_lt64[of n] by linarith
  ultimately show ?case
    using Suc.prems(2)[of 0] n(1)
    by (subst strncpy_copy.simps) (simp add: Let_def ld load_bytes_Suc store_bytes_Cons)
qed

lemma strncpy_pad_eq: "strncpy_pad m d n = (\<lambda>x. if in_region d (unat n) x then 0 else m x)"
proof (induction m d n rule: strncpy_pad.induct)
  case (1 m d n)
  show ?case
  proof (cases "n > 0")
    case True
    have "unat n = Suc (unat (n - 1))" using True by (simp add: unat_pred word_less_nat_alt)
    moreover have "unat n \<le> 18446744073709551616" by (rule unat_le64)
    ultimately have "in_region d (unat n) x \<longleftrightarrow> x = d \<or> in_region (d + 1) (unat (n - 1)) x" for x
      by (simp add: in_region_Suc del: unat_le64)
    moreover have "strncpy_pad m d n = strncpy_pad (m(d := 0)) (d + 1) (n - 1)"
      using True by (subst strncpy_pad.simps) simp
    ultimately show ?thesis
      using 1[OF True] by (auto simp: fun_eq_iff)
  next
    case False
    then show ?thesis by (subst strncpy_pad.simps) (simp add: word_neq_0_conv[symmetric])
  qed
qed

lemma safestrcpy_loop_cstring:
  "cstring m s bs \<Longrightarrow> n = of_nat (Suc k) \<Longrightarrow> Suc k < 2 ^ 64 \<Longrightarrow>
   (\<And>i j. i \<le> length bs \<Longrightarrow> j < i \<Longrightarrow> s + of_nat i \<noteq> d + of_nat j) \<Longrightarrow>
   safestrcpy_loop m d s n =
     (if length bs < k then (store_bytes m d (bs @ [0]), d + of_nat (length bs) + 1)
      else (store_bytes m d (take k bs), d + of_nat k))"
proof (induction k arbitrary: m d s n bs)
  case 0
  then show ?case by (subst safestrcpy_loop.simps) simp
next
  case (Suc k)
  have n: "n - 1 = of_nat (Suc k)" using Suc.prems(2) by simp
  moreover have "unat (of_nat (Suc k) :: u64) = Suc k"
    using Suc.prems(3) by (intro unat_of_nat64) simp
  ultimately have pos: "0 < n - 1" by (simp only: word_less_nat_alt) simp
  show ?case
  proof (cases bs)
    case Nil
    then show ?thesis
      using Suc.prems(1) pos by (subst safestrcpy_loop.simps) (simp add: Let_def)
  next
    case (Cons b bs')
    have sep: "s + 1 + of_nat i \<noteq> d + of_nat j" if "i \<le> length bs'" "j \<le> i" for i j
      using Suc.prems(4)[of "Suc i" j] that Cons by (simp add: add.assoc)
    have upd: "cstring (m(d := b)) (s + 1) bs'"
      using Suc.prems(1) sep[of _ 0] Cons by (intro cstring_upd) auto
    have sep': "s + 1 + of_nat i \<noteq> d + 1 + of_nat j" if "i \<le> length bs'" "j < i" for i j
      using sep[of i "Suc j"] that by (simp add: add.assoc)
    have "Suc k < 2 ^ 64" using Suc.prems(3) by simp
    then have "safestrcpy_loop (m(d := b)) (d + 1) (s + 1) (n - 1) =
      (if length bs' < k
       then (store_bytes (m(d := b)) (d + 1) (bs' @ [0]), d + 1 + of_nat (length bs') + 1)
       else (store_bytes (m(d := b)) (d + 1) (take k bs'), d + 1 + of_nat k))"
      by (rule Suc.IH[OF upd n _ sep'])
    then show ?thesis
      using Suc.prems(1,3) pos Cons
      by (subst safestrcpy_loop.simps) (simp add: Let_def store_bytes_Cons algebra_simps)
  qed
qed


lemma memmove_correct:
  assumes src: "unat src + unat n < 2 ^ 64" and dst: "unat dst + unat n \<le> 2 ^ 64"
  shows "memmove m dst src n = (store_bytes m dst (load_bytes m src (unat n)), dst)"
proof -
  let ?n = "unat n"
  have s: "unat (src + of_nat i) = unat src + i" if "i < ?n" for i
    using src that by (simp add: unat_word_ariths unat_of_nat)
  have d: "unat (dst + of_nat i) = unat dst + i" if "i < ?n" for i
    using dst that by (simp add: unat_word_ariths unat_of_nat)
  have end_src: "unat (src + n) = unat src + ?n" using src by (simp add: unat_word_ariths)
  have n: "?n \<le> 2 ^ 64" by simp
  show ?thesis
  proof (cases "src < dst \<and> src + n > dst")
    case True
    have "src + of_nat i \<noteq> dst + of_nat j" if "i < j" "j < ?n" for i j
    proof -
      have "unat (src + of_nat i) < unat (dst + of_nat j)"
        using True that s[of i] d[of j] by (simp add: word_less_nat_alt)
      then show ?thesis by auto
    qed
    from copy_backward_eq[OF n this, of m] show ?thesis
      using True by (simp add: memmove_def)
  next
    case False
    have "src + of_nat i \<noteq> dst + of_nat j" if "j < i" "i < ?n" for i j
    proof -
      have "unat dst \<le> unat src \<or> unat src + ?n \<le> unat dst"
        using False end_src by (auto simp: word_less_nat_alt)
      then have "unat (src + of_nat i) \<noteq> unat (dst + of_nat j)"
        using that s[of i] d[of j] by auto
      then show ?thesis by auto
    qed
    from copy_forward_eq[OF n this, of m] show ?thesis
      using False by (auto simp: memmove_def)
  qed
qed

lemma memmove_disjoint:
  assumes "\<And>i. i < unat n \<Longrightarrow> \<not> in_region dst (unat n) (src + of_nat i)"
  shows "memmove m dst src n = (store_bytes m dst (load_bytes m src (unat n)), dst)"
proof -
  have "src + of_nat i \<noteq> dst + of_nat j" if "i < unat n" "j < unat n" for i j
    using assms[OF that(1)] in_region_offset[OF that(2)] by fastforce
  then show ?thesis
    using copy_backward_eq[of "unat n" src dst m] copy_forward_eq[of "unat n" src dst m]
    by (simp add: memmove_def)
qed

section \<open>Properties\<close>

text \<open>\<open>memset\<close> fills exactly the \<open>n\<close> bytes from \<open>dst\<close> with the low byte of \<open>c\<close> and
  returns \<open>dst\<close>, on the word-wise path (\<open>dst\<close> and \<open>n\<close> multiples of 4) as on the byte-wise one.\<close>

theorem memset_fills:
  "memset m dst c n = ((\<lambda>x. if in_region dst (unat n) x then ucast c else m x), dst)"
  by (rule memset_eq)

text \<open>C22: \<open>memmove\<close> (and so \<open>memcpy\<close>) copies the bytes the source held before the call,
  also when the two ranges overlap in either direction, and changes nothing else.\<close>

theorem memmove_overlap:
  assumes src: "unat src + unat n < 2 ^ 64" and dst: "unat dst + unat n \<le> 2 ^ 64"
  shows "memmove m dst src n = (store_bytes m dst (load_bytes m src (unat n)), dst)"
  using assms by (rule memmove_correct)

text \<open>Shifting four bytes up by one, over themselves.\<close>

theorem memmove_overlap_witness:
  "memmove (\<lambda>x. ucast (x - 0x100)) 0x101 0x100 4 =
     (store_bytes (\<lambda>x. ucast (x - 0x100)) 0x101 [0, 1, 2, 3], 0x101)"
  using memmove_overlap[of "0x100" 4 "0x101" "\<lambda>x. ucast (x - 0x100)"]
  by (simp add: load_bytes_Suc)

text \<open>\<open>memcmp\<close> is 0 exactly when the ranges hold the same bytes and negative exactly when
  the first comes first in the lexicographic order of unsigned bytes.\<close>

theorem memcmp_orders:
  "(memcmp m a b n = 0 \<longleftrightarrow> load_bytes m a (unat n) = load_bytes m b (unat n))
   \<and> (memcmp m a b n < 0 \<longleftrightarrow>
       ord_class.lexordp (load_bytes m a (unat n)) (load_bytes m b (unat n)))"
  by (simp add: memcmp_def memcmp_loop_sign)

text \<open>\<open>strlen\<close> returns \<open>n\<close> exactly when a string of \<open>n\<close> bytes starts at its argument, and
  it returns at all exactly when some byte of the memory is zero.\<close>

theorem strlen_returns:
  "(strlen m s = Some n \<longleftrightarrow> (\<exists>bs. cstring m s bs \<and> n = of_nat (length bs)))
   \<and> (strlen m s = None \<longleftrightarrow> (\<forall>x. m x \<noteq> 0))"
proof
  have ex: "\<exists>bs. cstring m s bs" if "strlen m s = Some r" for r
    using that strlen_loop_stops[of m s 0 r] zero_byte_cstring by (auto simp: strlen_def)
  show "strlen m s = Some n \<longleftrightarrow> (\<exists>bs. cstring m s bs \<and> n = of_nat (length bs))"
    using ex strlen_cstring by fastforce
  show "strlen m s = None \<longleftrightarrow> (\<forall>x. m x \<noteq> 0)"
  proof
    assume "strlen m s = None"
    then show "\<forall>x. m x \<noteq> 0" using zero_byte_cstring[of m] strlen_cstring by (metis option.distinct(1))
  next
    assume nz: "\<forall>x. m x \<noteq> 0"
    show "strlen m s = None"
    proof (cases "strlen m s")
      case (Some r)
      then show ?thesis using ex nz by (auto simp: cstring_def)
    qed simp
  qed
qed

lemma str_cmp_take: "length bs < n \<Longrightarrow> str_cmp bs (take n cs) = str_cmp bs cs"
proof (induction bs cs arbitrary: n rule: str_cmp.induct)
  case (2 c cs)
  then show ?case by (cases n) simp_all
next
  case (4 b bs c cs)
  then show ?case by (cases n) simp_all
qed simp_all

text \<open>\<open>strcmp\<close> compares two strings as C specifies, although it measures the length of its
  first argument twice.\<close>

theorem strcmp_compares:
  assumes "cstring m p bs" and "cstring m q cs" and "length bs + 1 < 2 ^ 64"
  shows "strcmp m p q = Some (str_cmp bs cs)"
proof -
  have "unat (of_nat (length bs) + 1 :: u64) = Suc (length bs)"
    using unat_of_nat64[of "Suc (length bs)"] assms(3) by (simp add: add.commute)
  then show ?thesis
    by (simp add: strcmp_def strlen_cstring[OF assms(1)] strncmp_def
        strncmp_loop_eq[OF assms(1,2)] str_cmp_take)
qed

text \<open>A small memory with two strings: "ab" at 16 and "ac" at 32.\<close>

definition two_strings :: mem where
  "two_strings = store_bytes (store_bytes (\<lambda>_. 0) 16 [0x61, 0x62, 0]) 32 [0x61, 0x63, 0]"

theorem strcmp_compares_witness: "strcmp two_strings 16 32 = Some (- 1)"
proof -
  have "cstring two_strings 16 [0x61, 0x62]" "cstring two_strings 32 [0x61, 0x63]"
    by (simp_all add: two_strings_def store_bytes_def)
  from strcmp_compares[OF this] show ?thesis by simp
qed

text \<open>When the source string fits, \<open>strncpy\<close> writes the string and pads with zeros to
  exactly \<open>n\<close> bytes, touching nothing else.\<close>

theorem strncpy_pads:
  assumes str: "cstring m src bs" and fits: "length bs < unat n"
    and sep: "\<And>i j. i \<le> length bs \<Longrightarrow> j < i \<Longrightarrow> src + of_nat i \<noteq> dst + of_nat j"
  shows "strncpy m dst src n =
    (store_bytes m dst (bs @ replicate (unat n - length bs) 0), dst)"
proof -
  let ?k = "length bs"
  have k: "?k < 2 ^ 64" using str by (simp add: cstring_def)
  have uk: "unat (of_nat (Suc ?k) :: u64) = Suc ?k"
    using fits unat_lt64[of n] by (intro unat_of_nat64) linarith
  have "of_nat (Suc ?k) \<le> n" using fits uk by (simp only: word_le_nat_alt)
  then have left: "unat (n - of_nat (Suc ?k)) = unat n - Suc ?k"
    using uk by (simp add: unat_sub del: of_nat_Suc)
  have eq: "n - of_nat ?k - 1 = n - of_nat (Suc ?k)" "dst + of_nat ?k + 1 = dst + of_nat (Suc ?k)"
    by (simp_all add: algebra_simps)
  have split: "replicate (unat n - ?k) 0 = [0] @ replicate (unat n - Suc ?k) (0 :: u8)"
    using fits by (metis Suc_diff_Suc append_Cons append_Nil replicate_Suc)
  have "strncpy m dst src n =
      (strncpy_pad (store_bytes m dst (bs @ [0])) (dst + of_nat (Suc ?k)) (n - of_nat (Suc ?k)), dst)"
    using strncpy_copy_cstring[OF str fits sep] by (simp only: strncpy_def Let_def eq prod.case)
  also have "strncpy_pad (store_bytes m dst (bs @ [0])) (dst + of_nat (Suc ?k)) (n - of_nat (Suc ?k)) =
      store_bytes m dst ((bs @ [0]) @ replicate (unat n - Suc ?k) 0)"
    using store_bytes_append[of "bs @ [0]" "replicate (unat n - Suc ?k) 0" m dst] fits unat_lt64[of n]
    by (simp add: strncpy_pad_eq left store_bytes_replicate del: of_nat_Suc unat_lt64)
  finally show ?thesis by (simp add: split)
qed

theorem strncpy_pads_witness:
  "strncpy two_strings 64 16 8 = (store_bytes two_strings 64 [0x61, 0x62, 0, 0, 0, 0, 0, 0], 64)"
proof -
  have "cstring two_strings 16 [0x61, 0x62]" by (simp add: two_strings_def store_bytes_def)
  moreover have "separate (16 :: u64) 3 64 3" by (simp add: separate_def)
  then have "16 + of_nat i \<noteq> (64 :: u64) + of_nat j" if "i \<le> 2" "j < i" for i j
    using that by (intro separate_neq[of 16 3 64 3]) auto
  moreover have "replicate 6 (0 :: u8) = [0, 0, 0, 0, 0, 0]" by (simp add: numeral_eq_Suc)
  ultimately show ?thesis
    using strncpy_pads[of two_strings 16 "[0x61, 0x62]" 8 64] by simp
qed

text \<open>C37: When no byte among the first \<open>n\<close> of the source is zero, \<open>strncpy\<close> does not stop after
  \<open>n\<close> bytes: its counter has wrapped, so the padding loop overwrites \<open>2\<^sup>6\<^sup>4 - 1\<close> bytes, all of
  the memory except the last byte copied.\<close>

theorem strncpy_overrun:
  assumes full: "\<And>i. i < unat n \<Longrightarrow> m (src + of_nat i) \<noteq> 0"
    and sep: "\<And>i j. i < unat n \<Longrightarrow> j < i \<Longrightarrow> src + of_nat i \<noteq> dst + of_nat j"
    and pos: "n \<noteq> 0"
  shows "fst (strncpy m dst src n) = (\<lambda>x. if x = dst + n - 1 then m (src + n - 1) else 0)"
proof
  fix x
  have copy: "strncpy_copy m dst src n = (store_bytes m dst (load_bytes m src (unat n)), dst + n, - 1)"
    by (rule strncpy_copy_full[of "unat n" n m src dst, OF refl full sep])
  have region: "in_region (dst + n) (unat (- 1 :: u64)) x \<longleftrightarrow> x \<noteq> dst + n - 1"
  proof -
    have "in_region (dst + n) (unat (- 1 :: u64)) x \<longleftrightarrow> x - (dst + n) < - 1"
      by (simp add: in_region_def word_less_nat_alt)
    also have "\<dots> \<longleftrightarrow> x - (dst + n) \<noteq> - 1" by (simp add: word_order.not_eq_extremum[symmetric])
    also have "\<dots> \<longleftrightarrow> x \<noteq> dst + n - 1" by (simp add: eq_diff_eq diff_eq_eq algebra_simps)
    finally show ?thesis .
  qed
  have "0 < unat n" using pos by (simp add: unat_gt_0)
  moreover have "of_nat (unat n - 1) = n - 1"
    using \<open>0 < unat n\<close> by (simp add: of_nat_diff)
  ultimately have last: "store_bytes m dst (load_bytes m src (unat n)) (dst + n - 1) = m (src + n - 1)"
    by (simp add: store_bytes_def load_bytes_def unat_minus_one pos algebra_simps)
  show "fst (strncpy m dst src n) x = (if x = dst + n - 1 then m (src + n - 1) else 0)"
    using last region by (simp add: strncpy_def copy strncpy_pad_eq)
qed

text \<open>One byte of a memory without zeros: the call clears everything but the byte it copied.\<close>

theorem strncpy_overrun_witness:
  "fst (strncpy (\<lambda>_. 7) 64 16 1) = (\<lambda>x. if x = 64 then 7 else 0)"
  using strncpy_overrun[of 1 "\<lambda>_. 7" 16 64] by simp

text \<open>C38: \<open>safestrcpy\<close> always terminates the destination within its \<open>n\<close> bytes: it copies as
  much of the string as leaves room for the terminator.\<close>

theorem safestrcpy_terminates:
  assumes str: "cstring m src bs" and pos: "0 < unat n"
    and sep: "\<And>i j. i \<le> length bs \<Longrightarrow> j < i \<Longrightarrow> src + of_nat i \<noteq> dst + of_nat j"
  shows "safestrcpy m dst src n =
    (store_bytes m dst (if length bs < unat n - 1 then bs @ [0, 0] else take (unat n - 1) bs @ [0]), dst)"
proof -
  define k where "k = unat n - 1"
  have k: "n = of_nat (Suc k)" "Suc k < 2 ^ 64"
    using pos unat_lt64[of n] by (simp_all add: k_def del: of_nat_Suc)
  have len: "length bs < 2 ^ 64" using str by (simp add: cstring_def)
  have "\<not> n \<le> 0" using pos by (simp add: word_le_nat_alt)
  then have "safestrcpy m dst src n =
      (let (m, d) = safestrcpy_loop m dst src n in (m(d := 0), dst))"
    by (simp add: safestrcpy_def)
  also have "\<dots> = (store_bytes m dst (if length bs < k then bs @ [0, 0] else take k bs @ [0]), dst)"
  proof (cases "length bs < k")
    case True
    have "store_bytes m dst ((bs @ [0]) @ [0]) =
        (store_bytes m dst (bs @ [0]))(dst + of_nat (length (bs @ [0])) := 0)"
      using store_bytes_append[of "bs @ [0]" "[0]" m dst] True k(2) by simp
    then show ?thesis
      using safestrcpy_loop_cstring[OF str k sep] True by (simp add: algebra_simps)
  next
    case False
    have "store_bytes m dst (take k bs @ [0]) =
        (store_bytes m dst (take k bs))(dst + of_nat (length (take k bs)) := 0)"
      using store_bytes_append[of "take k bs" "[0]" m dst] k(2) False by simp
    then show ?thesis
      using safestrcpy_loop_cstring[OF str k sep] False by (simp add: min_absorb2)
  qed
  finally show ?thesis by (simp add: k_def)
qed

theorem safestrcpy_terminates_witness:
  "safestrcpy two_strings 64 16 2 = (store_bytes two_strings 64 [0x61, 0], 64)"
proof -
  have "cstring two_strings 16 [0x61, 0x62]" by (simp add: two_strings_def store_bytes_def)
  moreover have "separate (16 :: u64) 3 64 3" by (simp add: separate_def)
  then have "16 + of_nat i \<noteq> (64 :: u64) + of_nat j" if "i \<le> 2" "j < i" for i j
    using that by (intro separate_neq[of 16 3 64 3]) auto
  ultimately show ?thesis
    using safestrcpy_terminates[of two_strings 16 "[0x61, 0x62]" 2 64] by simp
qed

end
