(* ===== verification/Elf.thy ===== *)
theory Elf
  imports Bytes
begin

text \<open>
  The ELF-64 data structures of \<open>include/elf.h\<close>.
  Each C struct is a record; its \<open>decode\<close> reads the bytes at the offsets the LP64 layout
  gives the fields (there is no padding), its \<open>encode\<close> writes them back.
\<close>

section \<open>Types\<close>

type_synonym Elf64_Addr = u64
type_synonym Elf64_Off = u64
type_synonym Elf64_Half = u16
type_synonym Elf64_Word = u32
type_synonym Elf64_Sword = u32
type_synonym Elf64_Xword = u64
type_synonym Elf64_Sxword = u64

record Elf64_Ehdr =
  e_ident :: "u8 list"
  e_type :: Elf64_Half
  e_machine :: Elf64_Half
  e_version :: Elf64_Word
  e_entry :: Elf64_Addr
  e_phoff :: Elf64_Off
  e_shoff :: Elf64_Off
  e_flags :: Elf64_Word
  e_ehsize :: Elf64_Half
  e_phentsize :: Elf64_Half
  e_phnum :: Elf64_Half
  e_shentsize :: Elf64_Half
  e_shnum :: Elf64_Half
  e_shstrndx :: Elf64_Half

record Elf64_Shdr =
  sh_name :: Elf64_Word
  sh_type :: Elf64_Word
  sh_flags :: Elf64_Xword
  sh_addr :: Elf64_Addr
  sh_offset :: Elf64_Off
  sh_size :: Elf64_Xword
  sh_link :: Elf64_Word
  sh_info :: Elf64_Word
  sh_addralign :: Elf64_Xword
  sh_entsize :: Elf64_Xword

record Elf64_Sym =
  st_name :: Elf64_Word
  st_info :: u8
  st_other :: u8
  st_shndx :: Elf64_Half
  st_value :: Elf64_Addr
  st_size :: Elf64_Xword

record Elf64_Rel =
  rel_offset :: Elf64_Addr
  rel_info :: Elf64_Xword

record Elf64_Rela =
  r_offset :: Elf64_Addr
  r_info :: Elf64_Xword
  r_addend :: Elf64_Sxword

record Elf64_Phdr =
  p_type :: Elf64_Word
  p_flags :: Elf64_Word
  p_offset :: Elf64_Off
  p_vaddr :: Elf64_Addr
  p_paddr :: Elf64_Addr
  p_filesz :: Elf64_Xword
  p_memsz :: Elf64_Xword
  p_align :: Elf64_Xword

text \<open>The union \<open>d_un\<close> has two views (\<open>d_val\<close>, \<open>d_ptr\<close>) of the same eight bytes.\<close>

record Elf64_Dyn =
  d_tag :: Elf64_Sxword
  d_un :: u64

section \<open>Constants the program tests\<close>

named_theorems elf_consts \<open>values of the ELF enumerations\<close>

definition PT_LOAD :: Elf64_Word where [elf_consts]: "PT_LOAD = 1"
definition PT_DYNAMIC :: Elf64_Word where [elf_consts]: "PT_DYNAMIC = 2"
definition PT_INTERP :: Elf64_Word where [elf_consts]: "PT_INTERP = 3"
definition PT_NUM :: Elf64_Word where [elf_consts]: "PT_NUM = 8"
definition PT_GNU_STACK :: Elf64_Word where [elf_consts]: "PT_GNU_STACK = 0x6474e551"
definition PT_GNU_RELRO :: Elf64_Word where [elf_consts]: "PT_GNU_RELRO = 0x6474e552"

definition PF_X :: Elf64_Word where [elf_consts]: "PF_X = 1"
definition PF_W :: Elf64_Word where [elf_consts]: "PF_W = 2"
definition PF_R :: Elf64_Word where [elf_consts]: "PF_R = 4"

definition SHN_BEGIN :: nat where [elf_consts]: "SHN_BEGIN = 1"

definition SHT_SYMTAB :: Elf64_Word where [elf_consts]: "SHT_SYMTAB = 2"
definition SHT_RELA :: Elf64_Word where [elf_consts]: "SHT_RELA = 4"
definition SHT_REL :: Elf64_Word where [elf_consts]: "SHT_REL = 9"
definition SHT_DYNSYM :: Elf64_Word where [elf_consts]: "SHT_DYNSYM = 11"
definition SHT_NUM :: Elf64_Word where [elf_consts]: "SHT_NUM = 16"

definition SHF_ALLOC :: Elf64_Xword where [elf_consts]: "SHF_ALLOC = 2"

definition DT_NULL :: Elf64_Sxword where [elf_consts]: "DT_NULL = 0"
definition DT_RELA :: Elf64_Sxword where [elf_consts]: "DT_RELA = 7"
definition DT_RELASZ :: Elf64_Sxword where [elf_consts]: "DT_RELASZ = 8"
definition DT_RELAENT :: Elf64_Sxword where [elf_consts]: "DT_RELAENT = 9"
definition DT_REL :: Elf64_Sxword where [elf_consts]: "DT_REL = 17"

definition R_X86_64_RELATIVE :: u64 where [elf_consts]: "R_X86_64_RELATIVE = 8"

section \<open>Macros\<close>

definition ELF_VERIFY_MAGIC :: "Elf64_Ehdr \<Rightarrow> bool" where
  "ELF_VERIFY_MAGIC hdr \<longleftrightarrow>
     e_ident hdr ! 0 = 0x7f \<and> e_ident hdr ! 1 = 0x45 \<and>
     e_ident hdr ! 2 = 0x4c \<and> e_ident hdr ! 3 = 0x46"

definition ELF_SYMBOL_BINDING :: "Elf64_Sym \<Rightarrow> u8" where
  "ELF_SYMBOL_BINDING s = drop_bit 4 (st_info s)"

definition ELF_SYMBOL_TYPE :: "Elf64_Sym \<Rightarrow> u8" where
  "ELF_SYMBOL_TYPE s = st_info s AND 0xf"

definition ELF64_R_SYM :: "u64 \<Rightarrow> u64" where
  "ELF64_R_SYM info = drop_bit 32 info"

definition ELF64_R_TYPE :: "u64 \<Rightarrow> u64" where
  "ELF64_R_TYPE info = info AND 0xffffffff"

section \<open>Byte layout\<close>

definition field :: "u8 list \<Rightarrow> nat \<Rightarrow> nat \<Rightarrow> 'a::len word" where
  "field bs off n = le_word (take n (drop off bs))"

definition sizeof_Ehdr :: nat where "sizeof_Ehdr = 64"
definition sizeof_Shdr :: nat where "sizeof_Shdr = 64"
definition sizeof_Phdr :: nat where "sizeof_Phdr = 56"
definition sizeof_Sym :: nat where "sizeof_Sym = 24"
definition sizeof_Rel :: nat where "sizeof_Rel = 16"
definition sizeof_Rela :: nat where "sizeof_Rela = 24"
definition sizeof_Dyn :: nat where "sizeof_Dyn = 16"

definition decode_Ehdr :: "u8 list \<Rightarrow> Elf64_Ehdr" where
  "decode_Ehdr bs =
     \<lparr>e_ident = take 16 bs, e_type = field bs 16 2, e_machine = field bs 18 2,
      e_version = field bs 20 4, e_entry = field bs 24 8, e_phoff = field bs 32 8,
      e_shoff = field bs 40 8, e_flags = field bs 48 4, e_ehsize = field bs 52 2,
      e_phentsize = field bs 54 2, e_phnum = field bs 56 2, e_shentsize = field bs 58 2,
      e_shnum = field bs 60 2, e_shstrndx = field bs 62 2\<rparr>"

definition encode_Ehdr :: "Elf64_Ehdr \<Rightarrow> u8 list" where
  "encode_Ehdr h = e_ident h @ le_bytes 2 (e_type h) @ le_bytes 2 (e_machine h)
     @ le_bytes 4 (e_version h) @ le_bytes 8 (e_entry h) @ le_bytes 8 (e_phoff h)
     @ le_bytes 8 (e_shoff h) @ le_bytes 4 (e_flags h) @ le_bytes 2 (e_ehsize h)
     @ le_bytes 2 (e_phentsize h) @ le_bytes 2 (e_phnum h) @ le_bytes 2 (e_shentsize h)
     @ le_bytes 2 (e_shnum h) @ le_bytes 2 (e_shstrndx h)"

definition decode_Shdr :: "u8 list \<Rightarrow> Elf64_Shdr" where
  "decode_Shdr bs =
     \<lparr>sh_name = field bs 0 4, sh_type = field bs 4 4, sh_flags = field bs 8 8,
      sh_addr = field bs 16 8, sh_offset = field bs 24 8, sh_size = field bs 32 8,
      sh_link = field bs 40 4, sh_info = field bs 44 4, sh_addralign = field bs 48 8,
      sh_entsize = field bs 56 8\<rparr>"

definition encode_Shdr :: "Elf64_Shdr \<Rightarrow> u8 list" where
  "encode_Shdr s = le_bytes 4 (sh_name s) @ le_bytes 4 (sh_type s) @ le_bytes 8 (sh_flags s)
     @ le_bytes 8 (sh_addr s) @ le_bytes 8 (sh_offset s) @ le_bytes 8 (sh_size s)
     @ le_bytes 4 (sh_link s) @ le_bytes 4 (sh_info s) @ le_bytes 8 (sh_addralign s)
     @ le_bytes 8 (sh_entsize s)"

definition decode_Phdr :: "u8 list \<Rightarrow> Elf64_Phdr" where
  "decode_Phdr bs =
     \<lparr>p_type = field bs 0 4, p_flags = field bs 4 4, p_offset = field bs 8 8,
      p_vaddr = field bs 16 8, p_paddr = field bs 24 8, p_filesz = field bs 32 8,
      p_memsz = field bs 40 8, p_align = field bs 48 8\<rparr>"

definition encode_Phdr :: "Elf64_Phdr \<Rightarrow> u8 list" where
  "encode_Phdr p = le_bytes 4 (p_type p) @ le_bytes 4 (p_flags p) @ le_bytes 8 (p_offset p)
     @ le_bytes 8 (p_vaddr p) @ le_bytes 8 (p_paddr p) @ le_bytes 8 (p_filesz p)
     @ le_bytes 8 (p_memsz p) @ le_bytes 8 (p_align p)"

definition decode_Sym :: "u8 list \<Rightarrow> Elf64_Sym" where
  "decode_Sym bs =
     \<lparr>st_name = field bs 0 4, st_info = field bs 4 1, st_other = field bs 5 1,
      st_shndx = field bs 6 2, st_value = field bs 8 8, st_size = field bs 16 8\<rparr>"

definition encode_Sym :: "Elf64_Sym \<Rightarrow> u8 list" where
  "encode_Sym s = le_bytes 4 (st_name s) @ [st_info s] @ [st_other s]
     @ le_bytes 2 (st_shndx s) @ le_bytes 8 (st_value s) @ le_bytes 8 (st_size s)"

definition decode_Rel :: "u8 list \<Rightarrow> Elf64_Rel" where
  "decode_Rel bs = \<lparr>rel_offset = field bs 0 8, rel_info = field bs 8 8\<rparr>"

definition decode_Rela :: "u8 list \<Rightarrow> Elf64_Rela" where
  "decode_Rela bs =
     \<lparr>r_offset = field bs 0 8, r_info = field bs 8 8, r_addend = field bs 16 8\<rparr>"

definition encode_Rela :: "Elf64_Rela \<Rightarrow> u8 list" where
  "encode_Rela r = le_bytes 8 (r_offset r) @ le_bytes 8 (r_info r) @ le_bytes 8 (r_addend r)"

definition decode_Dyn :: "u8 list \<Rightarrow> Elf64_Dyn" where
  "decode_Dyn bs = \<lparr>d_tag = field bs 0 8, d_un = field bs 8 8\<rparr>"

definition encode_Dyn :: "Elf64_Dyn \<Rightarrow> u8 list" where
  "encode_Dyn d = le_bytes 8 (d_tag d) @ le_bytes 8 (d_un d)"

text \<open>An array of structs of \<open>n\<close> bytes each: element \<open>i\<close> decodes the bytes at \<open>n * i\<close>.\<close>

definition array_at :: "(u8 list \<Rightarrow> 'a) \<Rightarrow> nat \<Rightarrow> u8 list \<Rightarrow> nat \<Rightarrow> 'a" where
  "array_at dec n bs i = dec (take n (drop (n * i) bs))"

lemma field_append:
  "off = length xs \<Longrightarrow> n = length ys \<Longrightarrow> field (xs @ ys @ zs) off n = le_word ys"
  by (simp add: field_def)

lemma field_here [simp]: "8 * n = LENGTH('a) \<Longrightarrow> field (le_bytes n (w :: 'a::len word) @ zs) 0 n = w"
  by (simp add: field_def le_word_le_bytes take_bit_word_eq_self)

lemma field_last [simp]: "8 * n = LENGTH('a) \<Longrightarrow> field (le_bytes n (w :: 'a::len word)) 0 n = w"
  using field_here[of n w "[]"] by simp

lemma field_skip [simp]:
  "0 < k \<Longrightarrow> k \<le> off \<Longrightarrow> field (le_bytes k w @ zs) off n = field zs (off - k) n"
  by (simp add: field_def)

lemma field_skip_list: "length xs \<le> off \<Longrightarrow> field (xs @ zs) off n = field zs (off - length xs) n"
  by (simp add: field_def)

lemma field_Cons [simp]: "0 < off \<Longrightarrow> field (b # bs) off n = field bs (off - 1) n"
  by (cases off) (simp_all add: field_def)

lemma field_byte [simp]: "field (b # bs) 0 (Suc 0) = b"
  by (simp add: field_def)

lemma decode_encode_Ehdr: "length (e_ident h) = 16 \<Longrightarrow> decode_Ehdr (encode_Ehdr h) = h"
  by (cases h) (simp add: decode_Ehdr_def encode_Ehdr_def field_skip_list)

lemma decode_encode_Shdr: "decode_Shdr (encode_Shdr s) = s"
  by (cases s) (simp add: decode_Shdr_def encode_Shdr_def)

lemma decode_encode_Phdr: "decode_Phdr (encode_Phdr p) = p"
  by (cases p) (simp add: decode_Phdr_def encode_Phdr_def)

lemma decode_encode_Sym: "decode_Sym (encode_Sym s) = s"
  by (cases s) (simp add: decode_Sym_def encode_Sym_def)

lemma decode_encode_Rela: "decode_Rela (encode_Rela r) = r"
  by (cases r) (simp add: decode_Rela_def encode_Rela_def)

lemma decode_encode_Dyn: "decode_Dyn (encode_Dyn d) = d"
  by (cases d) (simp add: decode_Dyn_def encode_Dyn_def)

end
