(* ===== verification/Paging.thy ===== *)
theory Paging
  imports Bytes
begin

text \<open>
  The page arithmetic of \<open>include/opsys/virtual-memory.h\<close>: page rounding, page counts,
  page-table indices and entry flags, and the word facts that the page-table proofs use:
  a page-table slot lies in its table's page, slots of different tables or indices differ,
  an entry keeps the frame address it was built from.
\<close>

section \<open>Macros\<close>

definition PAGE_SIZE :: u64 where "PAGE_SIZE = 0x1000"

definition PAGE_BASE :: "u64 \<Rightarrow> u64" where
  "PAGE_BASE addr = addr AND NOT (PAGE_SIZE - 1)"

definition NEXT_PAGE :: "u64 \<Rightarrow> u64" where
  "NEXT_PAGE addr = PAGE_BASE (addr + PAGE_SIZE)"

definition PAGE_OFFSET :: "u64 \<Rightarrow> u64" where
  "PAGE_OFFSET addr = addr AND (PAGE_SIZE - 1)"

definition NUM_PAGES :: "u64 \<Rightarrow> u64 \<Rightarrow> u64" where
  "NUM_PAGES base sz = NEXT_PAGE (base + sz - 1 - PAGE_BASE base) div PAGE_SIZE"

definition KERNEL_BASE :: u64 where
  "KERNEL_BASE = - (1024 * (1024 * 1024))"

definition PAGE_LEVEL_INDEX :: "u64 \<Rightarrow> nat \<Rightarrow> u64" where
  "PAGE_LEVEL_INDEX vaddr page_level = drop_bit (12 + 9 * (page_level - 1)) vaddr AND 0x1ff"

definition PTE_P :: u64 where "PTE_P = 1"
definition PTE_RW :: u64 where "PTE_RW = 2"
definition PTE_ADDR_MASK :: u64 where "PTE_ADDR_MASK = 0xfffffffff000"

section \<open>Pages\<close>

definition is_page :: "u64 \<Rightarrow> bool" where
  "is_page a \<longleftrightarrow> PAGE_OFFSET a = 0"

text \<open>A frame address an entry can hold: bits 12 to 47 only.\<close>

definition is_frame :: "u64 \<Rightarrow> bool" where
  "is_frame p \<longleftrightarrow> p AND PTE_ADDR_MASK = p"

definition pte_slot :: "u64 \<Rightarrow> u64 \<Rightarrow> u64" where
  "pte_slot table i = table + 8 * i"

lemma page_mask: "PAGE_SIZE - 1 = mask 12"
  by (simp add: PAGE_SIZE_def mask_eq_exp_minus_1)

lemma bit_addr_mask: "bit PTE_ADDR_MASK n \<longleftrightarrow> 12 \<le> n \<and> n < 48"
proof -
  have eq: "PTE_ADDR_MASK = push_bit 12 (mask 36)"
    by (simp add: PTE_ADDR_MASK_def mask_eq_exp_minus_1)
  show ?thesis unfolding eq by (auto simp: bit_push_bit_iff bit_mask_iff)
qed

lemma bit_PAGE_BASE: "bit (PAGE_BASE a) n \<longleftrightarrow> bit a n \<and> 12 \<le> n"
  unfolding PAGE_BASE_def page_mask
  by (auto simp: bit_and_iff bit_not_iff bit_mask_iff dest: bit_imp_le_length)

lemma bit_PAGE_OFFSET: "bit (PAGE_OFFSET a) n \<longleftrightarrow> bit a n \<and> n < 12"
  unfolding PAGE_OFFSET_def page_mask
  by (auto simp: bit_and_iff bit_mask_iff dest: bit_imp_le_length)

lemma is_page_bits: "is_page a \<longleftrightarrow> (\<forall>n < 12. \<not> bit a n)"
  unfolding is_page_def word_eq_bits by (auto simp: bit_PAGE_OFFSET)

lemma is_frame_bits: "is_frame p \<longleftrightarrow> (\<forall>n. bit p n \<longrightarrow> 12 \<le> n \<and> n < 48)"
  unfolding is_frame_def word_eq_bits bit_and_iff bit_addr_mask by auto

lemma is_frame_is_page: "is_frame p \<Longrightarrow> is_page p"
  by (auto simp: is_frame_bits is_page_bits)

lemma is_page_PAGE_BASE [simp]: "is_page (PAGE_BASE a)"
  by (auto simp: is_page_bits bit_PAGE_BASE)

lemma is_frame_addr [simp]: "is_frame (e AND PTE_ADDR_MASK)"
  by (auto simp: is_frame_bits bit_and_iff bit_addr_mask)

lemma PAGE_BASE_page [simp]: "is_page a \<Longrightarrow> PAGE_BASE a = a"
  by (rule bit_word_eqI) (auto simp: bit_PAGE_BASE is_page_bits not_less)

lemma is_page_take_bit: "is_page a \<longleftrightarrow> take_bit 12 a = 0"
  by (simp add: is_page_def PAGE_OFFSET_def page_mask and_mask_take_bit)

lemma is_page_mod: "is_page a \<longleftrightarrow> unat a mod 4096 = 0"
proof -
  have "unat (take_bit 12 a) = take_bit 12 (unat a)" by (rule unsigned_take_bit_eq)
  also have "\<dots> = unat a mod 4096" by (simp add: take_bit_eq_mod)
  finally show ?thesis by (simp add: is_page_take_bit flip: unat_eq_zero)
qed

lemma is_page_dvd: "is_page a \<longleftrightarrow> 4096 dvd uint a"
proof -
  have "uint a = int (unat a)" by simp
  then show ?thesis unfolding is_page_mod by presburger
qed

lemma is_page_plus: "is_page a \<Longrightarrow> is_page b \<Longrightarrow> is_page (a + b)"
  by (simp add: is_page_dvd uint_word_ariths dvd_mod_iff)

lemma is_page_minus: "is_page a \<Longrightarrow> is_page b \<Longrightarrow> is_page (a - b)"
  by (simp add: is_page_dvd uint_word_ariths dvd_mod_iff)

section \<open>Slots of a table\<close>

lemma bit_PAGE_LEVEL_INDEX:
  "bit (PAGE_LEVEL_INDEX v l) n \<longleftrightarrow> n < 9 \<and> bit v (12 + 9 * (l - 1) + n)"
proof -
  have m: "(0x1ff :: u64) = mask 9" by (simp add: mask_eq_exp_minus_1)
  show ?thesis
    unfolding PAGE_LEVEL_INDEX_def m
    by (auto simp: bit_and_iff bit_mask_iff bit_drop_bit_eq dest: bit_imp_le_length)
qed

lemma index_lt: "PAGE_LEVEL_INDEX v l < 512"
proof -
  have "PAGE_LEVEL_INDEX v l = take_bit 9 (PAGE_LEVEL_INDEX v l)"
    by (rule bit_word_eqI) (auto simp: bit_PAGE_LEVEL_INDEX bit_take_bit_iff)
  then have "unat (PAGE_LEVEL_INDEX v l) = take_bit 9 (unat (PAGE_LEVEL_INDEX v l))"
    by (metis unsigned_take_bit_eq)
  then have "unat (PAGE_LEVEL_INDEX v l) < 2 ^ 9"
    by (metis take_bit_nat_less_exp)
  then show ?thesis by (simp add: word_less_nat_alt)
qed

lemma small_word_bits: "i < 512 \<Longrightarrow> bit (i :: u64) n \<Longrightarrow> n < 9"
proof -
  assume i: "i < 512" and b: "bit i n"
  have "unat i < 2 ^ 9" using i by (simp add: word_less_nat_alt)
  then show "n < 9" using b small_offset_bits[of "unat i" 9 n] by (simp add: not_le[symmetric]) blast
qed

lemma bit_times_8: "bit (8 * i :: u64) n \<longleftrightarrow> 3 \<le> n \<and> n < 64 \<and> bit i (n - 3)"
proof -
  have "8 * i = push_bit 3 i" by (simp add: push_bit_eq_mult)
  then show ?thesis by (auto simp: bit_push_bit_iff)
qed

lemma pte_slot_or:
  assumes "is_page t" and "i < 512"
  shows "pte_slot t i = t OR 8 * i"
  unfolding pte_slot_def
proof (rule disjunctive_add)
  fix n show "\<not> bit t n \<or> \<not> bit (8 * i) n"
    using assms small_word_bits[of i "n - 3"] by (auto simp: bit_times_8 is_page_bits)
qed

lemma bit_pte_slot:
  assumes "is_page t" and "i < 512"
  shows "bit (pte_slot t i) n \<longleftrightarrow>
     (if n < 3 then False else if n < 12 then bit i (n - 3) else bit t n)"
proof -
  have "bit i (n - 3) \<Longrightarrow> n - 3 < 9" using assms(2) by (rule small_word_bits)
  then show ?thesis
    using assms by (auto simp: pte_slot_or bit_or_iff bit_times_8 is_page_bits)
qed

lemma PAGE_BASE_slot [word_layout]:
  assumes "is_page t" and "i < 512"
  shows "PAGE_BASE (pte_slot t i) = t"
  using assms(1) by (intro bit_word_eqI) (auto simp: bit_PAGE_BASE bit_pte_slot[OF assms] is_page_bits)

lemma aligned8_slot [word_layout]: "is_page t \<Longrightarrow> i < 512 \<Longrightarrow> aligned8 (pte_slot t i)"
  by (simp add: aligned8_bits bit_pte_slot)

lemma pte_slot_inj:
  assumes "is_page t" and "i < 512" and "j < 512"
  shows "pte_slot t i = pte_slot t j \<longleftrightarrow> i = j"
proof
  assume "pte_slot t i = pte_slot t j"
  then have "8 * i = 8 * j" by (simp add: pte_slot_def)
  then have "unat (8 * i) = unat (8 * j)" by simp
  moreover have "unat i < 512" "unat j < 512" using assms by (auto simp: word_less_nat_alt)
  ultimately have "unat i = unat j" by (simp add: unat_word_ariths)
  then show "i = j" by (simp add: word_unat_eq_iff)
qed simp

section \<open>Entries\<close>

lemma bit_PTE_P: "bit PTE_P n \<longleftrightarrow> n = 0"
  by (auto simp: PTE_P_def bit_1_iff)

lemma bit_PTE_RW: "bit PTE_RW n \<longleftrightarrow> n = 1"
proof -
  have eq: "PTE_RW = push_bit 1 1" by (simp add: PTE_RW_def)
  show ?thesis unfolding eq bit_push_bit_iff by (auto simp: bit_1_iff)
qed

lemma entry_frame [word_layout]: "is_frame p \<Longrightarrow> (p OR PTE_P OR PTE_RW) AND PTE_ADDR_MASK = p"
  unfolding word_eq_bits is_frame_bits bit_or_iff bit_and_iff bit_addr_mask bit_PTE_P bit_PTE_RW
  by auto

lemma present_iff: "e AND PTE_P = 0 \<longleftrightarrow> \<not> bit e 0"
  by (simp add: PTE_P_def bit_0 and_one_eq odd_iff_mod_2_eq_one)

lemma entry_present [simp]: "(p OR PTE_P OR f) AND PTE_P \<noteq> 0"
  by (simp add: present_iff bit_or_iff bit_PTE_P)

section \<open>The bytes of a page\<close>

lemma page_bytes:
  assumes "is_page q"
  shows "in_region q 4096 x \<longleftrightarrow> PAGE_BASE x = q"
proof
  assume "in_region q 4096 x"
  then obtain i where i: "i < 4096" "x = q + of_nat i" by (rule in_regionE)
  have "\<not> bit q n \<or> \<not> bit (of_nat i :: u64) n" for n
    using small_offset_bits[of i 12 n] i assms by (cases "n < 12") (auto simp: is_page_bits)
  then have "x = q OR of_nat i" unfolding i(2) by (rule disjunctive_add)
  moreover have "\<not> bit (of_nat i :: u64) n" if "12 \<le> n" for n
    using small_offset_bits[of i 12 n] i that by simp
  ultimately show "PAGE_BASE x = q"
    using assms unfolding word_eq_bits
    by (auto simp: bit_PAGE_BASE bit_or_iff is_page_bits not_less[symmetric])
next
  assume x: "PAGE_BASE x = q"
  have "\<not> bit (PAGE_BASE x) n \<or> \<not> bit (PAGE_OFFSET x) n" for n
    by (auto simp: bit_PAGE_BASE bit_PAGE_OFFSET)
  then have "PAGE_BASE x + PAGE_OFFSET x = PAGE_BASE x OR PAGE_OFFSET x" by (rule disjunctive_add)
  also have "\<dots> = x" by (rule bit_word_eqI) (auto simp: bit_or_iff bit_PAGE_BASE bit_PAGE_OFFSET)
  finally have "x - q = PAGE_OFFSET x" using x by (metis add_diff_cancel_left')
  also have "PAGE_OFFSET x = take_bit 12 x"
    by (simp add: PAGE_OFFSET_def page_mask and_mask_take_bit)
  finally have "unat (x - q) = take_bit 12 (unat x)" by (simp add: unsigned_take_bit_eq)
  moreover have "take_bit 12 (unat x) < 2 ^ 12" by (rule take_bit_nat_less_exp)
  ultimately show "in_region q 4096 x" by (simp add: in_region_def)
qed

lemma PAGE_BASE_quad [word_layout]:
  assumes "aligned8 a" and "i < 8"
  shows "PAGE_BASE (a + of_nat i) = PAGE_BASE a"
proof -
  have "\<not> bit (of_nat i :: u64) n" if "12 \<le> n" for n
    using small_offset_bits[of i 3 n] assms(2) that by simp
  then show ?thesis
    unfolding aligned8_add_small[OF assms] word_eq_bits by (auto simp: bit_PAGE_BASE bit_or_iff)
qed

lemma aligned8_page [word_layout]: "is_page q \<Longrightarrow> aligned8 q"
  by (simp add: aligned8_bits is_page_bits)

lemma load64_zero_page:
  assumes "is_page q" and "aligned8 a"
  shows "load64 (store_bytes m q (replicate (unat PAGE_SIZE) 0)) a =
    (if PAGE_BASE a = q then 0 else load64 m a)"
proof -
  have "unat PAGE_SIZE = 4096" by (simp add: PAGE_SIZE_def)
  then have set: "store_bytes m q (replicate (unat PAGE_SIZE) 0) =
      (\<lambda>x. if PAGE_BASE x = q then 0 else m x)"
    by (simp add: store_bytes_replicate page_bytes[OF assms(1)] cong: if_cong)
  show ?thesis
  proof (cases "PAGE_BASE a = q")
    case True
    then show ?thesis
      by (simp add: set, intro load64_zero) (simp add: PAGE_BASE_quad[OF assms(2)])
  next
    case False
    then show ?thesis
      by (simp add: set, intro load64_cong) (simp add: PAGE_BASE_quad[OF assms(2)])
  qed
qed

section \<open>How many pages a range touches\<close>

lemma unat_PAGE_OFFSET: "unat (PAGE_OFFSET a) = unat a mod 4096"
proof -
  have "PAGE_OFFSET a = take_bit 12 a" by (simp add: PAGE_OFFSET_def page_mask and_mask_take_bit)
  then have "unat (PAGE_OFFSET a) = take_bit 12 (unat a)" by (simp add: unsigned_take_bit_eq)
  then show ?thesis by (simp add: take_bit_eq_mod)
qed

lemma PAGE_split: "PAGE_BASE a + PAGE_OFFSET a = a"
proof -
  have "\<not> bit (PAGE_BASE a) n \<or> \<not> bit (PAGE_OFFSET a) n" for n
    by (auto simp: bit_PAGE_BASE bit_PAGE_OFFSET)
  then have "PAGE_BASE a + PAGE_OFFSET a = PAGE_BASE a OR PAGE_OFFSET a" by (rule disjunctive_add)
  also have "\<dots> = a" by (rule bit_word_eqI) (auto simp: bit_or_iff bit_PAGE_BASE bit_PAGE_OFFSET)
  finally show ?thesis .
qed

lemma unat_PAGE_BASE: "unat (PAGE_BASE a) = 4096 * (unat a div 4096)"
proof -
  have "PAGE_BASE a = a - PAGE_OFFSET a" using PAGE_split[of a] by (simp add: eq_diff_eq)
  moreover have "PAGE_OFFSET a \<le> a" by (simp add: word_le_nat_alt unat_PAGE_OFFSET)
  ultimately have "unat (PAGE_BASE a) = unat a - unat a mod 4096"
    by (simp add: unat_sub unat_PAGE_OFFSET)
  then show ?thesis by (simp add: minus_mod_eq_mult_div)
qed

text \<open>\<open>NUM_PAGES\<close> is the number of pages that \<open>sz\<close> bytes at \<open>base\<close> touch, for \<open>0 < sz\<close>.\<close>

lemma NUM_PAGES_exact:
  assumes "0 < unat base mod 4096 + unat sz" and "unat sz < 2 ^ 63"
  shows "unat (NUM_PAGES base sz) = (unat base mod 4096 + unat sz + 4095) div 4096"
proof -
  let ?o = "unat base mod 4096"
  define x where "x = base + sz - 1 - PAGE_BASE base"
  have o: "?o < 4096" by simp
  have "x = PAGE_OFFSET base + sz - 1" using PAGE_split[of base] by (simp add: x_def algebra_simps)
  moreover have s: "unat (PAGE_OFFSET base + sz) = ?o + unat sz"
    using o assms(2) by (simp add: unat_word_ariths unat_PAGE_OFFSET)
  moreover have "0 < PAGE_OFFSET base + sz" using s assms(1) by (simp add: word_less_nat_alt)
  ultimately have x: "unat x = ?o + unat sz - 1" by (simp add: unat_pred)
  then have "unat (x + PAGE_SIZE) = ?o + unat sz + 4095"
    using o assms by (simp add: unat_word_ariths PAGE_SIZE_def)
  moreover have "unat (NUM_PAGES base sz) = unat (PAGE_BASE (x + PAGE_SIZE)) div 4096"
    by (simp add: NUM_PAGES_def NEXT_PAGE_def x_def[symmetric] unat_div PAGE_SIZE_def)
  ultimately show ?thesis by (simp add: unat_PAGE_BASE)
qed

lemma NUM_PAGES_covers:
  assumes "unat sz < 2 ^ 63"
  shows "unat (PAGE_OFFSET base) + unat sz \<le> 4096 * unat (NUM_PAGES base sz)"
proof (cases "0 < unat base mod 4096 + unat sz")
  case True
  from NUM_PAGES_exact[OF this assms] show ?thesis by (simp add: unat_PAGE_OFFSET)
next
  case False
  then show ?thesis by (simp add: unat_PAGE_OFFSET)
qed

end
