(* ===== verification/PageTable.thy ===== *)
theory PageTable
  imports Paging "HOL-Library.Multiset"
begin

text \<open>
  Page tables as trees in memory, independent of who builds them. Both the kernel
  (\<open>src/virtual-memory.c\<close>) and the boot loader (\<open>efi/opsys-loader.c\<close>) walk the same four
  levels, one through the direct map at \<open>paddr_base\<close>, the other through the identity map;
  \<open>rd\<close> reads an aligned quadword and \<open>base\<close> is the address at which frame 0 is visible.

  \<open>walk\<close> is the translation the processor performs, \<open>tabs\<close> lists the tables a tree
  consists of, \<open>map_level\<close> is the shape both \<open>map_page\<close> functions share. The locale
  \<open>page_store\<close> is the interface they need from memory and from their page allocator.
\<close>

section \<open>Trees\<close>

fun walk :: "(u64 \<Rightarrow> u64) \<Rightarrow> u64 \<Rightarrow> nat \<Rightarrow> u64 \<Rightarrow> u64 \<Rightarrow> u64 option" where
  "walk rd base 0 table v =
     (let e = rd (pte_slot table (PAGE_LEVEL_INDEX v 1)) in
      if e AND PTE_P = 0 then None else Some e)"
| "walk rd base (Suc l) table v =
     (let e = rd (pte_slot table (PAGE_LEVEL_INDEX v (Suc (Suc l)))) in
      if e AND PTE_P = 0 then None else walk rd base l (base + (e AND PTE_ADDR_MASK)) v)"

text \<open>
  \<open>lacking\<close> counts the tables that are missing on the way to \<open>v\<close>, \<open>level_gap\<close> the levels below
  the last table two addresses share.
\<close>

fun lacking :: "(u64 \<Rightarrow> u64) \<Rightarrow> u64 \<Rightarrow> nat \<Rightarrow> u64 \<Rightarrow> u64 \<Rightarrow> nat" where
  "lacking rd base 0 table v = 0"
| "lacking rd base (Suc l) table v =
     (let e = rd (pte_slot table (PAGE_LEVEL_INDEX v (Suc (Suc l)))) in
      if e AND PTE_P = 0 then Suc l else lacking rd base l (base + (e AND PTE_ADDR_MASK)) v)"

fun level_gap :: "nat \<Rightarrow> u64 \<Rightarrow> u64 \<Rightarrow> nat" where
  "level_gap 0 v w = 0"
| "level_gap (Suc l) v w =
     (if PAGE_LEVEL_INDEX v (Suc (Suc l)) = PAGE_LEVEL_INDEX w (Suc (Suc l)) then level_gap l v w
      else Suc l)"

fun tabs :: "(u64 \<Rightarrow> u64) \<Rightarrow> u64 \<Rightarrow> nat \<Rightarrow> u64 \<Rightarrow> u64 list" where
  "tabs rd base 0 table = [table]"
| "tabs rd base (Suc l) table =
     table # concat (map (\<lambda>i. let e = rd (pte_slot table (of_nat i)) in
       if e AND PTE_P = 0 then [] else tabs rd base l (base + (e AND PTE_ADDR_MASK))) [0..<512])"

fun same_slot :: "nat \<Rightarrow> u64 \<Rightarrow> u64 \<Rightarrow> bool" where
  "same_slot 0 v w \<longleftrightarrow> PAGE_LEVEL_INDEX v 1 = PAGE_LEVEL_INDEX w 1"
| "same_slot (Suc l) v w \<longleftrightarrow>
     PAGE_LEVEL_INDEX v (Suc (Suc l)) = PAGE_LEVEL_INDEX w (Suc (Suc l)) \<and> same_slot l v w"

text \<open>The tables of the tree and the free pages are pairwise different pages.\<close>

definition tree_ok :: "(u64 \<Rightarrow> u64) \<Rightarrow> u64 \<Rightarrow> nat \<Rightarrow> u64 \<Rightarrow> u64 list \<Rightarrow> bool" where
  "tree_ok rd base l table free \<longleftrightarrow>
     distinct (tabs rd base l table @ free) \<and> (\<forall>x \<in> set (tabs rd base l table). is_page x)"

text \<open>Two reads agree on the quadwords of the pages that satisfy \<open>P\<close>.\<close>

definition agree_on :: "(u64 \<Rightarrow> bool) \<Rightarrow> (u64 \<Rightarrow> u64) \<Rightarrow> (u64 \<Rightarrow> u64) \<Rightarrow> bool" where
  "agree_on P R R' \<longleftrightarrow> (\<forall>a. aligned8 a \<longrightarrow> P (PAGE_BASE a) \<longrightarrow> R' a = R a)"

lemma mset_exchange:
  assumes "a' + b = a + b'" and "b' + d = b + f"
  shows "a' + d = a + (f :: 'a multiset)"
proof -
  have "(a' + d) + b = (a' + b) + d" by (simp add: ac_simps)
  also have "\<dots> = a + (b' + d)" using assms(1) by (simp add: ac_simps)
  also have "\<dots> = (a + f) + b" using assms(2) by (simp add: ac_simps)
  finally show ?thesis by simp
qed

lemma of_nat_lt_512: "i < 512 \<Longrightarrow> (of_nat i :: u64) < 512"
  by (simp add: word_less_nat_alt)

lemma index_nat:
  obtains i where "i < 512" and "PAGE_LEVEL_INDEX v l = of_nat i"
proof
  show "unat (PAGE_LEVEL_INDEX v l) < 512" using index_lt[of v l] by (simp add: word_less_nat_alt)
  show "PAGE_LEVEL_INDEX v l = of_nat (unat (PAGE_LEVEL_INDEX v l))" by simp
qed

lemma agree_slot:
  "agree_on P R R' \<Longrightarrow> is_page t \<Longrightarrow> P t \<Longrightarrow> i < 512 \<Longrightarrow> R' (pte_slot t i) = R (pte_slot t i)"
  by (simp add: agree_on_def word_layout)

lemma agree_mono: "agree_on P R R' \<Longrightarrow> (\<And>x. Q x \<Longrightarrow> P x) \<Longrightarrow> agree_on Q R R'"
  by (auto simp: agree_on_def)

lemma lacking_le: "lacking R B l t v \<le> l"
  by (induction l arbitrary: t) (auto simp: Let_def intro: le_SucI)

lemma level_gap_le: "level_gap l v w \<le> l"
  by (induction l) (auto intro: le_SucI)

lemma table_in_tabs [simp]: "t \<in> set (tabs R B l t)"
  by (cases l) simp_all

lemma subtree_in_tabs:
  assumes "i < 512" and "R (pte_slot t (of_nat i)) AND PTE_P \<noteq> 0"
  shows "set (tabs R B l (B + (R (pte_slot t (of_nat i)) AND PTE_ADDR_MASK)))
     \<subseteq> set (tabs R B (Suc l) t)"
  using assms by (auto simp: Let_def intro!: bexI[of _ i])

lemma tabs_cong:
  assumes "agree_on (\<lambda>x. x \<in> set (tabs R B l t)) R R'"
    and "\<forall>x \<in> set (tabs R B l t). is_page x"
  shows "tabs R' B l t = tabs R B l t"
  using assms
proof (induction l arbitrary: t)
  case 0
  show ?case by simp
next
  case (Suc l)
  have slot: "R' (pte_slot t (of_nat i)) = R (pte_slot t (of_nat i))" if "i < 512" for i
    using Suc.prems that by (intro agree_slot[OF Suc.prems(1)]) (simp_all add: of_nat_lt_512)
  have kid: "tabs R' B l t' = tabs R B l t'"
    if "i < 512" "R (pte_slot t (of_nat i)) AND PTE_P \<noteq> 0"
      "t' = B + (R (pte_slot t (of_nat i)) AND PTE_ADDR_MASK)" for i t'
    using subtree_in_tabs[where R = R and B = B and l = l, OF that(1,2)] Suc.prems that(3)
    by (intro Suc.IH) (auto elim!: agree_mono)
  show ?case
    by (auto simp: Let_def slot kid intro!: arg_cong[where f = concat])
qed

lemma walk_lacking_cong:
  assumes "agree_on (\<lambda>x. x \<in> set (tabs R B l t)) R R'"
    and "\<forall>x \<in> set (tabs R B l t). is_page x"
  shows "walk R' B l t v = walk R B l t v \<and> lacking R' B l t v = lacking R B l t v"
  using assms
proof (induction l arbitrary: t)
  case 0
  then show ?case
    by (simp add: agree_slot[OF 0(1)] index_lt)
next
  case (Suc l)
  obtain i where i: "i < 512" "PAGE_LEVEL_INDEX v (Suc (Suc l)) = of_nat i" by (rule index_nat)
  have slot: "R' (pte_slot t (of_nat i)) = R (pte_slot t (of_nat i))"
    using Suc.prems i by (intro agree_slot[OF Suc.prems(1)]) (simp_all add: of_nat_lt_512)
  show ?case
  proof (cases "R (pte_slot t (of_nat i)) AND PTE_P = 0")
    case True
    then show ?thesis by (simp add: i slot Let_def)
  next
    case False
    have "walk R' B l t' v = walk R B l t' v \<and> lacking R' B l t' v = lacking R B l t' v"
      if "t' = B + (R (pte_slot t (of_nat i)) AND PTE_ADDR_MASK)" for t'
      using subtree_in_tabs[where R = R and B = B and l = l, OF i(1) False] Suc.prems that
      by (intro Suc.IH) (auto elim!: agree_mono)
    then show ?thesis by (simp add: i slot Let_def)
  qed
qed

lemmas walk_cong = walk_lacking_cong[THEN conjunct1]
lemmas lacking_cong = walk_lacking_cong[THEN conjunct2]


section \<open>Changing one subtree\<close>

definition kid :: "(u64 \<Rightarrow> u64) \<Rightarrow> u64 \<Rightarrow> nat \<Rightarrow> u64 \<Rightarrow> nat \<Rightarrow> u64 list" where
  "kid R B l t i = (let e = R (pte_slot t (of_nat i)) in
     if e AND PTE_P = 0 then [] else tabs R B l (B + (e AND PTE_ADDR_MASK)))"

lemma tabs_kids: "tabs R B (Suc l) t = t # concat (map (kid R B l t) [0..<512])"
  by (simp add: kid_def [abs_def])

declare tabs.simps(2) [simp del]

lemma tabs_split:
  "i < 512 \<Longrightarrow> tabs R B (Suc l) t =
     t # concat (map (kid R B l t) [0..<i]) @ kid R B l t i @ concat (map (kid R B l t) [Suc i..<512])"
  unfolding tabs_kids by (simp only: concat_map_split)

lemma kid_subset: "i < 512 \<Longrightarrow> set (kid R B l t i) \<subseteq> set (tabs R B (Suc l) t)"
  by (auto simp: tabs_split)

lemma kids_disjoint:
  assumes "distinct (tabs R B (Suc l) t)" and "i < 512" and "j < 512" and "i \<noteq> j"
  shows "set (kid R B l t i) \<inter> set (kid R B l t j) = {}"
proof -
  let ?K = "kid R B l t"
  have "set (concat (map ?K [0..<i])) \<inter> set (?K i) = {}"
    and "set (?K i) \<inter> set (concat (map ?K [Suc i..<512])) = {}"
    using assms(1) unfolding tabs_split[OF assms(2)] distinct.simps distinct_append set_append
    by blast+
  moreover have "set (?K j) \<subseteq> set (concat (map ?K xs))" if "j \<in> set xs" for xs
    using that by auto
  moreover have "j \<in> set [0..<i] \<or> j \<in> set [Suc i..<512]" using assms by auto
  ultimately show ?thesis by blast
qed

lemma kid_cong:
  assumes "R' (pte_slot t (of_nat j)) = R (pte_slot t (of_nat j))"
    and "agree_on (\<lambda>x. x \<in> set (kid R B l t j)) R R'"
    and "\<forall>x \<in> set (kid R B l t j). is_page x"
  shows "kid R' B l t j = kid R B l t j"
  using assms by (auto simp: kid_def Let_def intro!: tabs_cong)

lemma walk_kid_cong:
  assumes "PAGE_LEVEL_INDEX w (Suc (Suc l)) = of_nat j"
    and "R' (pte_slot t (of_nat j)) = R (pte_slot t (of_nat j))"
    and "agree_on (\<lambda>x. x \<in> set (kid R B l t j)) R R'"
    and "\<forall>x \<in> set (kid R B l t j). is_page x"
  shows "walk R' B (Suc l) t w = walk R B (Suc l) t w
    \<and> lacking R' B (Suc l) t w = lacking R B (Suc l) t w"
  using assms by (auto simp: kid_def Let_def intro!: walk_cong lacking_cong)

text \<open>A page of zeros is a table with no entries.\<close>

lemma zero_table:
  assumes "\<And>a. aligned8 a \<Longrightarrow> PAGE_BASE a = q \<Longrightarrow> R a = 0" and "is_page q"
  shows "tabs R B l q = [q]" and "walk R B l q v = None" and "lacking R B l q v = l"
proof -
  have z: "R (pte_slot q i) = 0" if "i < 512" for i
    using that assms(2) by (intro assms(1)) (simp_all add: word_layout)
  then have "kid R B l' q i = []" if "i < 512" for i l'
    using that by (simp add: kid_def of_nat_lt_512)
  then show "tabs R B l q = [q]"
    by (cases l) (simp_all add: tabs_kids)
  show "walk R B l q v = None" "lacking R B l q v = l"
    by (cases l; simp add: z index_lt)+
qed

lemma subtree_update:
  assumes ok: "tree_ok R B (Suc l) t free" and i: "i < 512"
    and present: "R (pte_slot t (of_nat i)) AND PTE_P \<noteq> 0"
    and t1: "t1 = B + (R (pte_slot t (of_nat i)) AND PTE_ADDR_MASK)"
    and agree: "agree_on (\<lambda>x. x \<notin> set (tabs R B l t1 @ free)) R R'"
  shows "mset (tabs R' B (Suc l) t) + mset (tabs R B l t1) =
           mset (tabs R B (Suc l) t) + mset (tabs R' B l t1)"
    and "walk R' B (Suc l) t w =
           (if PAGE_LEVEL_INDEX w (Suc (Suc l)) = of_nat i then walk R' B l t1 w
            else walk R B (Suc l) t w)"
    and "lacking R' B (Suc l) t w =
           (if PAGE_LEVEL_INDEX w (Suc (Suc l)) = of_nat i then lacking R' B l t1 w
            else lacking R B (Suc l) t w)"
proof -
  have pages: "\<forall>x \<in> set (tabs R B (Suc l) t). is_page x"
    and dist: "distinct (tabs R B (Suc l) t @ free)" using ok by (auto simp: tree_ok_def)
  have page_t: "is_page t" using pages by simp
  have kid_i: "kid R B l t i = tabs R B l t1" using present by (simp add: kid_def t1)
  have "t \<notin> set (tabs R B l t1 @ free)"
    using dist unfolding tabs_split[OF i] kid_i by auto
  then have slot: "R' (pte_slot t (of_nat j)) = R (pte_slot t (of_nat j))" if "j < 512" for j
    using page_t that by (intro agree_slot[OF agree]) (auto simp: of_nat_lt_512)
  have kid_i': "kid R' B l t i = tabs R' B l t1" using present slot[OF i] by (simp add: kid_def t1)
  have other: "agree_on (\<lambda>x. x \<in> set (kid R B l t j)) R R'"
    "\<forall>x \<in> set (kid R B l t j). is_page x" if "j < 512" "j \<noteq> i" for j
  proof -
    have "set (kid R B l t i) \<inter> set (kid R B l t j) = {}"
      using dist that i by (intro kids_disjoint) auto
    then show "agree_on (\<lambda>x. x \<in> set (kid R B l t j)) R R'"
      using kid_subset[OF that(1), of R B l t] dist unfolding kid_i
      by (intro agree_mono[OF agree]) auto
    show "\<forall>x \<in> set (kid R B l t j). is_page x"
      using kid_subset[OF that(1), of R B l t] pages by auto
  qed
  have "kid R' B l t j = kid R B l t j" if "j < 512" "j \<noteq> i" for j
    using slot[OF that(1)] other[OF that] by (rule kid_cong)
  then have "concat (map (kid R' B l t) [0..<i]) = concat (map (kid R B l t) [0..<i])"
    "concat (map (kid R' B l t) [Suc i..<512]) = concat (map (kid R B l t) [Suc i..<512])"
    using i by (intro concat_map_cong; simp)+
  then show "mset (tabs R' B (Suc l) t) + mset (tabs R B l t1) =
      mset (tabs R B (Suc l) t) + mset (tabs R' B l t1)"
    unfolding tabs_split[OF i] by (simp add: kid_i kid_i')
  obtain j where j: "j < 512" "PAGE_LEVEL_INDEX w (Suc (Suc l)) = of_nat j" by (rule index_nat)
  have "walk R' B (Suc l) t w =
      (if PAGE_LEVEL_INDEX w (Suc (Suc l)) = of_nat i then walk R' B l t1 w
       else walk R B (Suc l) t w) \<and>
    lacking R' B (Suc l) t w =
      (if PAGE_LEVEL_INDEX w (Suc (Suc l)) = of_nat i then lacking R' B l t1 w
       else lacking R B (Suc l) t w)"
  proof (cases "PAGE_LEVEL_INDEX w (Suc (Suc l)) = of_nat i")
    case True
    then show ?thesis using present slot[OF i] by (simp add: t1)
  next
    case False
    then have "j \<noteq> i" using j by auto
    then show ?thesis
      using False walk_kid_cong[OF j(2) slot[OF j(1)] other[OF j(1)]] by simp
  qed
  then show "walk R' B (Suc l) t w =
      (if PAGE_LEVEL_INDEX w (Suc (Suc l)) = of_nat i then walk R' B l t1 w
       else walk R B (Suc l) t w)"
    and "lacking R' B (Suc l) t w =
      (if PAGE_LEVEL_INDEX w (Suc (Suc l)) = of_nat i then lacking R' B l t1 w
       else lacking R B (Suc l) t w)" by blast+
qed

lemma install_table:
  assumes ok: "tree_ok R B (Suc l) t (q # free)" and i: "i < 512" and q: "is_page q"
    and absent: "R (pte_slot t (of_nat i)) AND PTE_P = 0"
    and E: "E AND PTE_P \<noteq> 0" "B + (E AND PTE_ADDR_MASK) = q"
    and upd: "\<And>a. aligned8 a \<Longrightarrow> R' a =
      (if a = pte_slot t (of_nat i) then E else if PAGE_BASE a = q then 0 else R a)"
  shows "mset (tabs R' B (Suc l) t) = add_mset q (mset (tabs R B (Suc l) t))"
    and "walk R' B (Suc l) t w = walk R B (Suc l) t w"
    and "lacking R' B (Suc l) t w =
      (if PAGE_LEVEL_INDEX w (Suc (Suc l)) = of_nat i then l else lacking R B (Suc l) t w)"
proof -
  have pages: "\<forall>x \<in> set (tabs R B (Suc l) t). is_page x"
    and dist: "distinct (tabs R B (Suc l) t @ q # free)" using ok by (auto simp: tree_ok_def)
  have page_t: "is_page t" and t_q: "t \<noteq> q" using pages dist by auto
  have slot_i: "R' (pte_slot t (of_nat i)) = E"
    using upd page_t i by (simp add: aligned8_slot of_nat_lt_512)
  have slot: "R' (pte_slot t (of_nat j)) = R (pte_slot t (of_nat j))" if "j < 512" "j \<noteq> i" for j
  proof -
    have "(of_nat j :: u64) \<noteq> of_nat i"
      using that i by (simp add: of_nat64_inj)
    then show ?thesis
      using upd page_t t_q that i by (simp add: word_layout pte_slot_inj of_nat_lt_512)
  qed
  have zero: "R' a = 0" if "aligned8 a" "PAGE_BASE a = q" for a
    using upd that page_t t_q i by (auto simp: word_layout of_nat_lt_512)
  have agree: "agree_on (\<lambda>x. x \<noteq> t \<and> x \<noteq> q) R R'"
    using upd page_t i by (auto simp: agree_on_def word_layout of_nat_lt_512)
  have kid_i: "kid R B l t i = []" using absent by (simp add: kid_def)
  have kid_i': "kid R' B l t i = [q]"
    using E q zero by (simp add: kid_def slot_i zero_table)
  have other: "agree_on (\<lambda>x. x \<in> set (kid R B l t j)) R R'"
    "\<forall>x \<in> set (kid R B l t j). is_page x" if "j < 512" for j
  proof -
    have "t \<notin> set (kid R B l t j)" using dist that unfolding tabs_split[OF that] by auto
    then show "agree_on (\<lambda>x. x \<in> set (kid R B l t j)) R R'"
      using kid_subset[OF that, of R B l t] dist by (intro agree_mono[OF agree]) auto
    show "\<forall>x \<in> set (kid R B l t j). is_page x"
      using kid_subset[OF that, of R B l t] pages by auto
  qed
  have "kid R' B l t j = kid R B l t j" if "j < 512" "j \<noteq> i" for j
    using slot[OF that] other[OF that(1)] by (rule kid_cong)
  then have "concat (map (kid R' B l t) [0..<i]) = concat (map (kid R B l t) [0..<i])"
    "concat (map (kid R' B l t) [Suc i..<512]) = concat (map (kid R B l t) [Suc i..<512])"
    using i by (intro concat_map_cong; simp)+
  then show "mset (tabs R' B (Suc l) t) = add_mset q (mset (tabs R B (Suc l) t))"
    unfolding tabs_split[OF i] by (simp add: kid_i kid_i')
  obtain j where j: "j < 512" "PAGE_LEVEL_INDEX w (Suc (Suc l)) = of_nat j" by (rule index_nat)
  have "walk R' B (Suc l) t w = walk R B (Suc l) t w \<and> lacking R' B (Suc l) t w =
      (if PAGE_LEVEL_INDEX w (Suc (Suc l)) = of_nat i then l else lacking R B (Suc l) t w)"
  proof (cases "j = i")
    case True
    then show ?thesis
      using j absent E zero_table(2,3)[OF zero q] by (simp add: slot_i Let_def)
  next
    case False
    moreover have "(of_nat j :: u64) \<noteq> of_nat i"
      using False i j(1) by (simp add: of_nat64_inj)
    ultimately show ?thesis
      using j walk_kid_cong[OF j(2) slot[OF j(1) False] other[OF j(1)]] by simp
  qed
  then show "walk R' B (Suc l) t w = walk R B (Suc l) t w"
    and "lacking R' B (Suc l) t w =
      (if PAGE_LEVEL_INDEX w (Suc (Suc l)) = of_nat i then l else lacking R B (Suc l) t w)"
    by blast+
qed

text \<open>Only the tables and free pages together matter: a page may move from one to the other.\<close>

lemma tree_ok_permuted:
  assumes ok: "tree_ok R B l t free" and "\<forall>x \<in> set free. is_page x"
    and eq: "mset (tabs R' B l t @ free') = mset (tabs R B l t @ free)"
  shows "tree_ok R' B l t free'"
proof -
  have "distinct (tabs R' B l t @ free')"
    using ok mset_eq_imp_distinct_iff[OF eq] by (simp only: tree_ok_def)
  moreover have "set (tabs R' B l t @ free') = set (tabs R B l t @ free)"
    using eq by (rule mset_eq_setD)
  ultimately show ?thesis using ok assms(2) by (auto simp: tree_ok_def)
qed

lemma tree_ok_moved:
  assumes ok: "tree_ok R B l t (q # free)" and q: "is_page q"
    and eq: "mset (tabs R' B l t) = add_mset q (mset (tabs R B l t))"
  shows "tree_ok R' B l t free"
proof -
  have eq': "mset (tabs R' B l t @ free) = mset (tabs R B l t @ q # free)" by (simp add: eq)
  have "distinct (tabs R' B l t @ free)"
    using ok mset_eq_imp_distinct_iff[OF eq'] by (simp only: tree_ok_def)
  moreover have "set (tabs R' B l t) = insert q (set (tabs R B l t))"
    using arg_cong[OF eq, of set_mset] by simp
  ultimately show ?thesis using ok q by (simp add: tree_ok_def)
qed

section \<open>Walking down and mapping\<close>

text \<open>
  One level of a walk that creates what is missing: look at the entry for \<open>v\<close>; when it is
  not present, take a new zeroed frame from \<open>alloc\<close> and enter it; return the table the
  entry points to. \<open>map_level\<close> walks \<open>l\<close> levels this way and writes the leaf, unless it is
  present already, which stops the machine.
\<close>

definition enter_level ::
  "('s \<Rightarrow> u64 \<Rightarrow> u64) \<Rightarrow> ('s \<Rightarrow> u64 \<Rightarrow> u64 \<Rightarrow> 's) \<Rightarrow> ('s \<Rightarrow> u64) \<Rightarrow> ('s \<Rightarrow> (u64 \<times> 's) result) \<Rightarrow>
   nat \<Rightarrow> u64 \<Rightarrow> u64 \<Rightarrow> 's \<Rightarrow> (u64 \<times> 's) result" where
  "enter_level rd wr base alloc lvl table v s =
     (let e = pte_slot table (PAGE_LEVEL_INDEX v lvl) in
      bind (if rd s e AND PTE_P = 0
            then bind (alloc s) (\<lambda>(p, s). Inr (wr s e (p OR PTE_P OR PTE_RW)))
            else Inr s)
        (\<lambda>s. Inr (base s + (rd s e AND PTE_ADDR_MASK), s)))"

fun map_level ::
  "('s \<Rightarrow> u64 \<Rightarrow> u64) \<Rightarrow> ('s \<Rightarrow> u64 \<Rightarrow> u64 \<Rightarrow> 's) \<Rightarrow> ('s \<Rightarrow> u64) \<Rightarrow> ('s \<Rightarrow> (u64 \<times> 's) result) \<Rightarrow>
   stop \<Rightarrow> nat \<Rightarrow> u64 \<Rightarrow> u64 \<Rightarrow> u64 \<Rightarrow> 's \<Rightarrow> 's result" where
  "map_level rd wr base alloc remap 0 table v pte s =
     (let e = pte_slot table (PAGE_LEVEL_INDEX v 1) in
      if rd s e AND PTE_P \<noteq> 0 then Inl remap else Inr (wr s e pte))"
| "map_level rd wr base alloc remap (Suc l) table v pte s =
     bind (enter_level rd wr base alloc (Suc (Suc l)) table v s)
       (\<lambda>(t, s). map_level rd wr base alloc remap l t v pte s)"

text \<open>
  \<open>update_level\<close> walks down a tree that must exist already, stops with \<open>missing\<close> where an
  entry is not present, and rewrites the leaf by \<open>f\<close>.
\<close>

fun update_level ::
  "('s \<Rightarrow> u64 \<Rightarrow> u64) \<Rightarrow> ('s \<Rightarrow> u64 \<Rightarrow> u64 \<Rightarrow> 's) \<Rightarrow> ('s \<Rightarrow> u64) \<Rightarrow> stop \<Rightarrow> (u64 \<Rightarrow> u64) \<Rightarrow>
   nat \<Rightarrow> u64 \<Rightarrow> u64 \<Rightarrow> 's \<Rightarrow> 's result" where
  "update_level rd wr base missing f 0 table v s =
     (let e = pte_slot table (PAGE_LEVEL_INDEX v 1) in
      if rd s e AND PTE_P = 0 then Inl missing else Inr (wr s e (f (rd s e))))"
| "update_level rd wr base missing f (Suc l) table v s =
     (let e = pte_slot table (PAGE_LEVEL_INDEX v (Suc (Suc l))) in
      if rd s e AND PTE_P = 0 then Inl missing
      else update_level rd wr base missing f l (base s + (rd s e AND PTE_ADDR_MASK)) v s)"

text \<open>What mapping the page of \<open>v\<close> to \<open>pte\<close> in the tree at \<open>t\<close> promises.\<close>

definition map_post ::
  "('s \<Rightarrow> u64 \<Rightarrow> u64) \<Rightarrow> ('s \<Rightarrow> u64) \<Rightarrow> ('s \<Rightarrow> u64 list \<Rightarrow> bool) \<Rightarrow> nat \<Rightarrow> u64 \<Rightarrow> u64 \<Rightarrow> u64 \<Rightarrow>
   u64 list \<Rightarrow> 's \<Rightarrow> 's \<Rightarrow> bool" where
  "map_post rd base owns l t v pte free s s' \<longleftrightarrow>
     lacking (rd s) (base s) l t v \<le> length free
     \<and> owns s' (drop (lacking (rd s) (base s) l t v) free) \<and> base s' = base s
     \<and> mset (tabs (rd s') (base s) l t @ drop (lacking (rd s) (base s) l t v) free) =
         mset (tabs (rd s) (base s) l t @ free)
     \<and> (\<forall>w. lacking (rd s') (base s) l t w =
           min (lacking (rd s) (base s) l t w) (level_gap l w v))
     \<and> (\<forall>w. walk (rd s') (base s) l t w =
           (if same_slot l w v then Some pte else walk (rd s) (base s) l t w))
     \<and> agree_on (\<lambda>x. x \<notin> set (tabs (rd s) (base s) l t @ free)) (rd s) (rd s')"

text \<open>What rewriting the leaf entry of \<open>v\<close> by \<open>f\<close> promises.\<close>

definition update_post ::
  "('s \<Rightarrow> u64 \<Rightarrow> u64) \<Rightarrow> ('s \<Rightarrow> u64) \<Rightarrow> (u64 \<Rightarrow> u64) \<Rightarrow> nat \<Rightarrow> u64 \<Rightarrow> u64 \<Rightarrow> 's \<Rightarrow> 's \<Rightarrow> bool" where
  "update_post rd base f l t v s s' \<longleftrightarrow>
     tabs (rd s') (base s) l t = tabs (rd s) (base s) l t \<and> base s' = base s
     \<and> walk (rd s) (base s) l t v \<noteq> None
     \<and> (\<forall>w. walk (rd s') (base s) l t w =
           (if same_slot l w v then map_option f (walk (rd s) (base s) l t v)
            else walk (rd s) (base s) l t w))
     \<and> (\<forall>w. lacking (rd s') (base s) l t w = lacking (rd s) (base s) l t w)
     \<and> agree_on (\<lambda>x. x \<notin> set (tabs (rd s) (base s) l t)) (rd s) (rd s')"

lemma tree_ok_below:
  assumes "tree_ok R b (Suc l) t free"
    and "R (pte_slot t (PAGE_LEVEL_INDEX v (Suc (Suc l)))) AND PTE_P \<noteq> 0"
    and "t1 = b + (R (pte_slot t (PAGE_LEVEL_INDEX v (Suc (Suc l)))) AND PTE_ADDR_MASK)"
  shows "tree_ok R b l t1 free"
proof -
  obtain i where i: "i < 512" "PAGE_LEVEL_INDEX v (Suc (Suc l)) = of_nat i" by (rule index_nat)
  show ?thesis
    using assms subtree_in_tabs[OF i(1), of R t b l]
    by (auto simp: tree_ok_def tabs_split[OF i(1)] kid_def i)
qed

text \<open>
  What the walk needs from memory, and from the allocator behind it. \<open>owns s free\<close> says
  which pages (by the address they are visible at) the allocator still has to give, next
  one first.
\<close>

locale quad_store =
  fixes rd :: "'s \<Rightarrow> u64 \<Rightarrow> u64"
    and wr :: "'s \<Rightarrow> u64 \<Rightarrow> u64 \<Rightarrow> 's"
  assumes rd_wr: "aligned8 a \<Longrightarrow> aligned8 b \<Longrightarrow> rd (wr s a v) b = (if a = b then v else rd s b)"

locale table_store = quad_store rd wr
  for rd :: "'s \<Rightarrow> u64 \<Rightarrow> u64" and wr :: "'s \<Rightarrow> u64 \<Rightarrow> u64 \<Rightarrow> 's" +
  fixes base :: "'s \<Rightarrow> u64"
  assumes base_wr: "base (wr s a v) = base s"
begin

text \<open>Rewriting one leaf entry in place moves no table and changes no other translation.\<close>

lemma update_leaf:
  assumes ok: "tree_ok (rd s) (base s) 0 t free" and f: "\<And>e. f e AND PTE_P = e AND PTE_P"
    and run: "update_level rd wr base missing f 0 t v s = Inr s'"
  shows "update_post rd base f 0 t v s s'"
proof -
  let ?e = "pte_slot t (PAGE_LEVEL_INDEX v 1)"
  have page_t: "is_page t" using ok by (auto simp: tree_ok_def)
  have e: "aligned8 ?e" "PAGE_BASE ?e = t"
    using page_t index_lt by (simp_all add: word_layout)
  have s': "s' = wr s ?e (f (rd s ?e))" and pres: "rd s ?e AND PTE_P \<noteq> 0"
    using run by (auto simp: Let_def split: if_splits)
  have slot: "rd s' (pte_slot t (PAGE_LEVEL_INDEX w 1)) =
      (if PAGE_LEVEL_INDEX w 1 = PAGE_LEVEL_INDEX v 1 then f (rd s ?e)
       else rd s (pte_slot t (PAGE_LEVEL_INDEX w 1)))" for w
    using page_t index_lt by (auto simp: s' rd_wr word_layout pte_slot_inj)
  have "walk (rd s') (base s) 0 t w =
      (if same_slot 0 w v then map_option f (walk (rd s) (base s) 0 t v)
       else walk (rd s) (base s) 0 t w)" for w
    using slot[of w] pres by (simp add: Let_def f)
  moreover have "agree_on (\<lambda>x. x \<notin> set (tabs (rd s) (base s) 0 t)) (rd s) (rd s')"
    using e by (auto simp: agree_on_def s' rd_wr)
  moreover have "base s' = base s" by (simp add: s' base_wr)
  ultimately show ?thesis using pres by (simp add: update_post_def Let_def)
qed

lemma tabs_below_kept:
  assumes ok: "tree_ok R b (Suc l) t free" and i: "i < 512"
    and present: "R (pte_slot t (of_nat i)) AND PTE_P \<noteq> 0"
    and t1: "t1 = b + (R (pte_slot t (of_nat i)) AND PTE_ADDR_MASK)"
    and same: "tabs R' b l t1 = tabs R b l t1"
    and agree: "agree_on (\<lambda>x. x \<notin> set (tabs R b l t1)) R R'"
  shows "tabs R' b (Suc l) t = tabs R b (Suc l) t"
proof -
  have kid: "kid R b l t i = tabs R b l t1" using present by (simp add: kid_def t1)
  have slots: "R' (pte_slot t (of_nat j)) = R (pte_slot t (of_nat j))" if "j < 512" for j
  proof -
    have "t \<notin> set (tabs R b l t1)" "is_page t"
      using ok by (auto simp: tree_ok_def tabs_split[OF i] kid)
    then show ?thesis using that by (intro agree_slot[OF agree]) (auto simp: of_nat_lt_512)
  qed
  have "kid R' b l t j = kid R b l t j" if "j < 512" for j
  proof (cases "j = i")
    case True
    then show ?thesis using same slots[OF i] by (simp add: kid_def t1 Let_def)
  next
    case False
    have "set (kid R b l t i) \<inter> set (kid R b l t j) = {}"
      using ok False that i by (intro kids_disjoint) (auto simp: tree_ok_def)
    then show ?thesis
      using ok kid_subset[OF that, of R b l t] unfolding kid
      by (intro kid_cong[where R = R] slots[OF that] agree_mono[OF agree]) (auto simp: tree_ok_def)
  qed
  then show ?thesis by (auto simp: tabs_kids intro!: concat_map_cong)
qed

lemma update_below:
  assumes ok: "tree_ok (rd s) (base s) (Suc l) t free"
    and present: "rd s (pte_slot t (PAGE_LEVEL_INDEX v (Suc (Suc l)))) AND PTE_P \<noteq> 0"
    and t1: "t1 = base s + (rd s (pte_slot t (PAGE_LEVEL_INDEX v (Suc (Suc l)))) AND PTE_ADDR_MASK)"
    and post: "update_post rd base f l t1 v s s'"
  shows "update_post rd base f (Suc l) t v s s'"
proof -
  obtain i where i: "i < 512" "PAGE_LEVEL_INDEX v (Suc (Suc l)) = of_nat i" by (rule index_nat)
  have sub: "set (tabs (rd s) (base s) l t1) \<subseteq> set (tabs (rd s) (base s) (Suc l) t)"
    using subtree_in_tabs[OF i(1), of "rd s" t "base s" l] present by (simp add: i t1)
  have IH: "tabs (rd s') (base s) l t1 = tabs (rd s) (base s) l t1"
    "base s' = base s" "walk (rd s) (base s) l t1 v \<noteq> None"
    "\<And>w. walk (rd s') (base s) l t1 w =
      (if same_slot l w v then map_option f (walk (rd s) (base s) l t1 v)
       else walk (rd s) (base s) l t1 w)"
    "\<And>w. lacking (rd s') (base s) l t1 w = lacking (rd s) (base s) l t1 w"
    and agree: "agree_on (\<lambda>x. x \<notin> set (tabs (rd s) (base s) l t1)) (rd s) (rd s')"
    using post by (auto simp: update_post_def)
  have agree': "agree_on (\<lambda>x. x \<notin> set (tabs (rd s) (base s) l t1 @ free)) (rd s) (rd s')"
    using agree by (rule agree_mono) auto
  note upd = subtree_update[OF ok i(1) present[unfolded i(2)] t1[unfolded i(2)] agree']
  have "walk (rd s') (base s) (Suc l) t w =
      (if same_slot (Suc l) w v then map_option f (walk (rd s) (base s) (Suc l) t v)
       else walk (rd s) (base s) (Suc l) t w)" for w
    using upd(2)[of w] IH(4)[of w] present by (simp add: i t1 Let_def)
  moreover have "lacking (rd s') (base s) (Suc l) t w = lacking (rd s) (base s) (Suc l) t w" for w
    using upd(3)[of w] IH(5)[of w] present by (simp add: i t1 Let_def)
  moreover have "agree_on (\<lambda>x. x \<notin> set (tabs (rd s) (base s) (Suc l) t)) (rd s) (rd s')"
    using agree sub by (auto elim!: agree_mono)
  moreover have "walk (rd s) (base s) (Suc l) t v \<noteq> None"
    using IH(3) present by (simp add: t1 Let_def)
  ultimately show ?thesis
    using IH(2) tabs_below_kept[OF ok i(1) present[unfolded i(2)] t1[unfolded i(2)] IH(1) agree]
    unfolding update_post_def by blast
qed

lemma update_level_post:
  assumes "tree_ok (rd s) (base s) l t free" and "\<And>e. f e AND PTE_P = e AND PTE_P"
    and "update_level rd wr base missing f l t v s = Inr s'"
  shows "update_post rd base f l t v s s'"
  using assms(1,3)
proof (induction l arbitrary: t)
  case 0
  then show ?case using assms(2) by (intro update_leaf)
next
  case (Suc l)
  let ?e = "rd s (pte_slot t (PAGE_LEVEL_INDEX v (Suc (Suc l))))"
  have at: "?e AND PTE_P \<noteq> 0"
    and run: "update_level rd wr base missing f l (base s + (?e AND PTE_ADDR_MASK)) v s = Inr s'"
    using Suc.prems(2) by (auto simp: Let_def split: if_splits)
  show ?case
    by (rule update_below[OF Suc.prems(1) at refl
          Suc.IH[OF tree_ok_below[OF Suc.prems(1) at refl] run]])
qed

lemmas update_level_correct = update_level_post[unfolded update_post_def]

lemma update_level_total:
  "walk (rd s) (base s) l t v = Some e \<Longrightarrow> \<exists>s'. update_level rd wr base missing f l t v s = Inr s'"
  by (induction l arbitrary: t) (auto simp: Let_def split: if_splits)

lemma update_level_missing:
  "walk (rd s) (base s) l t v = None \<Longrightarrow> update_level rd wr base missing f l t v s = Inl missing"
  by (induction l arbitrary: t) (auto simp: Let_def split: if_splits)

end

locale page_store = table_store rd wr base
  for rd :: "'s \<Rightarrow> u64 \<Rightarrow> u64" and wr :: "'s \<Rightarrow> u64 \<Rightarrow> u64 \<Rightarrow> 's" and base :: "'s \<Rightarrow> u64" +
  fixes alloc :: "'s \<Rightarrow> (u64 \<times> 's) result"
    and owns :: "'s \<Rightarrow> u64 list \<Rightarrow> bool"
    and nomem :: stop
  assumes owns_wr: "owns s free \<Longrightarrow> aligned8 a \<Longrightarrow> PAGE_BASE a \<notin> set free \<Longrightarrow> owns (wr s a v) free"
    and alloc_Cons: "owns s (q # free) \<Longrightarrow> \<exists>s'. alloc s = Inr (q - base s, s') \<and> owns s' free
      \<and> base s' = base s \<and> is_frame (q - base s) \<and> is_page q
      \<and> (\<forall>a. aligned8 a \<longrightarrow> rd s' a = (if PAGE_BASE a = q then 0 else rd s a))"
    and alloc_Nil: "owns s [] \<Longrightarrow> alloc s = Inl nomem"
begin

lemma enter_present:
  assumes "rd s (pte_slot t (PAGE_LEVEL_INDEX v lvl)) AND PTE_P \<noteq> 0"
  shows "enter_level rd wr base alloc lvl t v s =
    Inr (base s + (rd s (pte_slot t (PAGE_LEVEL_INDEX v lvl)) AND PTE_ADDR_MASK), s)"
  using assms by (simp add: enter_level_def Let_def)

lemma enter_absent:
  assumes own: "owns s (q # free)" and ok: "tree_ok (rd s) (base s) (Suc l) t (q # free)"
    and absent: "rd s (pte_slot t (PAGE_LEVEL_INDEX v (Suc (Suc l)))) AND PTE_P = 0"
  shows "\<exists>s'. enter_level rd wr base alloc (Suc (Suc l)) t v s = Inr (q, s')
    \<and> owns s' free \<and> base s' = base s
    \<and> rd s' (pte_slot t (PAGE_LEVEL_INDEX v (Suc (Suc l)))) AND PTE_P \<noteq> 0
    \<and> base s + (rd s' (pte_slot t (PAGE_LEVEL_INDEX v (Suc (Suc l)))) AND PTE_ADDR_MASK) = q
    \<and> mset (tabs (rd s') (base s) (Suc l) t) = add_mset q (mset (tabs (rd s) (base s) (Suc l) t))
    \<and> (\<forall>w. walk (rd s') (base s) (Suc l) t w = walk (rd s) (base s) (Suc l) t w)
    \<and> (\<forall>w. lacking (rd s') (base s) (Suc l) t w =
          (if PAGE_LEVEL_INDEX w (Suc (Suc l)) = PAGE_LEVEL_INDEX v (Suc (Suc l)) then l
           else lacking (rd s) (base s) (Suc l) t w))
    \<and> agree_on (\<lambda>x. x \<noteq> t \<and> x \<noteq> q) (rd s) (rd s')"
proof -
  let ?e = "pte_slot t (PAGE_LEVEL_INDEX v (Suc (Suc l)))"
  obtain i where i: "i < 512" "PAGE_LEVEL_INDEX v (Suc (Suc l)) = of_nat i" by (rule index_nat)
  obtain s0 where s0: "alloc s = Inr (q - base s, s0)" "owns s0 free" "base s0 = base s"
    "is_frame (q - base s)" and q: "is_page q"
    and rd0: "\<And>a. aligned8 a \<Longrightarrow> rd s0 a = (if PAGE_BASE a = q then 0 else rd s a)"
    using alloc_Cons[OF own] by auto
  have page_t: "is_page t" and t: "t \<noteq> q" "t \<notin> set free"
    using ok table_in_tabs[of t "rd s" "base s" "Suc l"] by (auto simp: tree_ok_def simp del: table_in_tabs)
  have e: "aligned8 ?e" "PAGE_BASE ?e = t"
    using page_t index_lt by (simp_all add: word_layout)
  define E where "E = (q - base s) OR PTE_P OR PTE_RW"
  define s1 where "s1 = wr s0 ?e E"
  have E: "E AND PTE_P \<noteq> 0" "base s + (E AND PTE_ADDR_MASK) = q"
    using s0(4) by (simp_all add: E_def entry_frame)
  have rd1: "rd s1 a = (if a = ?e then E else if PAGE_BASE a = q then 0 else rd s a)"
    if "aligned8 a" for a
    using that e rd0[OF that] by (auto simp: s1_def rd_wr)
  have base1: "base s1 = base s" using s0(3) by (simp add: s1_def base_wr)
  have enter: "enter_level rd wr base alloc (Suc (Suc l)) t v s = Inr (q, s1)"
    using absent s0(1) E(2) rd1[OF e(1)] base1
    by (simp add: enter_level_def Let_def E_def[symmetric] s1_def[symmetric])
  have "owns s1 free" unfolding s1_def using s0(2) e t by (intro owns_wr) auto
  moreover have "agree_on (\<lambda>x. x \<noteq> t \<and> x \<noteq> q) (rd s) (rd s1)"
    using rd1 e by (auto simp: agree_on_def)
  moreover note install_table[OF ok i(1) q absent[unfolded i(2)] E rd1[unfolded i(2)]]
  ultimately show ?thesis
    using enter base1 E rd1[OF e(1)] by (intro exI[of _ s1]) (simp add: i(2) del: lacking.simps walk.simps)
qed

text \<open>
  \<open>map_level_correct\<close> is the contract \<open>map_post\<close> of the walk. It is proved by the three cases of
  a level: the leaf, an entry that is present, and an entry that gets a page first.
\<close>

lemma map_leaf:
  assumes own: "owns s free" and ok: "tree_ok (rd s) (base s) 0 t free" and pte: "pte AND PTE_P \<noteq> 0"
    and run: "map_level rd wr base alloc remap 0 t v pte s = Inr s'"
  shows "map_post rd base owns 0 t v pte free s s'"
proof -
  let ?e = "pte_slot t (PAGE_LEVEL_INDEX v 1)"
  have page_t: "is_page t" and free: "t \<notin> set free" using ok by (auto simp: tree_ok_def)
  have e: "aligned8 ?e" "PAGE_BASE ?e = t"
    using page_t index_lt by (simp_all add: word_layout)
  have s': "s' = wr s ?e pte" using run by (auto simp: Let_def split: if_splits)
  have slot: "rd s' (pte_slot t (PAGE_LEVEL_INDEX w 1)) =
      (if PAGE_LEVEL_INDEX w 1 = PAGE_LEVEL_INDEX v 1 then pte
       else rd s (pte_slot t (PAGE_LEVEL_INDEX w 1)))" for w
    using page_t index_lt
    by (auto simp: s' rd_wr word_layout pte_slot_inj)
  have "owns s' free" unfolding s' using own e free by (intro owns_wr) auto
  moreover have "agree_on (\<lambda>x. x \<notin> set (tabs (rd s) (base s) 0 t @ free)) (rd s) (rd s')"
    using e by (auto simp: agree_on_def s' rd_wr)
  moreover have "walk (rd s') (base s) 0 t w =
      (if same_slot 0 w v then Some pte else walk (rd s) (base s) 0 t w)" for w
    using pte slot[of w] by (simp add: Let_def)
  moreover have "base s' = base s" by (simp add: s' base_wr)
  ultimately show ?thesis by (simp add: map_post_def)
qed

lemma map_below:
  assumes ok: "tree_ok (rd s) (base s) (Suc l) t free"
    and present: "rd s (pte_slot t (PAGE_LEVEL_INDEX v (Suc (Suc l)))) AND PTE_P \<noteq> 0"
    and t1: "t1 = base s + (rd s (pte_slot t (PAGE_LEVEL_INDEX v (Suc (Suc l)))) AND PTE_ADDR_MASK)"
    and post: "map_post rd base owns l t1 v pte free s s'"
  shows "map_post rd base owns (Suc l) t v pte free s s'"
proof -
  obtain i where i: "i < 512" "PAGE_LEVEL_INDEX v (Suc (Suc l)) = of_nat i" by (rule index_nat)
  let ?k = "lacking (rd s) (base s) l t1 v"
  have sub: "set (tabs (rd s) (base s) l t1) \<subseteq> set (tabs (rd s) (base s) (Suc l) t)"
    using subtree_in_tabs[OF i(1), of "rd s" t "base s" l] present by (simp add: i t1)
  have lv: "lacking (rd s) (base s) (Suc l) t v = ?k" using present by (simp add: t1 Let_def)
  have k: "?k \<le> length free" "owns s' (drop ?k free)" "base s' = base s"
    and ms: "mset (tabs (rd s') (base s) l t1 @ drop ?k free) =
        mset (tabs (rd s) (base s) l t1 @ free)"
    and lk: "\<And>w. lacking (rd s') (base s) l t1 w =
        min (lacking (rd s) (base s) l t1 w) (level_gap l w v)"
    and wk: "\<And>w. walk (rd s') (base s) l t1 w =
        (if same_slot l w v then Some pte else walk (rd s) (base s) l t1 w)"
    and agree: "agree_on (\<lambda>x. x \<notin> set (tabs (rd s) (base s) l t1 @ free)) (rd s) (rd s')"
    using post unfolding map_post_def by blast+
  note upd = subtree_update[OF ok i(1) present[unfolded i(2)] t1[unfolded i(2)] agree]
  have "mset (tabs (rd s') (base s) (Suc l) t @ drop ?k free) =
      mset (tabs (rd s) (base s) (Suc l) t @ free)"
    using mset_exchange[OF upd(1)] ms by simp
  moreover have "walk (rd s') (base s) (Suc l) t w =
      (if same_slot (Suc l) w v then Some pte else walk (rd s) (base s) (Suc l) t w)" for w
    using upd(2)[of w] wk[of w] present by (simp add: i t1 Let_def)
  moreover have "lacking (rd s') (base s) (Suc l) t w =
      min (lacking (rd s) (base s) (Suc l) t w) (level_gap (Suc l) w v)" for w
    using upd(3)[of w] lk[of w] present lacking_le[of "rd s" "base s" "Suc l" t w]
    by (auto simp: i t1 Let_def)
  moreover have "agree_on (\<lambda>x. x \<notin> set (tabs (rd s) (base s) (Suc l) t @ free)) (rd s) (rd s')"
    using agree sub by (auto elim!: agree_mono)
  ultimately show ?thesis using k unfolding map_post_def lv by blast
qed

lemma map_entered:
  assumes own: "owns s (q # free)" and ok: "tree_ok (rd s) (base s) (Suc l) t (q # free)"
    and absent: "rd s (pte_slot t (PAGE_LEVEL_INDEX v (Suc (Suc l)))) AND PTE_P = 0"
    and enter: "enter_level rd wr base alloc (Suc (Suc l)) t v s = Inr (q, s1)"
  shows "owns s1 free \<and> base s1 = base s \<and> tree_ok (rd s1) (base s1) (Suc l) t free
    \<and> rd s1 (pte_slot t (PAGE_LEVEL_INDEX v (Suc (Suc l)))) AND PTE_P \<noteq> 0
    \<and> q = base s1 + (rd s1 (pte_slot t (PAGE_LEVEL_INDEX v (Suc (Suc l)))) AND PTE_ADDR_MASK)
    \<and> lacking (rd s1) (base s1) l q v = l
    \<and> walk (rd s1) (base s1) l q v = walk (rd s) (base s) (Suc l) t v
    \<and> (map_post rd base owns (Suc l) t v pte free s1 s' \<longrightarrow>
       map_post rd base owns (Suc l) t v pte (q # free) s s')"
proof -
  have page_q: "is_page q" using alloc_Cons[OF own] by auto
  have own1: "owns s1 free" and base1: "base s1 = base s"
    and pres1: "rd s1 (pte_slot t (PAGE_LEVEL_INDEX v (Suc (Suc l)))) AND PTE_P \<noteq> 0"
    and q1: "q = base s1 + (rd s1 (pte_slot t (PAGE_LEVEL_INDEX v (Suc (Suc l)))) AND PTE_ADDR_MASK)"
    and tabs1: "mset (tabs (rd s1) (base s) (Suc l) t) =
      add_mset q (mset (tabs (rd s) (base s) (Suc l) t))"
    and walk1: "\<And>w. walk (rd s1) (base s) (Suc l) t w = walk (rd s) (base s) (Suc l) t w"
    and lack1: "\<And>w. lacking (rd s1) (base s) (Suc l) t w =
      (if PAGE_LEVEL_INDEX w (Suc (Suc l)) = PAGE_LEVEL_INDEX v (Suc (Suc l)) then l
       else lacking (rd s) (base s) (Suc l) t w)"
    and agree1: "agree_on (\<lambda>x. x \<noteq> t \<and> x \<noteq> q) (rd s) (rd s1)"
    using enter_absent[OF own ok absent] enter by (auto simp del: lacking.simps walk.simps)
  have set1: "set (tabs (rd s1) (base s) (Suc l) t) = insert q (set (tabs (rd s) (base s) (Suc l) t))"
    using arg_cong[OF tabs1, of set_mset] by simp
  have ok1: "tree_ok (rd s1) (base s1) (Suc l) t free"
    using tree_ok_moved[OF ok page_q tabs1] by (simp add: base1)
  have lw: "lacking (rd s) (base s) (Suc l) t w = Suc l"
    if "PAGE_LEVEL_INDEX w (Suc (Suc l)) = PAGE_LEVEL_INDEX v (Suc (Suc l))" for w
    using absent that by (simp add: Let_def)
  have "map_post rd base owns (Suc l) t v pte (q # free) s s'"
    if "map_post rd base owns (Suc l) t v pte free s1 s'"
  proof -
    note res = that[unfolded map_post_def base1 lack1]
    have "lacking (rd s') (base s) (Suc l) t w =
        min (lacking (rd s) (base s) (Suc l) t w) (level_gap (Suc l) w v)" for w
      using res lw[of w] level_gap_le[of l w v] by (simp del: lacking.simps)
    moreover have "agree_on (\<lambda>x. x \<notin> set (tabs (rd s) (base s) (Suc l) t @ q # free)) (rd s) (rd s')"
      using res agree1 unfolding agree_on_def set1 set_append list.set
      by (metis Un_iff insert_iff table_in_tabs)
    ultimately show ?thesis
      using res unfolding map_post_def lw[OF refl]
      by (simp add: walk1 tabs1 del: walk.simps(2) lacking.simps)
  qed
  moreover have "lacking (rd s1) (base s1) l q v = l"
    using lack1[of v] pres1 q1 by (simp add: Let_def base1)
  moreover have "walk (rd s1) (base s1) l q v = walk (rd s) (base s) (Suc l) t v"
    using walk1[of v] pres1 q1 by (simp add: Let_def base1)
  ultimately show ?thesis using own1 base1 pres1 q1 ok1 by blast
qed

lemma map_level_post:
  assumes "owns s free" and "tree_ok (rd s) (base s) l t free" and "pte AND PTE_P \<noteq> 0"
    and "map_level rd wr base alloc remap l t v pte s = Inr s'"
  shows "map_post rd base owns l t v pte free s s'"
  using assms
proof (induction l arbitrary: s t free)
  case 0
  then show ?case by (rule map_leaf)
next
  case (Suc l)
  let ?e = "\<lambda>s. rd s (pte_slot t (PAGE_LEVEL_INDEX v (Suc (Suc l))))"
  show ?case
  proof (cases "?e s AND PTE_P = 0")
    case False
    have "map_level rd wr base alloc remap l (base s + (?e s AND PTE_ADDR_MASK)) v pte s = Inr s'"
      using Suc.prems(4) False by (simp add: enter_present)
    then show ?thesis
      by (rule map_below[OF Suc.prems(2) False refl
            Suc.IH[OF Suc.prems(1) tree_ok_below[OF Suc.prems(2) False refl] Suc.prems(3)]])
  next
    case True
    show ?thesis
    proof (cases free)
      case Nil
      then show ?thesis
        using True Suc.prems(1,4) alloc_Nil by (simp add: enter_level_def Let_def)
    next
      case (Cons q free')
      note own = Suc.prems(1)[unfolded Cons] and ok = Suc.prems(2)[unfolded Cons]
      obtain s1 where enter: "enter_level rd wr base alloc (Suc (Suc l)) t v s = Inr (q, s1)"
        using enter_absent[OF own ok True] by blast
      note new = map_entered[OF own ok True enter, of pte s']
      have run: "map_level rd wr base alloc remap l q v pte s1 = Inr s'"
        using Suc.prems(4) enter by simp
      have at: "owns s1 free'" "tree_ok (rd s1) (base s1) (Suc l) t free'" "?e s1 AND PTE_P \<noteq> 0"
        "q = base s1 + (?e s1 AND PTE_ADDR_MASK)"
        using new by blast+
      show ?thesis
        using new map_below[OF at(2-4) Suc.IH[OF at(1) tree_ok_below[OF at(2-4)] Suc.prems(3) run]]
        unfolding Cons by blast
    qed
  qed
qed

text \<open>
  The contract of the walk: it maps exactly the addresses of \<open>v\<close>'s page, keeps every other
  translation, writes only the tree's tables and the pages it takes from the allocator, and
  keeps tables and free pages together a permutation of what they were.
\<close>

lemmas map_level_correct = map_level_post[unfolded map_post_def]

text \<open>Rewriting a leaf leaves the free pages alone.\<close>

lemma update_level_owns:
  "owns s free \<Longrightarrow> tree_ok (rd s) (base s) l t free \<Longrightarrow>
   update_level rd wr base missing f l t v s = Inr s' \<Longrightarrow> owns s' free"
proof (induction l arbitrary: t)
  case 0
  have "is_page t" and "t \<notin> set free" using 0(2) by (auto simp: tree_ok_def)
  with 0(1,3) show ?case
    by (auto simp: Let_def word_layout index_lt split: if_splits intro!: owns_wr)
next
  case (Suc l)
  then show ?case using tree_ok_below[OF Suc.prems(2) _ refl] by (auto simp: Let_def split: if_splits)
qed

text \<open>A page that is mapped is never mapped again: the walk stops with \<open>remap\<close>.\<close>

lemma map_level_remap:
  "walk (rd s) (base s) l t v = Some e \<Longrightarrow> map_level rd wr base alloc remap l t v pte s = Inl remap"
  by (induction l arbitrary: t) (auto simp: Let_def enter_present split: if_splits)

text \<open>
  An unmapped page can be mapped exactly when there is a free page for every missing table;
  otherwise the walk stops for lack of memory.
\<close>

lemma map_level_outcome:
  assumes "owns s free" and "tree_ok (rd s) (base s) l t free"
    and "walk (rd s) (base s) l t v = None"
  shows "if lacking (rd s) (base s) l t v \<le> length free
    then \<exists>s'. map_level rd wr base alloc remap l t v pte s = Inr s'
    else map_level rd wr base alloc remap l t v pte s = Inl nomem"
  using assms
proof (induction l arbitrary: s t free)
  case 0
  then show ?case by (auto simp: Let_def split: if_splits)
next
  case (Suc l)
  let ?e = "\<lambda>s. rd s (pte_slot t (PAGE_LEVEL_INDEX v (Suc (Suc l))))"
  show ?case
  proof (cases "?e s AND PTE_P = 0")
    case False
    then have "walk (rd s) (base s) l (base s + (?e s AND PTE_ADDR_MASK)) v = None"
      using Suc.prems(3) by (simp add: Let_def)
    then show ?thesis
      using Suc.IH[OF Suc.prems(1) tree_ok_below[OF Suc.prems(2) False refl]] False
      by (simp add: enter_present Let_def)
  next
    case True
    have lv: "lacking (rd s) (base s) (Suc l) t v = Suc l" using True by (simp add: Let_def)
    show ?thesis
    proof (cases free)
      case Nil
      then show ?thesis
        using True Suc.prems(1) alloc_Nil unfolding lv by (simp add: enter_level_def Let_def)
    next
      case (Cons q free')
      note own = Suc.prems(1)[unfolded Cons] and ok = Suc.prems(2)[unfolded Cons]
      obtain s1 where enter: "enter_level rd wr base alloc (Suc (Suc l)) t v s = Inr (q, s1)"
        using enter_absent[OF own ok True] by blast
      note new = map_entered[OF own ok True enter]
      have at: "owns s1 free'" "tree_ok (rd s1) (base s1) (Suc l) t free'" "?e s1 AND PTE_P \<noteq> 0"
        "q = base s1 + (?e s1 AND PTE_ADDR_MASK)" "lacking (rd s1) (base s1) l q v = l"
        "walk (rd s1) (base s1) l q v = walk (rd s) (base s) (Suc l) t v"
        using new by blast+
      show ?thesis
        using Suc.IH[OF at(1) tree_ok_below[OF at(2-4)] at(6)[unfolded Suc.prems(3)]] unfolding lv at(5)
        by (simp add: enter Cons)
    qed
  qed
qed

lemma map_level_succeeds:
  assumes "owns s free" and "tree_ok (rd s) (base s) l t free"
    and "lacking (rd s) (base s) l t v \<le> length free"
    and "walk (rd s) (base s) l t v = None"
  shows "\<exists>s'. map_level rd wr base alloc remap l t v pte s = Inr s'"
  using map_level_outcome[OF assms(1,2,4)] assms(3) by simp

lemma owns_pages: "owns s free \<Longrightarrow> x \<in> set free \<Longrightarrow> is_page x"
proof (induction free arbitrary: s)
  case Nil
  then show ?case by simp
next
  case (Cons q free)
  then obtain s' where "is_page q" "owns s' free" using alloc_Cons by blast
  with Cons show ?case by auto
qed

end

end
