(* ===== verification/X86.thy ===== *)
theory X86
  imports Bytes
begin

text \<open>
  The x86-64 structures of \<open>include/opsys/x86.h\<close>: segment descriptors and their macros, the
  pseudo-descriptor \<open>lgdt\<close>/\<open>lidt\<close> take, exception numbers, the interrupt frame; and the
  tables \<open>src/gdt.c\<close> and \<open>src/x86.c\<close> build from them. The instructions the inline assembly
  wraps (\<open>rdmsr\<close>, \<open>cpuid\<close>) are parameters.
\<close>

section \<open>Segment descriptors\<close>

definition SEGDESC_GET_LIMIT :: "u64 \<Rightarrow> u32" where
  "SEGDESC_GET_LIMIT d =
     ucast (drop_bit 32 (d AND push_bit 48 0xf) OR (d AND 0xffff))"

definition SEGDESC_SET_LIMIT :: "u64 \<Rightarrow> u64" where
  "SEGDESC_SET_LIMIT ll = push_bit 32 (ll AND push_bit 16 0xf) OR (ll AND 0xffff)"

definition SEGDESC_GET_BASE :: "u64 \<Rightarrow> u64" where
  "SEGDESC_GET_BASE d =
     drop_bit 24 (d AND push_bit 56 0xff) OR drop_bit 16 (d AND push_bit 16 0xffffff)"

definition SEGDESC_SET_BASE :: "u64 \<Rightarrow> u64" where
  "SEGDESC_SET_BASE b =
     push_bit 32 (b AND push_bit 24 0xff) OR push_bit 16 (b AND 0xffffff)"

definition SEGDESC_GET_DPL :: "u64 \<Rightarrow> u64" where
  "SEGDESC_GET_DPL d = drop_bit 45 (d AND push_bit 45 3)"

definition SEGDESC_SET_DPL :: "u64 \<Rightarrow> u64" where
  "SEGDESC_SET_DPL dpl = push_bit 45 (dpl AND 3)"

named_theorems segdesc \<open>the descriptor flag constants\<close>

definition SEGDESC_A :: u64 where [segdesc]: "SEGDESC_A = push_bit 40 1"
definition SEGDESC_S :: u64 where [segdesc]: "SEGDESC_S = push_bit 44 1"
definition SEGDESC_P :: u64 where [segdesc]: "SEGDESC_P = push_bit 47 1"
definition SEGDESC_AVL :: u64 where [segdesc]: "SEGDESC_AVL = push_bit 52 1"
definition SEGDESC_L :: u64 where [segdesc]: "SEGDESC_L = push_bit 53 1"
definition SEGDESC_DB :: u64 where [segdesc]: "SEGDESC_DB = push_bit 54 1"
definition SEGDESC_G :: u64 where [segdesc]: "SEGDESC_G = push_bit 55 1"

definition SDT_RW :: u64 where [segdesc]: "SDT_RW = push_bit 41 1"
definition SDT_DOWN :: u64 where [segdesc]: "SDT_DOWN = push_bit 42 1"
definition SDT_X :: u64 where [segdesc]: "SDT_X = push_bit 43 1"
definition SDT_XR :: u64 where [segdesc]: "SDT_XR = push_bit 41 1"
definition SDT_CONF :: u64 where [segdesc]: "SDT_CONF = push_bit 42 1"

definition SDT_MASK :: u64 where [segdesc]: "SDT_MASK = push_bit 40 0xf"
definition SDT_LDT :: u64 where [segdesc]: "SDT_LDT = push_bit 40 2"
definition SDT_TSSA :: u64 where [segdesc]: "SDT_TSSA = push_bit 40 9"
definition SDT_TSSB :: u64 where [segdesc]: "SDT_TSSB = push_bit 40 11"
definition SDT_CALL :: u64 where [segdesc]: "SDT_CALL = push_bit 40 12"
definition SDT_INTR :: u64 where [segdesc]: "SDT_INTR = push_bit 40 14"
definition SDT_TRAP :: u64 where [segdesc]: "SDT_TRAP = push_bit 40 15"

text \<open>The global descriptor table, and the indices \<open>gdt.h\<close> gives its entries.\<close>

definition gdt :: "u64 list" where
  "gdt =
     [0,
      SEGDESC_SET_DPL 0 OR SEGDESC_S OR SEGDESC_L OR SEGDESC_P OR SEGDESC_G OR SDT_X OR SDT_XR,
      SEGDESC_SET_DPL 0 OR SEGDESC_S OR SEGDESC_P OR SEGDESC_G OR SDT_RW]"

definition gdt_length :: u16 where "gdt_length = of_nat (length gdt)"

datatype gdt_index = GDTI_DUMMY | GDTI_KERNEL_CODE | GDTI_KERNEL_DATA

primrec gdti :: "gdt_index \<Rightarrow> u16" where
  "gdti GDTI_DUMMY = 0"
| "gdti GDTI_KERNEL_CODE = 1"
| "gdti GDTI_KERNEL_DATA = 2"

section \<open>Descriptor table registers\<close>

record pseudo_descriptor =
  pd_limit :: u16
  pd_base :: u64

definition set_gdt :: "u64 \<Rightarrow> u16 \<Rightarrow> pseudo_descriptor" where
  "set_gdt table len = \<lparr>pd_limit = ucast (8 * (ucast len :: u64) - 1), pd_base = table\<rparr>"

text \<open>
  \<open>gdtr.limit + 1\<close> is computed as an \<open>int\<close>, which a 16-bit limit cannot overflow; the result
  is truncated to 16 bits.
\<close>

definition get_gdt :: "pseudo_descriptor \<Rightarrow> u64 \<times> u16" where
  "get_gdt gdtr = (pd_base gdtr, ucast ((ucast (pd_limit gdtr) + 1 :: u64) div 8))"

definition N_INTERRUPTS :: nat where "N_INTERRUPTS = 256"

definition set_idt :: "u64 \<Rightarrow> pseudo_descriptor" where
  "set_idt table = \<lparr>pd_limit = of_nat (N_INTERRUPTS * 16 - 1), pd_base = table\<rparr>"

section \<open>Model-specific registers and cpuid\<close>

text \<open>\<open>rdmsr\<close> yields \<open>eax\<close> and \<open>edx\<close>.\<close>

definition read_msr :: "(u32 \<Rightarrow> u32 \<times> u32) \<Rightarrow> u32 \<Rightarrow> u64" where
  "read_msr rdmsr which_msr =
     (let (eax, edx) = rdmsr which_msr in push_bit 32 (ucast edx) OR ucast eax)"

definition IA32_APIC_BASE :: u32 where "IA32_APIC_BASE = 0x1b"
definition APIC_BASE_MASK :: u64 where "APIC_BASE_MASK = 0xfffffffff000"

record cpuid_regs =
  reg_a :: u32
  reg_b :: u32
  reg_c :: u32
  reg_d :: u32

definition cpuid :: "(u32 \<Rightarrow> u32 \<Rightarrow> cpuid_regs) \<Rightarrow> u64 \<Rightarrow> cpuid_regs" where
  "cpuid cpuid_insn which = cpuid_insn (ucast which) (ucast (drop_bit 32 which))"

definition CPUID_BASIC :: u64 where "CPUID_BASIC = 0"
definition CPUID_VERSION :: u64 where "CPUID_VERSION = 1"

section \<open>The interrupt descriptor table\<close>

type_synonym idt_entry = "u64 \<times> u64"

definition idt_entry_of :: "u64 \<Rightarrow> idt_entry" where
  "idt_entry_of vector =
     (let ent1 = drop_bit 32 (vector AND 0xffffffff00000000);
          ent0 = push_bit 32 (vector AND 0xffff0000) OR (vector AND 0xffff);
          code_segment_selector = push_bit 3 (gdti GDTI_KERNEL_CODE);
          ent0 = ent0 OR push_bit 16 (ucast code_segment_selector);
          ent0 = ent0 OR (SEGDESC_P OR SEGDESC_SET_DPL 0 OR SDT_INTR)
      in (ent0, ent1))"

text \<open>\<open>idt\<close> is zero-initialised; the loop overwrites entry \<open>i\<close> for \<open>i\<close> below \<open>N_INTERRUPTS\<close>.\<close>

definition init_idt :: "u64 list \<Rightarrow> idt_entry list \<Rightarrow> idt_entry list" where
  "init_idt vector_table idt =
     fold (\<lambda>i idt. idt[i := idt_entry_of (vector_table ! i)]) [0..<N_INTERRUPTS] idt"

text \<open>How the processor reads a gate (Intel SDM, 64-bit gate descriptors).\<close>

definition gate_offset :: "idt_entry \<Rightarrow> u64" where
  "gate_offset ent = (fst ent AND mask 16) OR push_bit 16 (drop_bit 48 (fst ent))
     OR push_bit 32 (snd ent AND mask 32)"

definition gate_selector :: "idt_entry \<Rightarrow> u64" where
  "gate_selector ent = drop_bit 16 (fst ent) AND mask 16"

section \<open>Exceptions and frames\<close>

datatype exception_number =
    EXC_DE | EXC_DB | EXC_NMI | EXC_BP | EXC_OF | EXC_BR | EXC_UD | EXC_NM
  | EXC_DF | EXC_RES9 | EXC_TS | EXC_NP | EXC_SS | EXC_GP | EXC_PF | EXC_RES15
  | EXC_MF | EXC_AC | EXC_MC | EXC_XM | EXC_VE | EXC_RES21 | EXC_RES22 | EXC_RES23
  | EXC_RES24 | EXC_RES25 | EXC_RES26 | EXC_RES27 | EXC_RES28 | EXC_RES29 | EXC_RES30 | EXC_RES31

primrec exc :: "exception_number \<Rightarrow> u64" where
  "exc EXC_DE = 0" | "exc EXC_DB = 1" | "exc EXC_NMI = 2" | "exc EXC_BP = 3"
| "exc EXC_OF = 4" | "exc EXC_BR = 5" | "exc EXC_UD = 6" | "exc EXC_NM = 7"
| "exc EXC_DF = 8" | "exc EXC_RES9 = 9" | "exc EXC_TS = 10" | "exc EXC_NP = 11"
| "exc EXC_SS = 12" | "exc EXC_GP = 13" | "exc EXC_PF = 14" | "exc EXC_RES15 = 15"
| "exc EXC_MF = 16" | "exc EXC_AC = 17" | "exc EXC_MC = 18" | "exc EXC_XM = 19"
| "exc EXC_VE = 20" | "exc EXC_RES21 = 21" | "exc EXC_RES22 = 22" | "exc EXC_RES23 = 23"
| "exc EXC_RES24 = 24" | "exc EXC_RES25 = 25" | "exc EXC_RES26 = 26" | "exc EXC_RES27 = 27"
| "exc EXC_RES28 = 28" | "exc EXC_RES29 = 29" | "exc EXC_RES30 = 30" | "exc EXC_RES31 = 31"

definition EXC_IS_EXCEPTION :: "u64 \<Rightarrow> bool" where
  "EXC_IS_EXCEPTION num \<longleftrightarrow> num < 32"

definition EXC_HAS_ERROR_CODE :: "u64 \<Rightarrow> bool" where
  "EXC_HAS_ERROR_CODE num \<longleftrightarrow>
     num = exc EXC_DF \<or> num = exc EXC_TS \<or> num = exc EXC_NP \<or>
     num = exc EXC_SS \<or> num = exc EXC_GP \<or> num = exc EXC_PF \<or> num = exc EXC_AC"

text \<open>General registers in the order \<open>pushaq\<close> leaves them in memory.\<close>

record x86_64_registers =
  rdi :: u64
  rsi :: u64
  rbp :: u64
  rsp :: u64
  rbx :: u64
  rdx :: u64
  rcx :: u64
  rax :: u64
  r8 :: u64
  r9 :: u64
  r10 :: u64
  r11 :: u64
  r12 :: u64
  r13 :: u64
  r14 :: u64
  r15 :: u64

record interrupt_frame =
  reg :: x86_64_registers
  interrupt_number :: u64
  error_code :: u64
  frame_rip :: u64
  frame_cs :: u64
  frame_rflags :: u64
  frame_rsp :: u64
  frame_ss :: u64

section \<open>Bit-level facts\<close>

lemma mask_numerals:
  "(1 :: 'a::len word) = mask 1" "(3 :: 'a::len word) = mask 2" "(0xf :: 'a::len word) = mask 4"
  "(0xff :: 'a::len word) = mask 8" "(0xffff :: 'a::len word) = mask 16"
  "(0xffffff :: 'a::len word) = mask 24"
  by (simp_all add: mask_eq_exp_minus_1)

lemma bit_segdesc [segdesc]:
  "bit SEGDESC_P n \<longleftrightarrow> n = 47" "bit SDT_INTR n \<longleftrightarrow> n = 41 \<or> n = 42 \<or> n = 43"
proof -
  show "bit SEGDESC_P n \<longleftrightarrow> n = 47"
    unfolding SEGDESC_P_def bit_push_bit_iff bit_1_iff by auto
  have eq: "SDT_INTR = push_bit 41 (mask 3)" by (simp add: SDT_INTR_def mask_eq_exp_minus_1)
  show "bit SDT_INTR n \<longleftrightarrow> n = 41 \<or> n = 42 \<or> n = 43"
    unfolding eq bit_push_bit_iff bit_mask_iff by auto
qed

lemma dpl_0 [simp]: "SEGDESC_SET_DPL 0 = 0"
  by (simp add: SEGDESC_SET_DPL_def)

lemma selector_8: "push_bit 16 (ucast (push_bit 3 (gdti GDTI_KERNEL_CODE)) :: u64) = push_bit 19 1"
  by simp

lemma bit_idt_entry_lo:
  "bit (fst (idt_entry_of v)) n \<longleftrightarrow>
     n < 16 \<and> bit v n \<or> n = 19 \<or> 41 \<le> n \<and> n \<le> 43 \<or> n = 47 \<or> 48 \<le> n \<and> n < 64 \<and> bit v (n - 32)"
proof -
  have m: "(0xffff0000 :: u64) = push_bit 16 (mask 16)" by (simp add: mask_eq_exp_minus_1)
  have eq: "fst (idt_entry_of v) = push_bit 32 (v AND push_bit 16 (mask 16)) OR (v AND mask 16)
      OR push_bit 19 1 OR (SEGDESC_P OR SDT_INTR)"
    unfolding idt_entry_of_def Let_def selector_8 dpl_0 fst_conv m mask_numerals(5)
    by (simp only: or.left_neutral or.assoc)
  show ?thesis
    unfolding eq bit_or_iff bit_and_iff bit_push_bit_iff bit_mask_iff bit_1_iff bit_segdesc
    by (auto dest: bit_imp_le_length)
qed

lemma bit_idt_entry_hi: "bit (snd (idt_entry_of v)) n \<longleftrightarrow> bit v (n + 32)"
proof -
  have m: "(0xffffffff00000000 :: u64) = push_bit 32 (mask 32)" by (simp add: mask_eq_exp_minus_1)
  show ?thesis
    unfolding idt_entry_of_def Let_def snd_conv m
    by (auto simp: bit_and_iff bit_push_bit_iff bit_mask_iff bit_drop_bit_eq algebra_simps
        dest: bit_imp_le_length)
qed

lemma gate_offset_entry: "gate_offset (idt_entry_of v) = v"
  unfolding gate_offset_def word_eq_bits
proof
  fix n :: nat
  have "n < 16 \<or> 16 \<le> n \<and> n < 32 \<or> 32 \<le> n" by linarith
  then show "bit ((fst (idt_entry_of v) AND mask 16) OR push_bit 16 (drop_bit 48 (fst (idt_entry_of v)))
      OR push_bit 32 (snd (idt_entry_of v) AND mask 32)) n \<longleftrightarrow> bit v n"
    by (elim disjE) (auto simp: bit_or_iff bit_and_iff bit_push_bit_iff bit_mask_iff bit_drop_bit_eq
        bit_idt_entry_lo bit_idt_entry_hi dest: bit_imp_le_length)
qed

lemma fold_update_nth:
  "n \<le> length xs \<Longrightarrow> fold (\<lambda>i xs. xs[i := f i]) [0..<n] xs = map f [0..<n] @ drop n xs"
proof (induction n)
  case 0
  then show ?case by simp
next
  case (Suc n)
  then have "fold (\<lambda>i xs. xs[i := f i]) [0..<n] xs = map f [0..<n] @ drop n xs" by simp
  moreover have "drop n xs = xs ! n # drop (Suc n) xs"
    using Suc.prems by (simp add: Cons_nth_drop_Suc)
  ultimately show ?case by (simp add: list_update_append)
qed

lemma init_idt_eq:
  "length idt = N_INTERRUPTS \<Longrightarrow>
   init_idt vt idt = map (\<lambda>i. idt_entry_of (vt ! i)) [0..<N_INTERRUPTS]"
  by (simp add: init_idt_def fold_update_nth)


text \<open>The gate of a vector function is present, for ring 0, an interrupt gate of the kernel code.\<close>

lemma gate_present:
  "fst (idt_entry_of v) AND SDT_MASK = SDT_INTR" "fst (idt_entry_of v) AND SEGDESC_P = SEGDESC_P"
proof -
  have m4: "SDT_MASK = push_bit 40 (mask 4)" unfolding SDT_MASK_def mask_numerals(3) ..
  show "fst (idt_entry_of v) AND SDT_MASK = SDT_INTR"
    unfolding word_eq_bits bit_and_iff m4 bit_push_bit_iff bit_mask_iff bit_idt_entry_lo bit_segdesc
    by auto
  show "fst (idt_entry_of v) AND SEGDESC_P = SEGDESC_P"
    unfolding word_eq_bits bit_and_iff bit_idt_entry_lo bit_segdesc by auto
qed

lemma gate_ring: "SEGDESC_GET_DPL (fst (idt_entry_of v)) = 0"
  unfolding word_eq_bits SEGDESC_GET_DPL_def mask_numerals(2) bit_drop_bit_eq comp_def bit_and_iff
    bit_push_bit_iff bit_mask_iff bit_idt_entry_lo by auto

lemma gate_code_selector: "gate_selector (idt_entry_of v) = 8"
proof -
  have 8: "(8 :: u64) = push_bit 3 1" by simp
  show ?thesis
    unfolding gate_selector_def 8 word_eq_bits bit_and_iff bit_drop_bit_eq comp_def bit_mask_iff
      bit_idt_entry_lo bit_push_bit_iff bit_1_iff by auto
qed

section \<open>Properties\<close>

text \<open>Every gate of the interrupt descriptor table that \<open>init_idt\<close> builds leads to its
  own vector function: reassembled as the processor does, the offset is the whole 64-bit
  address, the selector is the kernel code segment, and the gate is a present interrupt gate
  for ring 0.\<close>

theorem init_idt_gates:
  assumes "length table = N_INTERRUPTS" and "i < N_INTERRUPTS"
  shows "gate_offset (init_idt vector_table table ! i) = vector_table ! i
    \<and> gate_selector (init_idt vector_table table ! i) = 8
    \<and> fst (init_idt vector_table table ! i) AND SDT_MASK = SDT_INTR
    \<and> fst (init_idt vector_table table ! i) AND SEGDESC_P = SEGDESC_P
    \<and> SEGDESC_GET_DPL (fst (init_idt vector_table table ! i)) = 0"
  using assms by (simp add: init_idt_eq gate_present gate_ring gate_code_selector gate_offset_entry)

theorem init_idt_gates_witness:
  "gate_offset (init_idt (map (\<lambda>i. 0xffffffffc0001000 + 16 * of_nat i) [0..<256])
     (replicate 256 (0, 0)) ! 40) = 0xffffffffc0001280"
  using init_idt_gates[of "replicate 256 (0, 0)" 40 "map (\<lambda>i. 0xffffffffc0001000 + 16 * of_nat i) [0..<256]"]
  by (simp add: N_INTERRUPTS_def)

text \<open>The limit and privilege-level macros invert each other: a limit is read back to its
  20 bits, a privilege level to its 2 bits.\<close>

theorem segdesc_limit_dpl_roundtrip:
  "SEGDESC_GET_LIMIT (SEGDESC_SET_LIMIT ll) = take_bit 20 (ucast ll)
   \<and> SEGDESC_GET_DPL (SEGDESC_SET_DPL dpl) = take_bit 2 dpl"
proof
  show "SEGDESC_GET_LIMIT (SEGDESC_SET_LIMIT ll) = take_bit 20 (ucast ll)"
    unfolding word_eq_bits
  proof
    fix n :: nat
    have "n < 16 \<or> 16 \<le> n \<and> n < 20 \<or> 20 \<le> n" by linarith
    then show "bit (SEGDESC_GET_LIMIT (SEGDESC_SET_LIMIT ll)) n \<longleftrightarrow> bit (take_bit 20 (ucast ll) :: u32) n"
      unfolding SEGDESC_GET_LIMIT_def SEGDESC_SET_LIMIT_def mask_numerals(3,5)
      by (elim disjE) (auto simp: bit_simps dest: bit_imp_le_length)
  qed
  show "SEGDESC_GET_DPL (SEGDESC_SET_DPL dpl) = take_bit 2 dpl"
    unfolding word_eq_bits SEGDESC_GET_DPL_def SEGDESC_SET_DPL_def mask_numerals(2)
    by (auto simp: bit_simps)
qed

text \<open>C36: The base-address macros do not invert each other: \<open>SEGDESC_GET_BASE\<close> shifts the top
  byte of the base down by 24 instead of 32, so bits 24 to 31 come back as bits 32 to 39.
  Only bases below \<open>2\<^sup>2\<^sup>4\<close> are read back.\<close>

theorem segdesc_base_misread:
  "SEGDESC_GET_BASE (SEGDESC_SET_BASE b) = take_bit 24 b OR push_bit 8 (take_bit 32 b AND NOT (mask 24))"
  unfolding word_eq_bits
proof
  fix n :: nat
  have "n < 24 \<or> 24 \<le> n \<and> n < 32 \<or> 32 \<le> n \<and> n < 40 \<or> 40 \<le> n" by linarith
  then show "bit (SEGDESC_GET_BASE (SEGDESC_SET_BASE b)) n \<longleftrightarrow>
      bit (take_bit 24 b OR push_bit 8 (take_bit 32 b AND NOT (mask 24))) n"
    unfolding SEGDESC_GET_BASE_def SEGDESC_SET_BASE_def mask_numerals(4,6)
    by (elim disjE) (auto simp: bit_simps dest: bit_imp_le_length)
qed

text \<open>\<open>get_gdt\<close> reads back the table and the length that \<open>set_gdt\<close> loaded, for every
  length a descriptor table register can hold.\<close>

theorem gdt_register_roundtrip:
  assumes "0 < unat len" and "unat len \<le> 8192"
  shows "get_gdt (set_gdt table len) = (table, len)"
proof -
  have up: "unat (ucast w :: u64) = unat w" for w :: u16
    using unsigned_less[of w, where ?'a = nat] by (simp add: unsigned_ucast_eq take_bit_nat_eq_self)
  have "unat (8 * (ucast len :: u64)) = 8 * unat len"
    using assms by (simp add: unat_word_ariths up)
  moreover from this have "8 * (ucast len :: u64) \<noteq> 0" using assms by auto
  ultimately have "unat (8 * (ucast len :: u64) - 1) = 8 * unat len - 1"
    by (simp add: unat_minus_one)
  then have "unat (pd_limit (set_gdt table len)) = 8 * unat len - 1"
    using assms by (simp add: set_gdt_def unsigned_ucast_eq take_bit_nat_eq_self)
  then have "unat (ucast (pd_limit (set_gdt table len)) + 1 :: u64) = 8 * unat len"
    using assms by (simp add: unat_word_ariths up)
  then have "unat ((ucast (pd_limit (set_gdt table len)) + 1 :: u64) div 8) = unat len"
    by (simp add: unat_div_distrib)
  then have "(ucast ((ucast (pd_limit (set_gdt table len)) + 1 :: u64) div 8) :: u16) = len"
    using assms by (simp add: word_unat_eq_iff unsigned_ucast_eq take_bit_nat_eq_self)
  then show ?thesis by (simp add: get_gdt_def) (simp add: set_gdt_def)
qed

text \<open>The kernel's own table of three descriptors.\<close>

theorem gdt_register_roundtrip_witness: "get_gdt (set_gdt 0x5000 gdt_length) = (0x5000, 3)"
  using gdt_register_roundtrip[of gdt_length "0x5000"] by (simp add: gdt_length_def gdt_def)

text \<open>The selectors the kernel loads name the right descriptors: \<open>cs\<close> a present, readable,
  executable 64-bit code segment and \<open>ss\<close> a present, writable data segment, both of ring 0;
  the null selector names the null descriptor.\<close>

theorem gdt_segments:
  "gdt ! unat (gdti GDTI_DUMMY) = 0
   \<and> (let code = gdt ! unat (gdti GDTI_KERNEL_CODE) in
       code AND SEGDESC_P \<noteq> 0 \<and> code AND SEGDESC_S \<noteq> 0 \<and> code AND SDT_X \<noteq> 0 \<and> code AND SDT_XR \<noteq> 0
       \<and> code AND SEGDESC_L \<noteq> 0 \<and> code AND SEGDESC_DB = 0 \<and> SEGDESC_GET_DPL code = 0)
   \<and> (let data = gdt ! unat (gdti GDTI_KERNEL_DATA) in
       data AND SEGDESC_P \<noteq> 0 \<and> data AND SEGDESC_S \<noteq> 0 \<and> data AND SDT_X = 0 \<and> data AND SDT_RW \<noteq> 0
       \<and> SEGDESC_GET_DPL data = 0)"
  by (simp add: gdt_def segdesc Let_def SEGDESC_GET_DPL_def)

end
