(* ===== verification/BootData.thy ===== *)
theory BootData
  imports Elf X86
begin

text \<open>
  The structure the boot loader hands to the kernel (\<open>include/opsys/bootloader_data.h\<close>), the
  UEFI memory map in it, and the kernel's own state. The ELF headers and the memory map,
  which the C structure points to, are values here: they lie in pages that are never on the
  kernel's free list. The descriptor layout and the runtime attribute bit are those of the
  UEFI specification; the type names are the ones \<open>efi/efi-wrapper.h\<close> lists.
\<close>

datatype EFI_MEMORY_TYPE =
    EfiReservedMemoryType | EfiLoaderCode | EfiLoaderData
  | EfiBootServicesCode | EfiBootServicesData
  | EfiRuntimeServicesCode | EfiRuntimeServicesData
  | EfiConventionalMemory | EfiUnusableMemory | EfiACPIReclaimMemory | EfiACPIMemoryNVS
  | EfiMemoryMappedIO | EfiMemoryMappedIOPortSpace | EfiPalCode
  | EfiOtherMemoryType u32   \<comment> \<open>any other value of the 32-bit field\<close>

record EFI_MEMORY_DESCRIPTOR =
  Type :: EFI_MEMORY_TYPE
  PhysicalStart :: u64
  VirtualStart :: u64
  NumberOfPages :: u64
  Attribute :: u64

definition EFI_MEMORY_RUNTIME :: u64 where "EFI_MEMORY_RUNTIME = 0x8000000000000000"

record bootloader_data =
  free_memory :: u64
  n_pages :: u64
  ram_size :: u64
  paddr_base :: u64
  paddr_size :: u64
  mmio_base :: u64
  mmio_size :: u64
  ehdr :: Elf64_Ehdr
  phdrs :: "Elf64_Phdr list"
  RT :: u64
  NumEntries :: u64
  MemoryMap :: "EFI_MEMORY_DESCRIPTOR list"

text \<open>The per-cpu structure of \<open>src/x86.h\<close>; \<open>apic\<close> is its only member.\<close>

record x86_64_cpu =
  apic_paddr :: u64
  apic_vaddr :: u64
  apic_id :: u8

text \<open>
  The state of the kernel: memory, the variables of its modules, and the registers it
  loads. \<open>free_list\<close> is the address of the first free page, 0 when there is none;
  \<open>bd_addr\<close> is the value of the pointer \<open>bootloader_data\<close> and \<open>bd\<close> what it points to.
\<close>

record kernel =
  kmem :: mem
  free_list :: u64
  bd_addr :: u64
  bd :: bootloader_data
  cpu :: x86_64_cpu
  idt :: "idt_entry list"
  gdtr :: pseudo_descriptor
  idtr :: pseudo_descriptor
  cr3 :: u64
  data_selectors :: u16   \<comment> \<open>\<open>ds\<close>, \<open>es\<close>, \<open>fs\<close> and \<open>gs\<close>, always loaded together\<close>
  stack_selector :: u16
  code_selector :: u16


section \<open>A concrete boot\<close>

text \<open>
  A machine with 128 MB of memory as the loader would leave it: 32 free pages, one segment of
  runtime data, a kernel with a text and a data segment, the first page of data \<open>relro\<close>.
\<close>

definition sample_phdrs :: "Elf64_Phdr list" where
  "sample_phdrs =
    [\<lparr>p_type = PT_LOAD, p_flags = 5, p_offset = 0, p_vaddr = 0xffffffffc0000000, p_paddr = 0x200000,
       p_filesz = 0x2800, p_memsz = 0x2800, p_align = 0x1000\<rparr>,
     \<lparr>p_type = PT_LOAD, p_flags = 6, p_offset = 0x3000, p_vaddr = 0xffffffffc0003000,
       p_paddr = 0x204000, p_filesz = 0x1000, p_memsz = 0x1800, p_align = 0x1000\<rparr>,
     \<lparr>p_type = PT_GNU_RELRO, p_flags = 4, p_offset = 0x3000, p_vaddr = 0xffffffffc0003000,
       p_paddr = 0x204000, p_filesz = 0x1000, p_memsz = 0x1000, p_align = 1\<rparr>]"

definition sample_data :: bootloader_data where
  "sample_data =
    \<lparr>free_memory = 0xffffffffb8100000, n_pages = 32, ram_size = 0x8000000,
     paddr_base = 0xffffffffb8000000, paddr_size = 0x8000000,
     mmio_base = 0xffffffffb7000000, mmio_size = 0x1000000,
     ehdr = \<lparr>e_ident = [0x7f, 0x45, 0x4c, 0x46], e_type = 3, e_machine = 62, e_version = 1,
       e_entry = 0xffffffffc0001000, e_phoff = 64, e_shoff = 0, e_flags = 0, e_ehsize = 64,
       e_phentsize = 56, e_phnum = 3, e_shentsize = 64, e_shnum = 0, e_shstrndx = 0\<rparr>,
     phdrs = sample_phdrs, RT = 0, NumEntries = 2,
     MemoryMap =
       [\<lparr>Type = EfiConventionalMemory, PhysicalStart = 0x1000, VirtualStart = 0,
          NumberOfPages = 0x80, Attribute = 15\<rparr>,
        \<lparr>Type = EfiRuntimeServicesData, PhysicalStart = 0x7000000, VirtualStart = 0xffffffffbf000000,
          NumberOfPages = 2, Attribute = EFI_MEMORY_RUNTIME\<rparr>]\<rparr>"

definition sample_bd_addr :: u64 where "sample_bd_addr = 0xffffffffb80fe000"

definition blank_kernel :: kernel where
  "blank_kernel =
    \<lparr>kmem = (\<lambda>_. 0), free_list = 0, bd_addr = sample_bd_addr, bd = sample_data,
     cpu = \<lparr>apic_paddr = 0xfee00000, apic_vaddr = 0xffffffffb6fff000, apic_id = 0\<rparr>,
     idt = replicate N_INTERRUPTS (0, 0), gdtr = \<lparr>pd_limit = 0, pd_base = 0\<rparr>,
     idtr = \<lparr>pd_limit = 0, pd_base = 0\<rparr>, cr3 = 0, data_selectors = 0, stack_selector = 0,
     code_selector = 0\<rparr>"

end
