(* ===== verification/Spaces.thy ===== *)
theory Spaces
  imports PageTable
begin

text \<open>
  The abstract view of an address space: a partial function from addresses to leaf entries,
  to which \<open>spec_maps\<close> adds mappings one request at a time. The last section shows, for
  every memory and page allocator that satisfy \<open>page_store\<close>, that a sequence of requests
  run through \<open>map_level\<close> refines \<open>spec_maps\<close> and that it needs exactly one page per
  missing table. The kernel and the boot loader both rest on it.
\<close>

section \<open>Address spaces\<close>

type_synonym space = "u64 \<Rightarrow> u64 option"

text \<open>The bits of a virtual address the four levels look at.\<close>

definition VPAGE :: "u64 \<Rightarrow> u64" where "VPAGE v = v AND PTE_ADDR_MASK"

lemma same_slot_VPAGE: "same_slot 3 v w \<longleftrightarrow> VPAGE v = VPAGE w"
proof -
  have idx: "PAGE_LEVEL_INDEX v l = PAGE_LEVEL_INDEX w l \<longleftrightarrow>
      (\<forall>n. n < 9 \<longrightarrow> bit v (12 + 9 * (l - 1) + n) = bit w (12 + 9 * (l - 1) + n))" for l
    unfolding word_eq_bits bit_PAGE_LEVEL_INDEX by auto
  have v: "VPAGE v = VPAGE w \<longleftrightarrow> (\<forall>n. 12 \<le> n \<and> n < 48 \<longrightarrow> bit v n = bit w n)"
    unfolding VPAGE_def word_eq_bits bit_and_iff bit_addr_mask by auto
  have s: "same_slot 3 v w \<longleftrightarrow>
      PAGE_LEVEL_INDEX v 4 = PAGE_LEVEL_INDEX w 4 \<and> PAGE_LEVEL_INDEX v 3 = PAGE_LEVEL_INDEX w 3 \<and>
      PAGE_LEVEL_INDEX v 2 = PAGE_LEVEL_INDEX w 2 \<and> PAGE_LEVEL_INDEX v 1 = PAGE_LEVEL_INDEX w 1"
    by (simp add: eval_nat_numeral)
  show ?thesis
  proof
    assume "same_slot 3 v w"
    note bits = this[unfolded s idx]
    have "bit v n = bit w n" if n: "12 \<le> n" "n < 48" for n
    proof -
      have "\<exists>m < 9. n = 12 + m \<or> n = 21 + m \<or> n = 30 + m \<or> n = 39 + m" using n by presburger
      then show ?thesis using bits by auto
    qed
    then show "VPAGE v = VPAGE w" unfolding v by blast
  next
    assume "VPAGE v = VPAGE w"
    then show "same_slot 3 v w" unfolding s idx v by auto
  qed
qed


section \<open>The abstract operations\<close>

text \<open>
  A request asks for one page: virtual address, physical address, flags. Mapping an address
  whose page is mapped already is an error; making a page read-only needs it to be mapped.
\<close>

type_synonym request = "u64 \<times> u64 \<times> u64"

definition leaf :: "u64 \<Rightarrow> u64 \<Rightarrow> u64" where "leaf p flags = p OR PTE_P OR flags"

definition space_map :: "space \<Rightarrow> u64 \<Rightarrow> u64 \<Rightarrow> space" where
  "space_map sp v e = (\<lambda>w. if VPAGE w = VPAGE v then Some e else sp w)"

fun spec_maps :: "request list \<Rightarrow> space \<Rightarrow> space option" where
  "spec_maps [] sp = Some sp"
| "spec_maps ((v, p, flags) # rs) sp =
     (if sp v = None then spec_maps rs (space_map sp v (leaf p flags)) else None)"

definition read_only :: "u64 \<Rightarrow> u64" where "read_only e = e AND NOT PTE_RW"

fun spec_ros :: "u64 list \<Rightarrow> space \<Rightarrow> space option" where
  "spec_ros [] sp = Some sp"
| "spec_ros (v # vs) sp =
     (case sp v of None \<Rightarrow> None | Some e \<Rightarrow> spec_ros vs (space_map sp v (read_only e)))"

definition page_like :: "space \<Rightarrow> bool" where
  "page_like sp \<longleftrightarrow> (\<forall>v w. VPAGE v = VPAGE w \<longrightarrow> sp v = sp w)"

lemma page_like_space_map: "page_like sp \<Longrightarrow> page_like (space_map sp v e)"
  unfolding page_like_def space_map_def by metis

lemma spec_maps_page_like: "page_like sp \<Longrightarrow> spec_maps rs sp = Some sp' \<Longrightarrow> page_like sp'"
  by (induction rs sp rule: spec_maps.induct) (auto simp: page_like_space_map split: if_splits)

lemma spec_maps_append:
  "spec_maps (rs @ rs') sp = Option.bind (spec_maps rs sp) (spec_maps rs')"
  by (induction rs sp rule: spec_maps.induct) auto

definition vpages :: "request list \<Rightarrow> u64 list" where "vpages rs = map (\<lambda>r. VPAGE (fst r)) rs"

lemma vpages_simps [simp]: "vpages [] = []" "vpages ((v, p) # rs) = VPAGE v # vpages rs"
  "vpages (rs @ rs') = vpages rs @ vpages rs'"
  by (simp_all add: vpages_def)

lemma vpages_mem: "(v, p) \<in> set rs \<Longrightarrow> VPAGE v \<in> set (vpages rs)"
  by (force simp: vpages_def)

lemma spec_maps_some:
  "page_like sp \<Longrightarrow> distinct (vpages rs) \<Longrightarrow> (\<And>v p. (v, p) \<in> set rs \<Longrightarrow> sp v = None) \<Longrightarrow>
   \<exists>sp'. spec_maps rs sp = Some sp'"
proof (induction rs sp rule: spec_maps.induct)
  case (1 sp)
  then show ?case by simp
next
  case (2 v p flags rs sp)
  have v: "sp v = None" using 2(4)[of v "(p, flags)"] by simp
  have "space_map sp v (leaf p flags) w = None" if "(w, q) \<in> set rs" for w q
  proof -
    have "VPAGE w \<noteq> VPAGE v" using 2(3) vpages_mem[OF that] by auto
    moreover have "sp w = None" using 2(4)[of w q] that by simp
    ultimately show ?thesis by (simp add: space_map_def)
  qed
  then show ?case using 2(1)[OF v page_like_space_map[OF 2(2)]] 2(3) v by simp
qed

text \<open>What a sequence of mappings leaves: the requests are met and nothing else changes.\<close>

lemma spec_maps_result:
  assumes "page_like sp" and "spec_maps rs sp = Some sp'"
  shows "(\<forall>(v, p, flags) \<in> set rs. sp v = None \<and> sp' v = Some (leaf p flags))
    \<and> (\<forall>w. VPAGE w \<notin> set (vpages rs) \<longrightarrow> sp' w = sp w)
    \<and> distinct (vpages rs)"
  using assms
proof (induction rs sp rule: spec_maps.induct)
  case (1 sp)
  then show ?case by simp
next
  case (2 v p flags rs sp)
  let ?sp = "space_map sp v (leaf p flags)"
  have v: "sp v = None" and rs: "spec_maps rs ?sp = Some sp'"
    using 2(3) by (auto split: if_splits)
  from 2(1)[OF v page_like_space_map[OF 2(2)] rs]
  have IH: "\<forall>(v', p, flags) \<in> set rs. ?sp v' = None \<and> sp' v' = Some (leaf p flags)"
    "\<forall>w. VPAGE w \<notin> set (vpages rs) \<longrightarrow> sp' w = ?sp w" "distinct (vpages rs)" by blast+
  have new: "VPAGE v' \<noteq> VPAGE v \<and> sp v' = None" if "(v', p', f') \<in> set rs" for v' p' f'
    using IH(1) that by (fastforce simp: space_map_def split: if_splits)
  then have fresh: "VPAGE v \<notin> set (vpages rs)" by (fastforce simp: vpages_def)
  then have "sp' v = Some (leaf p flags)" using IH(2) by (simp add: space_map_def)
  then show ?case using IH v new fresh by (auto simp: space_map_def)
qed

lemma spec_ros_some:
  assumes "page_like sp"
  shows "(\<exists>sp'. spec_ros vs sp = Some sp') \<longleftrightarrow> (\<forall>v \<in> set vs. sp v \<noteq> None)"
  using assms
proof (induction vs arbitrary: sp)
  case Nil
  then show ?case by simp
next
  case (Cons v vs)
  show ?case
  proof (cases "sp v")
    case None
    then show ?thesis by simp
  next
    case (Some e)
    have "VPAGE w = VPAGE v \<Longrightarrow> sp w = Some e" for w
      using Cons.prems Some unfolding page_like_def by metis
    then have "space_map sp v (read_only e) w \<noteq> None \<longleftrightarrow> sp w \<noteq> None" for w
      by (simp add: space_map_def)
    then show ?thesis using Cons.IH[OF page_like_space_map[OF Cons.prems]] Some by simp
  qed
qed

lemma spec_ros_result:
  assumes "page_like sp" and "spec_ros vs sp = Some sp'"
  shows "sp' w = (if VPAGE w \<in> VPAGE ` set vs then map_option read_only (sp w) else sp w)"
  using assms
proof (induction vs arbitrary: sp)
  case Nil
  then show ?case by simp
next
  case (Cons v vs)
  obtain e where e: "sp v = Some e" and vs: "spec_ros vs (space_map sp v (read_only e)) = Some sp'"
    using Cons.prems(2) by (auto split: option.splits)
  have "read_only (read_only e) = read_only e" by (simp add: read_only_def ac_simps)
  moreover have "sp w = Some e" if "VPAGE w = VPAGE v"
    using Cons.prems(1) that e by (metis page_like_def)
  ultimately show ?case
    using Cons.IH[OF page_like_space_map[OF Cons.prems(1)] vs] by (auto simp: space_map_def)
qed

text \<open>
  The number of tables a sequence of requests adds, from how many each address lacks at the
  start: mapping \<open>v\<close> brings every other address as close as it is to \<open>v\<close>.
\<close>

fun demand :: "u64 list \<Rightarrow> (u64 \<Rightarrow> nat) \<Rightarrow> nat" where
  "demand [] lack = 0"
| "demand (v # vs) lack = lack v + demand vs (\<lambda>w. min (lack w) (level_gap 3 w v))"

section \<open>How many tables a set of pages needs\<close>

text \<open>Addresses share their level-\<open>l\<close> table when they agree above the bits it resolves.\<close>

definition table_of :: "nat \<Rightarrow> u64 \<Rightarrow> u64" where
  "table_of l v = drop_bit (12 + 9 * l) (VPAGE v)"

lemma table_of_eq: "table_of l v = table_of l w \<longleftrightarrow>
    (\<forall>n. 12 + 9 * l \<le> n \<and> n < 48 \<longrightarrow> bit v n = bit w n)"
proof
  assume eq: "table_of l v = table_of l w"
  show "\<forall>n. 12 + 9 * l \<le> n \<and> n < 48 \<longrightarrow> bit v n = bit w n"
  proof (intro allI impI)
    fix n assume n: "12 + 9 * l \<le> n \<and> n < 48"
    then obtain m where "n = 12 + 9 * l + m" using le_Suc_ex by blast
    with n arg_cong[OF eq, of "\<lambda>x. bit x m"] show "bit v n = bit w n"
      by (simp add: table_of_def VPAGE_def bit_drop_bit_eq bit_and_iff bit_addr_mask)
  qed
next
  assume "\<forall>n. 12 + 9 * l \<le> n \<and> n < 48 \<longrightarrow> bit v n = bit w n"
  then show "table_of l v = table_of l w"
    unfolding word_eq_bits table_of_def VPAGE_def bit_drop_bit_eq comp_def bit_and_iff bit_addr_mask
    by auto
qed

lemma index_eq: "PAGE_LEVEL_INDEX v l = PAGE_LEVEL_INDEX w l \<longleftrightarrow>
    (\<forall>n. 12 + 9 * (l - 1) \<le> n \<and> n < 21 + 9 * (l - 1) \<longrightarrow> bit v n = bit w n)"
proof -
  have "PAGE_LEVEL_INDEX v l = PAGE_LEVEL_INDEX w l \<longleftrightarrow>
      (\<forall>n. n < 9 \<longrightarrow> bit v (12 + 9 * (l - 1) + n) = bit w (12 + 9 * (l - 1) + n))"
    unfolding word_eq_bits bit_PAGE_LEVEL_INDEX by auto
  also have "\<dots> \<longleftrightarrow> (\<forall>n. 12 + 9 * (l - 1) \<le> n \<and> n < 21 + 9 * (l - 1) \<longrightarrow> bit v n = bit w n)"
    (is "?L = ?R")
  proof
    assume a: ?L
    show ?R
    proof (intro allI impI)
      fix n
      assume n: "12 + 9 * (l - 1) \<le> n \<and> n < 21 + 9 * (l - 1)"
      then have "n - (12 + 9 * (l - 1)) < 9" by linarith
      with a have "bit v (12 + 9 * (l - 1) + (n - (12 + 9 * (l - 1)))) =
          bit w (12 + 9 * (l - 1) + (n - (12 + 9 * (l - 1))))" by blast
      then show "bit v n = bit w n" using n by simp
    qed
  qed simp
  finally show ?thesis .
qed

lemma table_of_up:
  "table_of 1 v = table_of 1 w \<Longrightarrow> table_of 2 v = table_of 2 w"
  "table_of 2 v = table_of 2 w \<Longrightarrow> table_of 3 v = table_of 3 w"
  unfolding table_of_eq by auto

lemma level_gap_tables:
  "level_gap 3 w v = (if table_of 3 w \<noteq> table_of 3 v then 3 else if table_of 2 w \<noteq> table_of 2 v then 2
     else if table_of 1 w \<noteq> table_of 1 v then 1 else 0)"
proof -
  have 4: "PAGE_LEVEL_INDEX w 4 = PAGE_LEVEL_INDEX v 4 \<longleftrightarrow> table_of 3 w = table_of 3 v"
    unfolding index_eq table_of_eq by simp
  have 3: "table_of 2 w = table_of 2 v \<longleftrightarrow>
      PAGE_LEVEL_INDEX w 3 = PAGE_LEVEL_INDEX v 3 \<and> table_of 3 w = table_of 3 v"
    unfolding index_eq table_of_eq by (simp add: range_split[of 30 39 48])
  have 2: "table_of 1 w = table_of 1 v \<longleftrightarrow>
      PAGE_LEVEL_INDEX w 2 = PAGE_LEVEL_INDEX v 2 \<and> table_of 2 w = table_of 2 v"
    unfolding index_eq table_of_eq by (simp add: range_split[of 21 30 48])
  have "level_gap 3 w v = (if PAGE_LEVEL_INDEX w 4 \<noteq> PAGE_LEVEL_INDEX v 4 then 3
      else if PAGE_LEVEL_INDEX w 3 \<noteq> PAGE_LEVEL_INDEX v 3 then 2
      else if PAGE_LEVEL_INDEX w 2 \<noteq> PAGE_LEVEL_INDEX v 2 then 1 else 0)"
    by (simp add: eval_nat_numeral)
  then show ?thesis using 2 3 4 by auto
qed

text \<open>The levels at which \<open>w\<close> shares no table with \<open>S\<close>.\<close>

definition absent :: "u64 set \<Rightarrow> u64 \<Rightarrow> nat" where
  "absent S w = (if table_of 3 w \<notin> table_of 3 ` S then 1 else 0)
     + (if table_of 2 w \<notin> table_of 2 ` S then 1 else 0)
     + (if table_of 1 w \<notin> table_of 1 ` S then 1 else 0)"

lemma absent_empty: "absent {} = (\<lambda>_. 3)"
  by (simp add: absent_def fun_eq_iff)

lemma absent_insert: "min (absent S w) (level_gap 3 w v) = absent (insert v S) w"
proof -
  have up: "table_of 1 w \<in> table_of 1 ` S \<Longrightarrow> table_of 2 w \<in> table_of 2 ` S"
    "table_of 2 w \<in> table_of 2 ` S \<Longrightarrow> table_of 3 w \<in> table_of 3 ` S"
    using table_of_up(1)[of w] table_of_up(2)[of w] by blast+
  have "(m1 \<longrightarrow> m2) \<Longrightarrow> (m2 \<longrightarrow> m3) \<Longrightarrow> (e1 \<longrightarrow> e2) \<Longrightarrow> (e2 \<longrightarrow> e3) \<Longrightarrow>
      min ((if \<not> m3 then 1 else 0) + (if \<not> m2 then 1 else 0) + (if \<not> m1 then 1 else 0))
        (if \<not> e3 then 3 else if \<not> e2 then 2 else if \<not> e1 then 1 else (0 :: nat)) =
      (if \<not> (e3 \<or> m3) then 1 else 0) + (if \<not> (e2 \<or> m2) then 1 else 0)
        + (if \<not> (e1 \<or> m1) then 1 else 0)" for m1 m2 m3 e1 e2 e3
    by (cases m1; cases m2; cases m3; cases e1; cases e2; cases e3; simp)
  from this[of "table_of 1 w \<in> table_of 1 ` S" "table_of 2 w \<in> table_of 2 ` S"
      "table_of 3 w \<in> table_of 3 ` S" "table_of 1 w = table_of 1 v" "table_of 2 w = table_of 2 v"
      "table_of 3 w = table_of 3 v"] up table_of_up(1)[of w v] table_of_up(2)[of w v]
  show ?thesis unfolding level_gap_tables absent_def image_insert insert_iff by blast
qed

definition n_tables :: "u64 set \<Rightarrow> nat" where
  "n_tables S = card (table_of 3 ` S) + card (table_of 2 ` S) + card (table_of 1 ` S)"

lemma n_tables_insert: "finite S \<Longrightarrow> n_tables (insert v S) = absent S v + n_tables S"
  by (simp add: n_tables_def absent_def card_insert_if)

lemma demand_absent:
  "finite S \<Longrightarrow> demand vs (absent S) + n_tables S = n_tables (S \<union> set vs)"
proof (induction vs arbitrary: S)
  case Nil
  then show ?case by simp
next
  case (Cons v vs)
  have "demand vs (absent (insert v S)) + n_tables (insert v S) = n_tables (insert v S \<union> set vs)"
    using Cons by simp
  then show ?case using Cons.prems by (simp add: absent_insert n_tables_insert)
qed

lemma demand_tables: "demand vs (\<lambda>_. 3) = n_tables (set vs)"
  using demand_absent[of "{}" vs] by (simp add: absent_empty n_tables_def)

text \<open>What \<open>map_range\<close> asks for.\<close>

definition range_requests :: "u64 \<Rightarrow> u64 \<Rightarrow> u64 \<Rightarrow> u64 \<Rightarrow> request list" where
  "range_requests paddr vaddr n flags =
     map (\<lambda>i. (vaddr + PAGE_SIZE * of_nat i, paddr + PAGE_SIZE * of_nat i, flags)) [0..<unat n]"

lemma n_tables_list: "n_tables (set vs) =
    length (remdups (map (table_of 3) vs)) + length (remdups (map (table_of 2) vs))
    + length (remdups (map (table_of 1) vs))"
  by (simp add: n_tables_def length_remdups_card_conv)


text \<open>Every tree is page-like, and a zeroed page is the empty tree.\<close>

lemma page_like_walk: "page_like (walk R B 3 root)"
proof -
  have "walk R B l t v = walk R B l t w" if "same_slot l v w" for R B l v w t
    using that by (induction l arbitrary: t) (auto simp: Let_def)
  then show ?thesis by (simp add: page_like_def same_slot_VPAGE[symmetric])
qed

lemma fresh_root:
  assumes "\<And>a. aligned8 a \<Longrightarrow> PAGE_BASE a = root \<Longrightarrow> R a = 0" and "is_page root"
    and "root \<notin> set free" and "distinct free"
  shows "tree_ok R B 3 root free" and "walk R B 3 root = (\<lambda>_. None)"
    and "lacking R B 3 root = (\<lambda>_. 3)" and "tabs R B 3 root = [root]"
  using zero_table[OF assms(1,2)] assms(2,3,4) by (auto simp: tree_ok_def fun_eq_iff)

section \<open>Sequences of requests\<close>

definition map_leaf ::
  "('s \<Rightarrow> u64 \<Rightarrow> u64) \<Rightarrow> ('s \<Rightarrow> u64 \<Rightarrow> u64 \<Rightarrow> 's) \<Rightarrow> ('s \<Rightarrow> u64) \<Rightarrow> ('s \<Rightarrow> (u64 \<times> 's) result) \<Rightarrow>
   stop \<Rightarrow> u64 \<Rightarrow> request \<Rightarrow> 's \<Rightarrow> 's result" where
  "map_leaf rd wr base alloc remap root =
     (\<lambda>(v, p, flags). map_level rd wr base alloc remap 3 root v (leaf p flags))"

text \<open>
  \<open>grown c\<close>: the first \<open>c\<close> free pages moved into the tree, which is still a tree; no other
  page was written.
\<close>

definition grown ::
  "('s \<Rightarrow> u64 \<Rightarrow> u64) \<Rightarrow> ('s \<Rightarrow> u64) \<Rightarrow> ('s \<Rightarrow> u64 list \<Rightarrow> bool) \<Rightarrow> nat \<Rightarrow> u64 \<Rightarrow> u64 list \<Rightarrow> 's \<Rightarrow> 's \<Rightarrow>
   bool" where
  "grown rd base owns c root free s s' \<longleftrightarrow> c \<le> length free \<and> owns s' (drop c free) \<and> base s' = base s
     \<and> tree_ok (rd s') (base s) 3 root (drop c free)
     \<and> mset (tabs (rd s') (base s) 3 root @ drop c free) = mset (tabs (rd s) (base s) 3 root @ free)
     \<and> agree_on (\<lambda>x. x \<notin> set (tabs (rd s) (base s) 3 root @ free)) (rd s) (rd s')"

lemma grown_trans:
  assumes "grown rd base owns c root free s s1" and "grown rd base owns d root (drop c free) s1 s2"
  shows "grown rd base owns (c + d) root free s s2"
proof -
  have base: "base s1 = base s" using assms(1) by (simp add: grown_def)
  have "set (tabs (rd s1) (base s) 3 root @ drop c free) = set (tabs (rd s) (base s) 3 root @ free)"
    using assms(1) by (intro mset_eq_setD) (simp add: grown_def)
  then have "agree_on (\<lambda>x. x \<notin> set (tabs (rd s) (base s) 3 root @ free)) (rd s) (rd s2)"
    using assms unfolding grown_def agree_on_def base by auto
  then show ?thesis
    using assms unfolding grown_def base by (auto simp: add.commute)
qed

context page_store
begin

lemma map_leaf_correct:
  assumes own: "owns s free" and ok: "tree_ok (rd s) (base s) 3 root free"
    and run: "map_leaf rd wr base alloc remap root (v, p, flags) s = Inr s'"
  shows "grown rd base owns (lacking (rd s) (base s) 3 root v) root free s s'
    \<and> walk (rd s) (base s) 3 root v = None
    \<and> walk (rd s') (base s') 3 root = space_map (walk (rd s) (base s) 3 root) v (leaf p flags)
    \<and> lacking (rd s') (base s') 3 root =
        (\<lambda>w. min (lacking (rd s) (base s) 3 root w) (level_gap 3 w v))"
proof -
  have run: "map_level rd wr base alloc remap 3 root v (leaf p flags) s = Inr s'"
    using run by (simp add: map_leaf_def)
  have pres: "leaf p flags AND PTE_P \<noteq> 0" by (simp add: leaf_def)
  note res = map_level_correct[OF own ok pres run]
  then have ms: "mset (tabs (rd s') (base s) 3 root @ drop (lacking (rd s) (base s) 3 root v) free)
      = mset (tabs (rd s) (base s) 3 root @ free)" and base: "base s' = base s" by blast+
  have "\<forall>x \<in> set free. is_page x" using owns_pages[OF own] by blast
  then have "tree_ok (rd s') (base s) 3 root (drop (lacking (rd s) (base s) 3 root v) free)"
    by (rule tree_ok_permuted[OF ok _ ms])
  then have "grown rd base owns (lacking (rd s) (base s) 3 root v) root free s s'"
    using res unfolding grown_def by blast
  moreover have "walk (rd s) (base s) 3 root v = None"
    using map_level_remap[of s 3 root v _ remap] run by (cases "walk (rd s) (base s) 3 root v") auto
  moreover have "walk (rd s') (base s') 3 root = space_map (walk (rd s) (base s) 3 root) v (leaf p flags)"
    using res by (intro ext) (simp add: space_map_def same_slot_VPAGE)
  moreover have "lacking (rd s') (base s') 3 root =
      (\<lambda>w. min (lacking (rd s) (base s) 3 root w) (level_gap 3 w v))"
    using res by (intro ext) simp
  ultimately show ?thesis by blast
qed

lemma map_leaf_outcome:
  assumes "owns s free" and "tree_ok (rd s) (base s) 3 root free"
  shows "case map_leaf rd wr base alloc remap root (v, p, flags) s of
      Inr s' \<Rightarrow> walk (rd s) (base s) 3 root v = None \<and> lacking (rd s) (base s) 3 root v \<le> length free
    | Inl e \<Rightarrow> if walk (rd s) (base s) 3 root v = None
        then e = nomem \<and> length free < lacking (rd s) (base s) 3 root v else e = remap"
proof (cases "walk (rd s) (base s) 3 root v")
  case None
  from map_level_outcome[OF assms this, where remap = remap and pte = "leaf p flags"] show ?thesis
    using None by (auto simp: map_leaf_def split: if_splits sum.splits)
next
  case (Some e)
  then show ?thesis using map_level_remap[OF Some, where remap = remap] by (simp add: map_leaf_def)
qed

text \<open>A sequence of requests refines \<open>spec_maps\<close>.\<close>

lemma map_leafs_correct:
  "owns s free \<Longrightarrow> tree_ok (rd s) (base s) 3 root free \<Longrightarrow>
   for_each (map_leaf rd wr base alloc remap root) rs s = Inr s' \<Longrightarrow>
   grown rd base owns (demand (map fst rs) (lacking (rd s) (base s) 3 root)) root free s s'
   \<and> spec_maps rs (walk (rd s) (base s) 3 root) = Some (walk (rd s') (base s') 3 root)"
proof (induction rs arbitrary: s free)
  case Nil
  then show ?case by (simp add: grown_def agree_on_def)
next
  case (Cons r rs)
  obtain v p flags where r: "r = (v, p, flags)" by (cases r)
  obtain s1 where s1: "map_leaf rd wr base alloc remap root (v, p, flags) s = Inr s1"
    and rs: "for_each (map_leaf rd wr base alloc remap root) rs s1 = Inr s'"
    using Cons.prems(3) by (auto simp: r bind_eq_Inr)
  note 1 = map_leaf_correct[OF Cons.prems(1,2) s1]
  let ?free = "drop (lacking (rd s) (base s) 3 root v) free"
  have "owns s1 ?free" "tree_ok (rd s1) (base s1) 3 root ?free"
    using 1 by (auto simp: grown_def)
  note 2 = Cons.IH[OF this rs]
  have "grown rd base owns (demand (map fst (r # rs)) (lacking (rd s) (base s) 3 root)) root free s s'"
    using grown_trans[of rd base owns _ root free s s1 _ s'] 1 2 by (simp add: r)
  then show ?case using 1 2 by (simp add: r)
qed

text \<open>It runs to the end exactly when the specification is defined and the free pages suffice.\<close>

lemma map_leafs_total:
  "owns s free \<Longrightarrow> tree_ok (rd s) (base s) 3 root free \<Longrightarrow>
   spec_maps rs (walk (rd s) (base s) 3 root) = Some sp \<Longrightarrow>
   demand (map fst rs) (lacking (rd s) (base s) 3 root) \<le> length free \<Longrightarrow>
   \<exists>s'. for_each (map_leaf rd wr base alloc remap root) rs s = Inr s'"
proof (induction rs arbitrary: s free)
  case Nil
  then show ?case by simp
next
  case (Cons r rs)
  obtain v p flags where r: "r = (v, p, flags)" by (cases r)
  have none: "walk (rd s) (base s) 3 root v = None"
    and sp: "spec_maps rs (space_map (walk (rd s) (base s) 3 root) v (leaf p flags)) = Some sp"
    using Cons.prems(3) by (auto simp: r split: if_splits)
  obtain s1 where s1: "map_leaf rd wr base alloc remap root (v, p, flags) s = Inr s1"
    using map_leaf_outcome[OF Cons.prems(1,2), where remap = remap and v = v and p = p and flags = flags] Cons.prems(4) none
    by (auto simp: r split: sum.splits)
  note 1 = map_leaf_correct[OF Cons.prems(1,2) s1]
  let ?free = "drop (lacking (rd s) (base s) 3 root v) free"
  have "owns s1 ?free" "tree_ok (rd s1) (base s1) 3 root ?free"
    using 1 by (auto simp: grown_def)
  then have "\<exists>s'. for_each (map_leaf rd wr base alloc remap root) rs s1 = Inr s'"
    using 1 sp Cons.prems(4) by (intro Cons.IH) (auto simp: r)
  then show ?case by (simp add: r s1)
qed

text \<open>What stops it: a page requested twice, or no page left for a table.\<close>

lemma map_leafs_stop:
  "owns s free \<Longrightarrow> tree_ok (rd s) (base s) 3 root free \<Longrightarrow>
   for_each (map_leaf rd wr base alloc remap root) rs s = Inl e \<Longrightarrow>
   e = remap \<and> spec_maps rs (walk (rd s) (base s) 3 root) = None
   \<or> e = nomem \<and> length free < demand (map fst rs) (lacking (rd s) (base s) 3 root)"
proof (induction rs arbitrary: s free)
  case Nil
  then show ?case by simp
next
  case (Cons r rs)
  obtain v p flags where r: "r = (v, p, flags)" by (cases r)
  show ?case
  proof (cases "map_leaf rd wr base alloc remap root (v, p, flags) s")
    case (Inl e')
    then show ?thesis
      using map_leaf_outcome[OF Cons.prems(1,2), where remap = remap and v = v and p = p and flags = flags] Cons.prems(3)
      by (auto simp: r split: if_splits)
  next
    case (Inr s1)
    note 1 = map_leaf_correct[OF Cons.prems(1,2) Inr]
    let ?free = "drop (lacking (rd s) (base s) 3 root v) free"
    have "owns s1 ?free" "tree_ok (rd s1) (base s1) 3 root ?free"
      using 1 by (auto simp: grown_def)
    from Cons.IH[OF this] Cons.prems(3) Inr 1 show ?thesis
      by (auto simp: r grown_def)
  qed
qed

end

end
