(* ===== verification/Loader.thy ===== *)
theory Loader
  imports BootData Spaces
begin

text \<open>
  The boot page tables of \<open>efi/opsys-loader.c\<close>: \<open>allocate_pages\<close> of \<open>efi/efi-wrapper.c\<close>,
  \<open>map_page\<close> (here \<open>boot_map_page\<close>) and \<open>prepare_boot_page_tables\<close>. The loader runs on the
  firmware's identity mapping, so a frame is visible at its own address and the page-table
  library is instantiated with base 0. The firmware's \<open>AllocatePages\<close> is a parameter: a
  function of its own state \<open>'f\<close> that returns an error status or the first page.
\<close>

section \<open>Pages from the firmware\<close>

type_synonym 'f firmware = "EFI_MEMORY_TYPE \<Rightarrow> u64 \<Rightarrow> 'f \<Rightarrow> (u64 + u64) \<times> 'f"

record 'f loader =
  lmem :: mem
  fw :: 'f

definition EFI_ABORTED :: u64 where "EFI_ABORTED = 0x8000000000000015"
definition EFI_OUT_OF_RESOURCES :: u64 where "EFI_OUT_OF_RESOURCES = 0x8000000000000009"

text \<open>\<open>AllocatePages\<close> with the \<open>EXIT_STATUS\<close> every caller has.\<close>

definition AllocatePages ::
  "'f firmware \<Rightarrow> EFI_MEMORY_TYPE \<Rightarrow> u64 \<Rightarrow> 'f loader \<Rightarrow> (u64 \<times> 'f loader) result" where
  "AllocatePages bs type n s =
     (case bs type n (fw s) of
        (Inl Status, _) \<Rightarrow> Inl (Exited Status)
      | (Inr page, f) \<Rightarrow> Inr (page, s\<lparr>fw := f\<rparr>))"

definition allocate_pages :: "'f firmware \<Rightarrow> u64 \<Rightarrow> 'f loader \<Rightarrow> (u64 \<times> 'f loader) result" where
  "allocate_pages bs n s =
     bind (AllocatePages bs EfiLoaderData n s) (\<lambda>(Page, s).
       Inr (Page, s\<lparr>lmem := store_bytes (lmem s) Page (replicate (unat (n * PAGE_SIZE)) 0)\<rparr>))"

section \<open>Page tables\<close>

text \<open>\<open>if (!(*e & PTE_P)) *e = allocate_pages(1) | PTE_P | PTE_RW;\<close>\<close>

definition boot_fill :: "'f firmware \<Rightarrow> u64 \<Rightarrow> 'f loader \<Rightarrow> 'f loader result" where
  "boot_fill bs e s =
     (if load64 (lmem s) e AND PTE_P = 0
      then bind (allocate_pages bs 1 s) (\<lambda>(p, s).
             Inr (s\<lparr>lmem := store64 (lmem s) e (p OR PTE_P OR PTE_RW)\<rparr>))
      else Inr s)"

definition boot_map_page ::
  "'f firmware \<Rightarrow> u64 \<Rightarrow> u64 \<Rightarrow> u64 \<Rightarrow> u64 \<Rightarrow> 'f loader \<Rightarrow> 'f loader result" where
  "boot_map_page bs boot_page_table PPage VPage Flags s =
     (let pml4e = pte_slot boot_page_table (PAGE_LEVEL_INDEX VPage 4) in
      bind (boot_fill bs pml4e s) (\<lambda>s.
      let page_dir_ptr_table = load64 (lmem s) pml4e AND PTE_ADDR_MASK;
          pdpte = pte_slot page_dir_ptr_table (PAGE_LEVEL_INDEX VPage 3) in
      bind (boot_fill bs pdpte s) (\<lambda>s.
      let page_directory = load64 (lmem s) pdpte AND PTE_ADDR_MASK;
          pde = pte_slot page_directory (PAGE_LEVEL_INDEX VPage 2) in
      bind (boot_fill bs pde s) (\<lambda>s.
      let page_table = load64 (lmem s) pde AND PTE_ADDR_MASK;
          pte = pte_slot page_table (PAGE_LEVEL_INDEX VPage 1) in
      if load64 (lmem s) pte AND PTE_P \<noteq> 0 then Inl (Exited EFI_ABORTED)
      else Inr (s\<lparr>lmem := store64 (lmem s) pte (PPage OR PTE_P OR Flags)\<rparr>)))))"

text \<open>The loop that determines the sizes of the regions, one descriptor at a time.\<close>

definition end_of :: "EFI_MEMORY_DESCRIPTOR \<Rightarrow> u64" where
  "end_of Memory = PhysicalStart Memory + NumberOfPages Memory * PAGE_SIZE"

definition size_step ::
  "EFI_MEMORY_DESCRIPTOR list \<Rightarrow> u64 \<Rightarrow> nat \<Rightarrow> bootloader_data \<Rightarrow> bootloader_data" where
  "size_step mm n i b =
     (let Memory = mm ! i;
          b = (if Type Memory = EfiMemoryMappedIO \<or> Type Memory = EfiMemoryMappedIOPortSpace
               then b\<lparr>mmio_size := mmio_size b + NumberOfPages Memory * PAGE_SIZE\<rparr> else b) in
      if of_nat i \<noteq> n - 1 - 2 then b
      else
        let Next = mm ! (i + 1) in
        b\<lparr>paddr_size := end_of Next,
          ram_size := if Type Next = EfiConventionalMemory
            then end_of Memory + NumberOfPages Next * PAGE_SIZE else end_of Next\<rparr>)"

definition compute_regions ::
  "EFI_MEMORY_DESCRIPTOR list \<Rightarrow> u64 \<Rightarrow> bootloader_data \<Rightarrow> bootloader_data" where
  "compute_regions mm n b =
     (let b = fold (size_step mm n) [0..<unat n] (b\<lparr>ram_size := 0, paddr_size := 0, mmio_size := 0\<rparr>);
          b = b\<lparr>paddr_base := KERNEL_BASE - paddr_size b\<rparr>
      in b\<lparr>mmio_base := paddr_base b - mmio_size b\<rparr>)"

text \<open>The bodies of the three mapping loops.\<close>

definition identity_map ::
  "'f firmware \<Rightarrow> u64 \<Rightarrow> EFI_MEMORY_DESCRIPTOR list \<Rightarrow> nat \<Rightarrow> 'f loader \<Rightarrow> 'f loader result" where
  "identity_map bs boot_page_table mm i s =
     (let Memory = mm ! i in
      if Type Memory \<noteq> EfiLoaderCode \<and> Type Memory \<noteq> EfiLoaderData then Inr s
      else for_each (\<lambda>j s.
        let Page = PhysicalStart Memory + PAGE_SIZE * of_nat j;
            Flags = (if Type Memory = EfiLoaderData then PTE_RW else 0)
        in boot_map_page bs boot_page_table Page Page Flags s) [0..<unat (NumberOfPages Memory)] s)"

definition map_free_page ::
  "'f firmware \<Rightarrow> u64 \<Rightarrow> bootloader_data \<Rightarrow> nat \<Rightarrow> 'f loader \<Rightarrow> 'f loader result" where
  "map_free_page bs boot_page_table b i s =
     (let Page = free_memory b + PAGE_SIZE * of_nat i
      in boot_map_page bs boot_page_table Page (paddr_base b + Page) PTE_RW s)"

definition boot_map_segment ::
  "'f firmware \<Rightarrow> u64 \<Rightarrow> Elf64_Phdr list \<Rightarrow> nat \<Rightarrow> 'f loader \<Rightarrow> 'f loader result" where
  "boot_map_segment bs boot_page_table phs i s =
     (let phdr = phs ! i in
      if p_type phdr \<noteq> PT_LOAD then Inr s
      else for_each (\<lambda>j s.
        let PPage = PAGE_BASE (p_paddr phdr) + PAGE_SIZE * of_nat j;
            VPage = PAGE_BASE (p_vaddr phdr) + PAGE_SIZE * of_nat j;
            Flags = (if p_flags phdr AND PF_W \<noteq> 0 then PTE_RW else 0)
        in boot_map_page bs boot_page_table PPage VPage Flags s)
          [0..<unat (NUM_PAGES (p_vaddr phdr) (p_memsz phdr))] s)"

text \<open>
  \<open>bd_at\<close> is the pointer \<open>bootloader_data\<close>, \<open>b\<close> what it points to; the program headers are
  passed as values, they lie in the kernel image, which no page table overlaps.
\<close>

definition prepare_boot_page_tables ::
  "'f firmware \<Rightarrow> EFI_MEMORY_DESCRIPTOR list \<Rightarrow> u64 \<Rightarrow> u64 \<Rightarrow> bootloader_data \<Rightarrow> Elf64_Ehdr \<Rightarrow>
   Elf64_Phdr list \<Rightarrow> 'f loader \<Rightarrow> (u64 \<times> bootloader_data \<times> 'f loader) result" where
  "prepare_boot_page_tables bs mm n bd_at b hdr phs s =
     (let b = compute_regions mm n b in
      bind (allocate_pages bs 1 s) (\<lambda>(boot_page_table, s).
      bind (for_each (identity_map bs boot_page_table mm) [0..<unat n] s) (\<lambda>s.
      bind (boot_map_page bs boot_page_table bd_at (paddr_base b + bd_at) PTE_RW s) (\<lambda>s.
      bind (for_each (map_free_page bs boot_page_table b) [0..<unat (n_pages b)] s) (\<lambda>s.
      let b = b\<lparr>free_memory := paddr_base b + free_memory b\<rparr> in
      bind (for_each (boot_map_segment bs boot_page_table phs) [0..<unat (e_phnum hdr)] s) (\<lambda>s.
      Inr (boot_page_table, b, s)))))))"

section \<open>The firmware's memory as a page store\<close>

text \<open>
  \<open>gives bs st f qs\<close>: asked for single pages of loader data, the firmware in state \<open>f\<close> returns
  the frames \<open>qs\<close> in this order and then the error \<open>st\<close>. A frame lies below \<open>2\<^sup>4\<^sup>8\<close>.
\<close>

fun gives :: "'f firmware \<Rightarrow> u64 \<Rightarrow> 'f \<Rightarrow> u64 list \<Rightarrow> bool" where
  "gives bs st f [] \<longleftrightarrow> fst (bs EfiLoaderData 1 f) = Inl st"
| "gives bs st f (q # qs) \<longleftrightarrow> is_frame q \<and> fst (bs EfiLoaderData 1 f) = Inr q
     \<and> gives bs st (snd (bs EfiLoaderData 1 f)) qs"

definition lrd :: "'f loader \<Rightarrow> u64 \<Rightarrow> u64" where "lrd s a = load64 (lmem s) a"

definition lwr :: "'f loader \<Rightarrow> u64 \<Rightarrow> u64 \<Rightarrow> 'f loader" where
  "lwr s a v = s\<lparr>lmem := store64 (lmem s) a v\<rparr>"

definition lbase :: "'f loader \<Rightarrow> u64" where "lbase s = 0"

definition lowns :: "'f firmware \<Rightarrow> u64 \<Rightarrow> 'f loader \<Rightarrow> u64 list \<Rightarrow> bool" where
  "lowns bs st s qs \<longleftrightarrow> gives bs st (fw s) qs"

lemmas lstore = lrd_def lwr_def lbase_def lowns_def

lemma allocate_given:
  assumes "gives bs st (fw s) (q # qs)"
  shows "\<exists>s'. allocate_pages bs 1 s = Inr (q, s') \<and> gives bs st (fw s') qs
    \<and> is_frame q \<and> is_page q
    \<and> (\<forall>a. aligned8 a \<longrightarrow> lrd s' a = (if PAGE_BASE a = q then 0 else lrd s a))"
proof -
  have q: "is_frame q" "is_page q" using assms by (auto intro: is_frame_is_page)
  obtain f where "bs EfiLoaderData 1 (fw s) = (Inr q, f)" "gives bs st f qs"
    using assms by (cases "bs EfiLoaderData 1 (fw s)") auto
  then show ?thesis
    using q by (simp add: allocate_pages_def AllocatePages_def lrd_def load64_zero_page)
qed

interpretation boot_tables: page_store lrd lwr lbase "allocate_pages bs 1" "lowns bs st" "Exited st"
  for bs :: "'f firmware" and st
proof
  show "lrd (lwr s a v) b = (if a = b then v else lrd s b)" if "aligned8 a" "aligned8 b"
    for s :: "'f loader" and a b v
    using that by (simp add: lstore load64_store64)
  show "lbase (lwr s a v) = lbase s" for s :: "'f loader" and a v
    by (simp add: lstore)
  show "lowns bs st (lwr s a v) free" if "lowns bs st s free" for s :: "'f loader" and free a v
    using that by (simp add: lstore)
  show "\<exists>s'. allocate_pages bs 1 s = Inr (q - lbase s, s') \<and> lowns bs st s' free
      \<and> lbase s' = lbase s \<and> is_frame (q - lbase s) \<and> is_page q
      \<and> (\<forall>a. aligned8 a \<longrightarrow> lrd s' a = (if PAGE_BASE a = q then 0 else lrd s a))"
    if "lowns bs st s (q # free)" for s :: "'f loader" and q free
    using allocate_given[of bs st s q free] that by (simp add: lowns_def lbase_def)
  show "allocate_pages bs 1 s = Inl (Exited st)" if "lowns bs st s []" for s :: "'f loader"
    using that
    by (cases "bs EfiLoaderData 1 (fw s)") (simp add: lowns_def allocate_pages_def AllocatePages_def)
qed

section \<open>Mapping is a sequence of requests\<close>

lemma enter_level_boot:
  "enter_level lrd lwr lbase (allocate_pages bs 1) lvl t v s =
     (let e = pte_slot t (PAGE_LEVEL_INDEX v lvl) in
      bind (boot_fill bs e s) (\<lambda>s. Inr (load64 (lmem s) e AND PTE_ADDR_MASK, s)))"
  by (simp add: enter_level_def boot_fill_def Let_def lstore)

lemma boot_map_page_levels:
  "boot_map_page bs root p v flags s =
     map_level lrd lwr lbase (allocate_pages bs 1) (Exited EFI_ABORTED) 3 root v (leaf p flags) s"
proof -
  have l3: "(3 :: nat) = Suc (Suc (Suc 0))" by simp
  have "Suc (Suc (Suc (Suc 0))) = 4" "Suc (Suc (Suc 0)) = 3" "Suc (Suc 0) = 2" by simp_all
  note nums = this
  show ?thesis
    unfolding l3 map_level.simps unfolding nums
    by (simp add: boot_map_page_def enter_level_boot Let_def bind_assoc leaf_def)
      (simp add: lrd_def lwr_def leaf_def cong: if_cong)
qed

definition boot_request :: "'f firmware \<Rightarrow> u64 \<Rightarrow> request \<Rightarrow> 'f loader \<Rightarrow> 'f loader result" where
  "boot_request bs root = (\<lambda>(v, p, flags). boot_map_page bs root p v flags)"

lemma boot_request_leaf:
  "boot_request bs root = map_leaf lrd lwr lbase (allocate_pages bs 1) (Exited EFI_ABORTED) root"
  by (auto simp: fun_eq_iff boot_request_def map_leaf_def boot_map_page_levels)

definition identity_requests :: "EFI_MEMORY_DESCRIPTOR list \<Rightarrow> nat \<Rightarrow> request list" where
  "identity_requests mm i =
     (let m = mm ! i in
      if Type m \<in> {EfiLoaderCode, EfiLoaderData}
      then range_requests (PhysicalStart m) (PhysicalStart m) (NumberOfPages m)
        (if Type m = EfiLoaderData then PTE_RW else 0)
      else [])"

definition image_requests :: "Elf64_Phdr list \<Rightarrow> nat \<Rightarrow> request list" where
  "image_requests phs i =
     (let ph = phs ! i in
      if p_type ph = PT_LOAD
      then range_requests (PAGE_BASE (p_paddr ph)) (PAGE_BASE (p_vaddr ph))
        (NUM_PAGES (p_vaddr ph) (p_memsz ph)) (if p_flags ph AND PF_W \<noteq> 0 then PTE_RW else 0)
      else [])"

text \<open>The pages that the comment of \<open>prepare_boot_page_tables\<close> lists.\<close>

definition boot_requests ::
  "EFI_MEMORY_DESCRIPTOR list \<Rightarrow> u64 \<Rightarrow> u64 \<Rightarrow> bootloader_data \<Rightarrow> Elf64_Ehdr \<Rightarrow> Elf64_Phdr list \<Rightarrow> request list" where
  "boot_requests mm n bd_at b hdr phs =
     concat (map (identity_requests mm) [0..<unat n])
   @ range_requests bd_at (paddr_base b + bd_at) 1 PTE_RW
   @ range_requests (free_memory b) (paddr_base b + free_memory b) (n_pages b) PTE_RW
   @ concat (map (image_requests phs) [0..<unat (e_phnum hdr)])"

lemma for_each_concat:
  "(\<And>i s. f i s = for_each g (r i) s) \<Longrightarrow> for_each f is s = for_each g (concat (map r is)) s"
  by (induction "is" arbitrary: s) (auto simp: for_each_append bind_def split: sum.splits)

lemma for_each_cong: "(\<And>x s. f x s = g x s) \<Longrightarrow> for_each f xs s = for_each g xs s"
  by (induction xs arbitrary: s) (auto simp: bind_def split: sum.splits)

lemma identity_map_requests:
  "identity_map bs root mm i s = for_each (boot_request bs root) (identity_requests mm i) s"
  by (auto simp: identity_map_def identity_requests_def Let_def range_requests_def for_each_map
      boot_request_def intro!: for_each_cong)

lemma boot_map_segment_requests:
  "boot_map_segment bs root phs i s = for_each (boot_request bs root) (image_requests phs i) s"
  by (auto simp: boot_map_segment_def image_requests_def Let_def range_requests_def for_each_map
      boot_request_def intro!: for_each_cong)

lemma map_free_requests:
  "for_each (map_free_page bs root b) [0..<n] s =
   for_each (boot_request bs root)
     (map (\<lambda>i. (paddr_base b + free_memory b + PAGE_SIZE * of_nat i,
                free_memory b + PAGE_SIZE * of_nat i, PTE_RW)) [0..<n]) s"
  unfolding for_each_map
  by (rule for_each_cong) (simp add: map_free_page_def boot_request_def Let_def add.assoc)

lemma prepare_requests:
  assumes "b1 = compute_regions mm n b"
  shows "prepare_boot_page_tables bs mm n bd_at b hdr phs s =
     bind (allocate_pages bs 1 s) (\<lambda>(root, s).
       bind (for_each (boot_request bs root) (boot_requests mm n bd_at b1 hdr phs) s) (\<lambda>s.
         Inr (root, b1\<lparr>free_memory := paddr_base b1 + free_memory b1\<rparr>, s)))"
proof -
  have one: "boot_map_page bs root bd_at (paddr_base b1 + bd_at) PTE_RW s =
      for_each (boot_request bs root) (range_requests bd_at (paddr_base b1 + bd_at) 1 PTE_RW) s" for root s
    by (simp add: range_requests_def boot_request_def bind_def split: sum.splits)
  show ?thesis
    unfolding prepare_boot_page_tables_def Let_def assms[symmetric] boot_requests_def for_each_append
      one for_each_concat[of "identity_map bs _ mm", OF identity_map_requests]
      for_each_concat[of "boot_map_segment bs _ phs", OF boot_map_segment_requests]
      map_free_requests range_requests_def[of "free_memory b1"]
    by (simp add: bind_assoc)
qed

section \<open>The boot address space\<close>

definition boot_translate :: "'f loader \<Rightarrow> u64 \<Rightarrow> space" where
  "boot_translate s root v = walk (lrd s) 0 3 root v"

definition boot_tables_of :: "'f loader \<Rightarrow> u64 \<Rightarrow> u64 list" where
  "boot_tables_of s root = tabs (lrd s) 0 3 root"

lemma fresh_boot_root:
  assumes "gives bs st (fw s) (root # free)" and "distinct (root # free)"
  shows "\<exists>s1. allocate_pages bs 1 s = Inr (root, s1) \<and> lowns bs st s1 free
    \<and> tree_ok (lrd s1) (lbase s1) 3 root free \<and> walk (lrd s1) (lbase s1) 3 root = (\<lambda>_. None)
    \<and> lacking (lrd s1) (lbase s1) 3 root = (\<lambda>_. 3) \<and> tabs (lrd s1) (lbase s1) 3 root = [root]
    \<and> agree_on (\<lambda>x. x \<noteq> root) (lrd s) (lrd s1)"
proof -
  obtain s1 where s1: "allocate_pages bs 1 s = Inr (root, s1)" "gives bs st (fw s1) free" "is_page root"
    "\<And>a. aligned8 a \<Longrightarrow> lrd s1 a = (if PAGE_BASE a = root then 0 else lrd s a)"
    using allocate_given[OF assms(1)] by auto
  have "aligned8 a \<Longrightarrow> PAGE_BASE a = root \<Longrightarrow> lrd s1 a = 0" for a using s1(4) by simp
  note fresh_root[where free = free and B = "lbase s1", OF this s1(3)]
  moreover have "agree_on (\<lambda>x. x \<noteq> root) (lrd s) (lrd s1)" using s1(4) by (simp add: agree_on_def)
  ultimately show ?thesis using s1 assms(2) by (auto simp: lowns_def)
qed

definition boot_demand ::
  "EFI_MEMORY_DESCRIPTOR list \<Rightarrow> u64 \<Rightarrow> u64 \<Rightarrow> bootloader_data \<Rightarrow> Elf64_Ehdr \<Rightarrow> Elf64_Phdr list \<Rightarrow> nat" where
  "boot_demand mm n bd_at b hdr phs = n_tables (set (map fst (boot_requests mm n bd_at b hdr phs)))"

lemma page_like_empty: "page_like (\<lambda>_. None)"
  by (simp add: page_like_def)

lemma prepare_refines:
  assumes give: "gives bs st (fw s) (root # free)" and dist: "distinct (root # free)"
    and run: "prepare_boot_page_tables bs mm n bd_at b hdr phs s = Inr (r, b', s')"
    and b1: "b1 = compute_regions mm n b"
  shows "r = root \<and> b' = b1\<lparr>free_memory := paddr_base b1 + free_memory b1\<rparr>
    \<and> spec_maps (boot_requests mm n bd_at b1 hdr phs) (\<lambda>_. None) = Some (boot_translate s' root)
    \<and> boot_demand mm n bd_at b1 hdr phs \<le> length free
    \<and> gives bs st (fw s') (drop (boot_demand mm n bd_at b1 hdr phs) free)
    \<and> mset (boot_tables_of s' root @ drop (boot_demand mm n bd_at b1 hdr phs) free) = mset (root # free)
    \<and> agree_on (\<lambda>x. x \<notin> set (root # free)) (lrd s) (lrd s')"
proof -
  obtain s1 where 1: "allocate_pages bs 1 s = Inr (root, s1)" "lowns bs st s1 free"
    "tree_ok (lrd s1) (lbase s1) 3 root free" "walk (lrd s1) (lbase s1) 3 root = (\<lambda>_. None)"
    "lacking (lrd s1) (lbase s1) 3 root = (\<lambda>_. 3)" "tabs (lrd s1) (lbase s1) 3 root = [root]"
    "agree_on (\<lambda>x. x \<noteq> root) (lrd s) (lrd s1)"
    using fresh_boot_root[OF give dist] by auto
  have r: "r = root" "b' = b1\<lparr>free_memory := paddr_base b1 + free_memory b1\<rparr>"
    and 2: "for_each (boot_request bs root) (boot_requests mm n bd_at b1 hdr phs) s1 = Inr s'"
    using run 1(1) by (auto simp: prepare_requests[OF b1] bind_eq_Inr)
  note res = boot_tables.map_leafs_correct[OF 1(2,3) 2[unfolded boot_request_leaf],
      unfolded 1(4,5) demand_tables, folded boot_demand_def]
  have "agree_on (\<lambda>x. x \<notin> set (root # free)) (lrd s) (lrd s')"
    using res 1(6,7) by (auto simp: grown_def agree_on_def)
  then show ?thesis
    using r res 1(6) by (auto simp: grown_def boot_translate_def[abs_def] boot_tables_of_def lowns_def lbase_def)
qed

lemma prepare_stops:
  assumes give: "gives bs st (fw s) (root # free)" and dist: "distinct (root # free)"
    and run: "prepare_boot_page_tables bs mm n bd_at b hdr phs s = Inl e"
    and b1: "b1 = compute_regions mm n b"
  shows "e = Exited EFI_ABORTED \<and> spec_maps (boot_requests mm n bd_at b1 hdr phs) (\<lambda>_. None) = None
    \<or> e = Exited st \<and> length free < boot_demand mm n bd_at b1 hdr phs"
proof -
  obtain s1 where 1: "allocate_pages bs 1 s = Inr (root, s1)" "lowns bs st s1 free"
    "tree_ok (lrd s1) (lbase s1) 3 root free" "walk (lrd s1) (lbase s1) 3 root = (\<lambda>_. None)"
    "lacking (lrd s1) (lbase s1) 3 root = (\<lambda>_. 3)"
    using fresh_boot_root[OF give dist] by auto
  have 2: "for_each (boot_request bs root) (boot_requests mm n bd_at b1 hdr phs) s1 = Inl e"
    using run 1(1) by (auto simp: prepare_requests[OF b1] bind_eq_Inl)
  show ?thesis
    using boot_tables.map_leafs_stop[OF 1(2,3) 2[unfolded boot_request_leaf],
      unfolded 1(4,5) demand_tables, folded boot_demand_def] .
qed

text \<open>The regions of the new address space: the direct map ends where the kernel begins.\<close>

lemma size_loop:
  "mmio_size (fold (size_step mm n) is b) = mmio_size b
     + sum_list (map (\<lambda>i. if Type (mm ! i) = EfiMemoryMappedIO \<or> Type (mm ! i) = EfiMemoryMappedIOPortSpace
         then NumberOfPages (mm ! i) * PAGE_SIZE else 0) is)"
  "paddr_size (fold (size_step mm n) is b) =
     (if \<exists>i \<in> set is. of_nat i = n - 3 then end_of (mm ! Suc (last (filter (\<lambda>i. of_nat i = n - 3) is)))
      else paddr_size b)"
  by (induction "is" arbitrary: b) (auto simp: size_step_def Let_def filter_empty_conv)

lemma compute_regions_layout:
  "paddr_base (compute_regions mm n b) + paddr_size (compute_regions mm n b) = KERNEL_BASE"
  "mmio_base (compute_regions mm n b) + mmio_size (compute_regions mm n b) =
     paddr_base (compute_regions mm n b)"
  "mmio_size (compute_regions mm n b) =
     sum_list (map (\<lambda>i. if Type (mm ! i) = EfiMemoryMappedIO \<or> Type (mm ! i) = EfiMemoryMappedIOPortSpace
         then NumberOfPages (mm ! i) * PAGE_SIZE else 0) [0..<unat n])"
  by (simp_all add: compute_regions_def Let_def size_loop)

lemma size_step_keeps:
  "free_memory (size_step mm n i b) = free_memory b" "n_pages (size_step mm n i b) = n_pages b"
  by (simp_all add: size_step_def Let_def)

lemma size_loop_keeps:
  "free_memory (fold (size_step mm n) is b) = free_memory b"
  "n_pages (fold (size_step mm n) is b) = n_pages b"
  by (induction "is" arbitrary: b) (simp_all add: size_step_keeps)

lemma compute_regions_keeps:
  "free_memory (compute_regions mm n b) = free_memory b" "n_pages (compute_regions mm n b) = n_pages b"
  by (simp_all add: compute_regions_def Let_def size_loop_keeps)

lemma compute_regions_paddr:
  assumes "3 \<le> unat n"
  shows "paddr_size (compute_regions mm n b) = end_of (mm ! (unat n - 2))"
proof -
  have i: "(of_nat i = n - 3) = (i = unat n - 3)" if "i < unat n" for i
  proof -
    have "unat (n - 3) = unat n - 3" using assms by (simp add: unat_sub word_le_nat_alt)
    moreover have "unat (of_nat i :: u64) = i"
      using that unat_lt64[of n] by (intro unat_of_nat64) linarith
    ultimately show ?thesis by (metis word_unat_eq_iff)
  qed
  have "filter (\<lambda>i. of_nat i = n - 3) [0..<unat n] = filter (\<lambda>i. i = unat n - 3) [0..<unat n]"
    by (rule filter_cong) (auto simp: i)
  moreover have "unat n - 3 \<in> set [0..<unat n]" using assms by auto
  moreover have "last (filter (\<lambda>i. i = k) xs) = k" if "k \<in> set xs" for k and xs :: "nat list"
  proof -
    have "last (filter (\<lambda>i. i = k) xs) \<in> set (filter (\<lambda>i. i = k) xs)"
      using that by (intro last_in_set) (auto simp: filter_empty_conv)
    then show ?thesis by auto
  qed
  ultimately have "last (filter (\<lambda>i. of_nat i = n - 3) [0..<unat n]) = unat n - 3" by simp
  moreover have "\<exists>i \<in> set [0..<unat n]. of_nat i = n - 3"
    using assms by (intro bexI[of _ "unat n - 3"]) (auto simp: i)
  moreover have "Suc (unat n - 3) = unat n - 2" using assms by simp
  ultimately show ?thesis by (simp add: compute_regions_def Let_def size_loop)
qed

section \<open>Properties\<close>

text \<open>C7: When \<open>prepare_boot_page_tables\<close> returns, the boot page tables map exactly what its
  comments list: the loader's segments to themselves (writable when they hold data), the boot
  data and the free pages at their place in the direct map, and the loadable kernel segments
  at their linked addresses with their write flag; no other address is mapped. The tables are
  the root and the frames the firmware gave next, and no other memory is written. The direct
  map ends at \<open>KERNEL_BASE\<close>, the device region lies directly below it, and \<open>free_memory\<close> now
  is a direct-map address.\<close>

theorem boot_page_tables_map:
  assumes "gives bs st (fw s) (root # free)" and "distinct (root # free)"
    and "prepare_boot_page_tables bs mm n bd_at b hdr phs s = Inr (r, b', s')"
    and "b1 = compute_regions mm n b" and "rs = boot_requests mm n bd_at b1 hdr phs"
  shows "r = root
    \<and> (\<forall>(v, p, flags) \<in> set rs. boot_translate s' root v = Some (p OR PTE_P OR flags))
    \<and> (\<forall>w. VPAGE w \<notin> set (vpages rs) \<longrightarrow> boot_translate s' root w = None)
    \<and> mset (boot_tables_of s' root @ drop (n_tables (set (map fst rs))) free) = mset (root # free)
    \<and> (\<forall>a. aligned8 a \<longrightarrow> PAGE_BASE a \<notin> set (root # free) \<longrightarrow> load64 (lmem s') a = load64 (lmem s) a)
    \<and> b' = b1\<lparr>free_memory := paddr_base b' + free_memory b\<rparr>
    \<and> paddr_base b' + paddr_size b' = KERNEL_BASE \<and> mmio_base b' + mmio_size b' = paddr_base b'"
proof -
  note res = prepare_refines[OF assms(1-4), folded assms(5)]
  then have maps: "spec_maps rs (\<lambda>_. None) = Some (boot_translate s' root)" by blast
  note m = spec_maps_result[OF page_like_empty maps]
  have "free_memory b1 = free_memory b" by (simp add: assms(4) compute_regions_keeps)
  then show ?thesis
    using res m compute_regions_layout[of mm n b]
    by (auto simp: boot_demand_def assms(4,5) agree_on_def lrd_def leaf_def)
qed

text \<open>A firmware with 20 free frames, and a kernel linked at \<open>KERNEL_BASE\<close>.\<close>

definition sample_firmware :: "u64 list firmware" where
  "sample_firmware type n f = (case f of [] \<Rightarrow> (Inl EFI_OUT_OF_RESOURCES, []) | q # qs \<Rightarrow> (Inr q, qs))"

definition sample_descriptors :: "EFI_MEMORY_DESCRIPTOR list" where
  "sample_descriptors = map (\<lambda>(t, p, n, a). \<lparr>Type = t, PhysicalStart = p, VirtualStart = 0,
       NumberOfPages = n, Attribute = a\<rparr>)
     [(EfiBootServicesCode, 0, 1, 15), (EfiConventionalMemory, 0x1000, 0xff, 15),
      (EfiLoaderCode, 0x100000, 2, 15), (EfiLoaderData, 0x102000, 6, 15),
      (EfiConventionalMemory, 0x108000, 0x1ef8, 15), (EfiMemoryMappedIO, 0xfee00000, 1, EFI_MEMORY_RUNTIME)]"

definition sample_frames :: "u64 list" where
  "sample_frames = map (\<lambda>i. 0x300000 + 0x1000 * of_nat i) [0..<20]"

definition sample_loader :: "u64 list loader" where
  "sample_loader = \<lparr>lmem = (\<lambda>_. 0), fw = 0x2ff000 # sample_frames\<rparr>"

definition sample_loader_data :: bootloader_data where
  "sample_loader_data = sample_data\<lparr>free_memory := 0x104000, n_pages := 4\<rparr>"

lemma sample_gives: "gives sample_firmware EFI_OUT_OF_RESOURCES (fw sample_loader) (0x2ff000 # sample_frames)"
proof -
  have "gives sample_firmware EFI_OUT_OF_RESOURCES qs qs" if "\<forall>q \<in> set qs. is_frame q" for qs
    using that by (induction qs) (auto simp: sample_firmware_def)
  moreover have "\<forall>q \<in> set (0x2ff000 # sample_frames). is_frame q"
    by (simp add: sample_frames_def upt_rec is_frame_def PTE_ADDR_MASK_def)
  ultimately have "gives sample_firmware EFI_OUT_OF_RESOURCES (0x2ff000 # sample_frames) (0x2ff000 # sample_frames)"
    by blast
  then show ?thesis by (simp add: sample_loader_def del: gives.simps)
qed

lemma sample_frames_distinct: "distinct (0x2ff000 # sample_frames)"
  by (simp add: sample_frames_def upt_rec)

definition sample_boot_requests :: "request list" where
  "sample_boot_requests = boot_requests sample_descriptors 6 0x102000
     (compute_regions sample_descriptors 6 sample_loader_data) (ehdr sample_data) sample_phdrs"

lemma sample_regions:
  "paddr_base (compute_regions sample_descriptors 6 sample_loader_data) = 0xffffffffbe000000"
proof -
  have "paddr_size (compute_regions sample_descriptors 6 sample_loader_data) = 0x2000000"
    by (simp add: compute_regions_paddr) (simp add: sample_descriptors_def end_of_def PAGE_SIZE_def)
  then show ?thesis
    using compute_regions_layout(1)[of sample_descriptors 6 sample_loader_data]
    by (simp add: KERNEL_BASE_def eq_diff_eq[symmetric])
qed

lemma sample_boot_requests_list: "sample_boot_requests =
  [(0x100000, 0x100000, 0), (0x101000, 0x101000, 0),
   (0x102000, 0x102000, PTE_RW), (0x103000, 0x103000, PTE_RW), (0x104000, 0x104000, PTE_RW),
   (0x105000, 0x105000, PTE_RW), (0x106000, 0x106000, PTE_RW), (0x107000, 0x107000, PTE_RW),
   (0xffffffffbe102000, 0x102000, PTE_RW),
   (0xffffffffbe104000, 0x104000, PTE_RW), (0xffffffffbe105000, 0x105000, PTE_RW),
   (0xffffffffbe106000, 0x106000, PTE_RW), (0xffffffffbe107000, 0x107000, PTE_RW),
   (0xffffffffc0000000, 0x200000, 0), (0xffffffffc0001000, 0x201000, 0),
   (0xffffffffc0002000, 0x202000, 0),
   (0xffffffffc0003000, 0x204000, PTE_RW), (0xffffffffc0004000, 0x205000, PTE_RW)]"
proof -
  have img: "image_requests sample_phdrs 0 =
      [(0xffffffffc0000000, 0x200000, 0), (0xffffffffc0001000, 0x201000, 0),
       (0xffffffffc0002000, 0x202000, 0)]"
    "image_requests sample_phdrs 1 =
      [(0xffffffffc0003000, 0x204000, PTE_RW), (0xffffffffc0004000, 0x205000, PTE_RW)]"
    "image_requests sample_phdrs 2 = []"
    by (simp_all add: image_requests_def sample_phdrs_def range_requests_def elf_consts
        NUM_PAGES_def NEXT_PAGE_def PAGE_BASE_def PAGE_SIZE_def upt_rec)
  have ident: "concat (map (identity_requests sample_descriptors) [0..<unat (6 :: u64)]) =
      [(0x100000, 0x100000, 0), (0x101000, 0x101000, 0),
       (0x102000, 0x102000, PTE_RW), (0x103000, 0x103000, PTE_RW), (0x104000, 0x104000, PTE_RW),
       (0x105000, 0x105000, PTE_RW), (0x106000, 0x106000, PTE_RW), (0x107000, 0x107000, PTE_RW)]"
    by (simp add: identity_requests_def sample_descriptors_def range_requests_def upt_rec PAGE_SIZE_def)
  have n: "[0..<unat (e_phnum (ehdr sample_data))] = [0, 1, 2]"
    by (simp add: sample_data_def upt_rec)
  have free: "free_memory (compute_regions sample_descriptors 6 sample_loader_data) = 0x104000"
    "n_pages (compute_regions sample_descriptors 6 sample_loader_data) = 4"
    by (simp_all add: compute_regions_keeps) (simp_all add: sample_loader_data_def)
  have "range_requests 0x102000 (0xffffffffbe000000 + 0x102000) 1 PTE_RW =
      [(0xffffffffbe102000, 0x102000, PTE_RW)]"
    "range_requests 0x104000 (0xffffffffbe000000 + 0x104000) 4 PTE_RW =
      [(0xffffffffbe104000, 0x104000, PTE_RW), (0xffffffffbe105000, 0x105000, PTE_RW),
       (0xffffffffbe106000, 0x106000, PTE_RW), (0xffffffffbe107000, 0x107000, PTE_RW)]"
    by (simp_all add: range_requests_def upt_rec PAGE_SIZE_def)
  then show ?thesis
    by (simp only: sample_boot_requests_def boot_requests_def sample_regions free n ident img
        list.map concat.simps append.simps append_Nil2)
qed

lemma sample_boot_vpages: "distinct (vpages sample_boot_requests)"
  by (simp add: sample_boot_requests_list VPAGE_def PTE_ADDR_MASK_def)

lemma sample_boot_demand: "n_tables (set (map fst sample_boot_requests)) = 8"
  unfolding n_tables_list sample_boot_requests_list
  by (simp add: table_of_def VPAGE_def PTE_ADDR_MASK_def)

text \<open>C17: \<open>prepare_boot_page_tables\<close> returns exactly when no page is mapped twice and the
  firmware has a frame for the root and one for every table the pages need. If a page is
  mapped twice it exits with \<open>EFI_ABORTED\<close>, if frames run out with the firmware's status.\<close>

theorem boot_page_tables_return_iff:
  assumes "gives bs st (fw s) (root # free)" and "distinct (root # free)"
    and "rs = boot_requests mm n bd_at (compute_regions mm n b) hdr phs"
  shows "case prepare_boot_page_tables bs mm n bd_at b hdr phs s of
      Inr (r, b', s') \<Rightarrow> distinct (vpages rs) \<and> n_tables (set (map fst rs)) \<le> length free
    | Inl e \<Rightarrow> e = Exited EFI_ABORTED \<and> \<not> distinct (vpages rs)
        \<or> e = Exited st \<and> length free < n_tables (set (map fst rs))"
proof (cases "prepare_boot_page_tables bs mm n bd_at b hdr phs s")
  case (Inl e)
  have "\<exists>sp. spec_maps rs (\<lambda>_. None) = Some sp" if "distinct (vpages rs)"
    using spec_maps_some[OF page_like_empty that] by simp
  then show ?thesis
    using prepare_stops[OF assms(1,2) Inl refl, folded assms(3)] Inl
    by (auto simp: boot_demand_def assms(3))
next
  case (Inr x)
  obtain r b' s' where x: "x = (r, b', s')" by (cases x)
  note res = prepare_refines[OF assms(1,2) Inr[unfolded x] refl, folded assms(3)]
  then have "spec_maps rs (\<lambda>_. None) = Some (boot_translate s' root)" by blast
  from spec_maps_result[OF page_like_empty this] res show ?thesis
    unfolding Inr x by (simp add: boot_demand_def assms(3))
qed

lemma sample_prepare:
  "\<exists>b' s'. prepare_boot_page_tables sample_firmware sample_descriptors 6 0x102000 sample_loader_data
     (ehdr sample_data) sample_phdrs sample_loader = Inr (0x2ff000, b', s')"
proof (cases "prepare_boot_page_tables sample_firmware sample_descriptors 6 0x102000 sample_loader_data
     (ehdr sample_data) sample_phdrs sample_loader")
  case (Inl e)
  obtain sp where sp: "spec_maps sample_boot_requests (\<lambda>_. None) = Some sp"
    using spec_maps_some[OF page_like_empty sample_boot_vpages] by auto
  have "length sample_frames = 20" by (simp add: sample_frames_def)
  with prepare_stops[OF sample_gives sample_frames_distinct Inl refl] sp sample_boot_demand
  show ?thesis by (simp add: boot_demand_def flip: sample_boot_requests_def)
next
  case (Inr x)
  obtain r b' s' where x: "x = (r, b', s')" by (cases x)
  from prepare_refines[OF sample_gives sample_frames_distinct Inr[unfolded x] refl]
  show ?thesis using Inr x by auto
qed

theorem boot_page_tables_map_witness:
  "\<exists>b' s'. prepare_boot_page_tables sample_firmware sample_descriptors 6 0x102000 sample_loader_data
     (ehdr sample_data) sample_phdrs sample_loader = Inr (0x2ff000, b', s')
   \<and> boot_translate s' 0x2ff000 0xffffffffc0003000 = Some (0x204000 OR PTE_P OR PTE_RW)
   \<and> paddr_base b' + paddr_size b' = KERNEL_BASE"
proof -
  obtain b' s' where run: "prepare_boot_page_tables sample_firmware sample_descriptors 6 0x102000
     sample_loader_data (ehdr sample_data) sample_phdrs sample_loader = Inr (0x2ff000, b', s')"
    using sample_prepare by blast
  have "(0xffffffffc0003000, 0x204000, PTE_RW) \<in> set sample_boot_requests"
    by (simp add: sample_boot_requests_list)
  with boot_page_tables_map[OF sample_gives sample_frames_distinct run refl refl] run show ?thesis
    by (auto simp flip: sample_boot_requests_def)
qed

theorem boot_page_tables_return_iff_witness:
  "\<exists>x. prepare_boot_page_tables sample_firmware sample_descriptors 6 0x102000 sample_loader_data
     (ehdr sample_data) sample_phdrs sample_loader = Inr x"
  using boot_page_tables_return_iff[OF sample_gives sample_frames_distinct sample_boot_requests_def]
    sample_boot_vpages sample_boot_demand
  by (auto simp: sample_frames_def split: sum.splits simp flip: sample_boot_requests_def)

end
