(* ===== verification/KernelImage.thy ===== *)
theory KernelImage
  imports Loader
begin

text \<open>
  Loading the kernel executable: \<open>elf_read\<close> of \<open>efi/efi-readelf.c\<close>, \<open>load_elf_pages\<close> and
  \<open>load_kernel\<close> of \<open>efi/opsys-loader.c\<close>. The firmware's file protocol is a parameter: the
  status of \<open>SetPosition\<close>, and the status and the delivered bytes of \<open>Read\<close> at a position.
  Program headers that live in the loader's own buffer are a list; the copies in the loaded
  image are bytes of the memory.
\<close>

section \<open>Reading the file\<close>

record efi_file =
  SetPosition :: "u64 \<Rightarrow> u64"
  Read :: "u64 \<Rightarrow> u64 \<Rightarrow> u64 \<times> u8 list"

definition EFI_ERROR :: "u64 \<Rightarrow> bool" where
  "EFI_ERROR Status \<longleftrightarrow> bit Status 63"

text \<open>The bytes \<open>elf_read\<close> puts in its buffer. A short read exits with the status of a success.\<close>

definition efi_read :: "efi_file \<Rightarrow> u64 \<Rightarrow> u64 \<Rightarrow> u8 list result" where
  "efi_read File Offset Size =
     (if EFI_ERROR (SetPosition File Offset) then Inl (Exited (SetPosition File Offset))
      else
        let (Status, bytes) = Read File Offset Size in
        if EFI_ERROR Status then Inl (Exited Status)
        else if length bytes \<noteq> unat Size then Inl (Exited Status)
        else Inr bytes)"

definition efi_elf_read :: "efi_file \<Rightarrow> u64 \<Rightarrow> u64 \<Rightarrow> u64 \<Rightarrow> 'f loader \<Rightarrow> 'f loader result" where
  "efi_elf_read File Buffer Offset Size s =
     bind (efi_read File Offset Size) (\<lambda>bytes. Inr (s\<lparr>lmem := store_bytes (lmem s) Buffer bytes\<rparr>))"

text \<open>
  \<open>read_program_headers\<close> of \<open>lib/readelf.c\<close> over this \<open>elf_read\<close>, which never returns an error.
  \<open>pool\<close> tells whether the firmware's \<open>AllocatePool\<close> gives a buffer. Without program headers
  the caller's pointer stays uninitialised, \<open>None\<close>.
\<close>

definition efi_read_program_headers ::
  "(u64 \<Rightarrow> bool) \<Rightarrow> efi_file \<Rightarrow> (Elf64_Ehdr \<times> Elf64_Phdr list option) result" where
  "efi_read_program_headers pool File =
     bind (efi_read File 0 (of_nat sizeof_Ehdr)) (\<lambda>bytes.
       let hdr = decode_Ehdr bytes in
       if \<not> ELF_VERIFY_MAGIC hdr then Inl (Exited EFI_ABORTED)
       else if e_phnum hdr = 0 then Inr (hdr, None)
       else
         let Size = of_nat sizeof_Phdr * ucast (e_phnum hdr) in
         if \<not> pool Size then Inl (Exited EFI_ABORTED)
         else bind (efi_read File (e_phoff hdr) Size) (\<lambda>bytes.
           Inr (hdr, Some (map (array_at decode_Phdr sizeof_Phdr bytes) [0..<unat (e_phnum hdr)]))))"

section \<open>Loading the segments\<close>

definition move_phdr :: "Elf64_Phdr \<Rightarrow> Elf64_Phdr" where
  "move_phdr phdr =
     (if p_type phdr \<noteq> PT_GNU_STACK then phdr\<lparr>p_vaddr := p_vaddr phdr + KERNEL_BASE\<rparr> else phdr)"

definition load_segment ::
  "'f firmware \<Rightarrow> efi_file \<Rightarrow> nat \<Rightarrow> Elf64_Phdr list \<times> 'f loader \<Rightarrow> (Elf64_Phdr list \<times> 'f loader) result" where
  "load_segment bs File i = (\<lambda>(phs, s).
     let phdr = move_phdr (phs ! i) in
     if p_type phdr \<noteq> PT_LOAD then Inr (phs[i := phdr], s)
     else
       bind (AllocatePages bs (if p_flags phdr AND PF_X \<noteq> 0 then EfiLoaderCode else EfiLoaderData)
               (NUM_PAGES (p_vaddr phdr) (p_memsz phdr)) s) (\<lambda>(page, s).
       let phdr = phdr\<lparr>p_paddr := page + PAGE_OFFSET (p_vaddr phdr)\<rparr> in
       bind (efi_elf_read File (p_paddr phdr) (p_offset phdr) (p_filesz phdr) s) (\<lambda>s.
       Inr (phs[i := phdr], s))))"

definition IN_RANGE :: "u64 \<Rightarrow> u64 \<Rightarrow> u64 \<Rightarrow> bool" where
  "IN_RANGE base sz x \<longleftrightarrow> base \<le> x \<and> x < base + sz"

definition holds_segment :: "Elf64_Phdr \<Rightarrow> Elf64_Phdr \<Rightarrow> bool" where
  "holds_segment phdr tmp \<longleftrightarrow> p_type tmp = PT_LOAD
     \<and> IN_RANGE (p_vaddr tmp) (p_memsz tmp) (p_vaddr phdr)
     \<and> IN_RANGE (p_vaddr tmp) (p_memsz tmp) (p_vaddr phdr + p_memsz phdr - 1)"

definition set_paddr :: "nat \<Rightarrow> nat \<Rightarrow> Elf64_Phdr list \<Rightarrow> Elf64_Phdr list" where
  "set_paddr n i phs =
     (let phdr = phs ! i in
      if p_type phdr = PT_LOAD then phs
      else phs[i := phdr\<lparr>p_paddr :=
        (case find (\<lambda>j. holds_segment phdr (phs ! j)) [0..<n] of
           None \<Rightarrow> 0
         | Some j \<Rightarrow> PAGE_OFFSET (p_vaddr phdr) + PAGE_BASE (p_paddr (phs ! j)))\<rparr>])"

definition load_elf_pages ::
  "'f firmware \<Rightarrow> efi_file \<Rightarrow> Elf64_Ehdr \<Rightarrow> Elf64_Phdr list \<Rightarrow> 'f loader \<Rightarrow>
   (Elf64_Phdr list \<times> 'f loader) result" where
  "load_elf_pages bs File hdr phs s =
     (let n = unat (e_phnum hdr) in
      bind (for_each (load_segment bs File) [0..<n] (phs, s)) (\<lambda>(phs, s).
      Inr (fold (set_paddr n) [0..<n] phs, s)))"

text \<open>\<open>load_kernel\<close>; \<open>opened\<close> is the outcome of \<open>RootDir->Open\<close>. The header fields it corrects in
  the image are \<open>e_entry\<close> at offset 24, \<open>p_vaddr\<close> at 16 and \<open>p_paddr\<close> at 24.\<close>

definition fix_phdr :: "Elf64_Phdr list \<Rightarrow> u64 \<Rightarrow> nat \<Rightarrow> mem \<Rightarrow> mem" where
  "fix_phdr phs phdrs_out i m =
     (let phdr_out = phdrs_out + of_nat sizeof_Phdr * of_nat i;
          m = store64 m (phdr_out + 24) (p_paddr (phs ! i))
      in store64 m (phdr_out + 16) (p_vaddr (phs ! i)))"

definition load_kernel ::
  "'f firmware \<Rightarrow> (u64 \<Rightarrow> bool) \<Rightarrow> u64 + efi_file \<Rightarrow> 'f loader \<Rightarrow> (u64 \<times> u64 \<times> 'f loader) result" where
  "load_kernel bs pool opened s =
     (case opened of Inl Status \<Rightarrow> Inl (Exited Status)
      | Inr File \<Rightarrow>
        bind (efi_read_program_headers pool File) (\<lambda>(hdr, phdrs).
        case phdrs of None \<Rightarrow> Inl Undefined
        | Some phs \<Rightarrow>
          bind (load_elf_pages bs File hdr phs s) (\<lambda>(phs, s).
          let first_phdr = phs ! 0 in
          if \<not> (p_type first_phdr = PT_LOAD \<and> p_offset first_phdr = 0) then Inl (Exited EFI_ABORTED)
          else
            let ehdr_out = p_paddr first_phdr;
                phdrs_out = p_paddr first_phdr + load64 (lmem s) (ehdr_out + 32);
                m = store64 (lmem s) (ehdr_out + 24) (load64 (lmem s) (ehdr_out + 24) + KERNEL_BASE);
                m = fold (fix_phdr phs phdrs_out) [0..<unat (e_phnum hdr)] m
            in Inr (ehdr_out, phdrs_out, s\<lparr>lmem := m\<rparr>))))"

section \<open>What the segment loop does\<close>

text \<open>The header and the file bytes of a segment, before and after loading.\<close>

definition same_segment :: "Elf64_Phdr \<Rightarrow> Elf64_Phdr \<Rightarrow> bool" where
  "same_segment phdr phdr' \<longleftrightarrow> phdr' = (move_phdr phdr)\<lparr>p_paddr := p_paddr phdr'\<rparr>"

definition file_part :: "efi_file \<Rightarrow> Elf64_Phdr \<Rightarrow> u8 list" where
  "file_part File phdr = snd (Read File (p_offset phdr) (p_filesz phdr))"

definition put_segment :: "efi_file \<Rightarrow> Elf64_Phdr list \<Rightarrow> nat \<Rightarrow> mem \<Rightarrow> mem" where
  "put_segment File phs i m =
     (if p_type (phs ! i) = PT_LOAD then store_bytes m (p_paddr (phs ! i)) (file_part File (phs ! i)) else m)"

text \<open>
  What the firmware documents of \<open>AllocatePages\<close>: it returns whole pages, and a later
  allocation does not overlap an earlier one. \<open>later f f'\<close>: the firmware reaches state \<open>f'\<close>
  from \<open>f\<close> by serving allocations.
\<close>

definition page_aligned :: "'f firmware \<Rightarrow> bool" where
  "page_aligned bs \<longleftrightarrow> (\<forall>type n f page. fst (bs type n f) = Inr page \<longrightarrow> is_page page)"

inductive later :: "'f firmware \<Rightarrow> 'f \<Rightarrow> 'f \<Rightarrow> bool" for bs where
  same: "later bs f f"
| step: "later bs f f' \<Longrightarrow> bs type n f' = (r, f'') \<Longrightarrow> later bs f f''"

definition separate_given :: "'f firmware \<Rightarrow> bool" where
  "separate_given bs \<longleftrightarrow> (\<forall>type n f page f1 f2 type' n' page' f3 x.
     bs type n f = (Inr page, f1) \<longrightarrow> later bs f1 f2 \<longrightarrow> bs type' n' f2 = (Inr page', f3) \<longrightarrow>
     \<not> (in_region page (4096 * unat n) x \<and> in_region page' (4096 * unat n') x))"

lemma later_trans: "later bs f1 f2 \<Longrightarrow> later bs f f1 \<Longrightarrow> later bs f f2"
  by (induction rule: later.induct) (auto intro: later.step)

lemma page_plus_offset:
  assumes "is_page p"
  shows "PAGE_BASE (p + PAGE_OFFSET v) = p" "PAGE_OFFSET (p + PAGE_OFFSET v) = PAGE_OFFSET v"
proof -
  have p: "bit p k \<Longrightarrow> 12 \<le> k" for k using assms by (auto simp: is_page_bits not_less[symmetric])
  have "\<not> bit p k \<or> \<not> bit (PAGE_OFFSET v) k" for k using p[of k] by (auto simp: bit_PAGE_OFFSET)
  then have or: "p + PAGE_OFFSET v = p OR PAGE_OFFSET v" by (rule disjunctive_add)
  show "PAGE_BASE (p + PAGE_OFFSET v) = p" "PAGE_OFFSET (p + PAGE_OFFSET v) = PAGE_OFFSET v"
    unfolding or word_eq_bits using p by (auto simp: bit_PAGE_BASE bit_PAGE_OFFSET bit_or_iff not_le[symmetric])
qed

text \<open>The pages the firmware gave for a segment.\<close>

definition room :: "Elf64_Phdr \<Rightarrow> u64 \<Rightarrow> bool" where
  "room phdr x \<longleftrightarrow>
     in_region (PAGE_BASE (p_paddr phdr)) (4096 * unat (NUM_PAGES (p_vaddr phdr) (p_memsz phdr))) x"

text \<open>A segment and the allocation that made its room.\<close>

definition roomed :: "'f firmware \<Rightarrow> 'f \<Rightarrow> 'f \<Rightarrow> Elf64_Phdr \<Rightarrow> bool" where
  "roomed bs f f' phdr \<longleftrightarrow> (\<exists>type. bs type (NUM_PAGES (p_vaddr phdr) (p_memsz phdr)) f =
     (Inr (PAGE_BASE (p_paddr phdr)), f'))"

lemma roomed_apart:
  assumes "separate_given bs" and "roomed bs f f1 ph" and "later bs f1 f2" and "roomed bs f2 f3 ph'"
  shows "\<not> (room ph x \<and> room ph' x)"
  using assms unfolding roomed_def room_def separate_given_def by blast

lemma same_segmentD:
  assumes "same_segment phdr phdr'"
  shows "p_type phdr' = p_type phdr" "p_flags phdr' = p_flags phdr" "p_offset phdr' = p_offset phdr"
    "p_filesz phdr' = p_filesz phdr" "p_memsz phdr' = p_memsz phdr"
    "p_vaddr phdr' = (if p_type phdr = PT_GNU_STACK then p_vaddr phdr else p_vaddr phdr + KERNEL_BASE)"
  by (subst assms[unfolded same_segment_def], simp add: move_phdr_def)+

lemma efi_read_Inr:
  "efi_read File off n = Inr bytes \<Longrightarrow> bytes = snd (Read File off n) \<and> length bytes = unat n"
  by (auto simp: efi_read_def Let_def split: if_splits prod.splits)

lemma load_segment_step:
  assumes "load_segment bs File i (phs, s) = Inr (phs', s')" and "i < length phs" and "page_aligned bs"
  shows "\<exists>ph. phs' = phs[i := ph] \<and> same_segment (phs ! i) ph
    \<and> lmem s' = put_segment File phs' i (lmem s)
    \<and> later bs (fw s) (fw s') \<and> (p_type ph = PT_LOAD \<longrightarrow> roomed bs (fw s) (fw s') ph)
    \<and> (p_type ph = PT_LOAD \<longrightarrow> efi_read File (p_offset ph) (p_filesz ph) = Inr (file_part File ph)
        \<and> is_page (p_paddr ph - PAGE_OFFSET (p_vaddr ph)))"
proof (cases "p_type (move_phdr (phs ! i)) = PT_LOAD")
  case False
  then show ?thesis
    using assms
    by (auto simp: load_segment_def Let_def same_segment_def put_segment_def intro: later.same)
next
  case True
  let ?m = "move_phdr (phs ! i)"
  obtain page s1 bytes where
    alloc: "AllocatePages bs (if p_flags ?m AND PF_X \<noteq> 0 then EfiLoaderCode else EfiLoaderData)
        (NUM_PAGES (p_vaddr ?m) (p_memsz ?m)) s = Inr (page, s1)"
    and rd: "efi_read File (p_offset ?m) (p_filesz ?m) = Inr bytes"
    and res: "phs' = phs[i := ?m\<lparr>p_paddr := page + PAGE_OFFSET (p_vaddr ?m)\<rparr>]"
      "s' = s1\<lparr>lmem := store_bytes (lmem s1) (page + PAGE_OFFSET (p_vaddr ?m)) bytes\<rparr>"
    using assms(1) True by (auto simp: load_segment_def Let_def bind_eq_Inr efi_elf_read_def)
  have page: "is_page page" "lmem s1 = lmem s"
    and bs: "\<exists>type. bs type (NUM_PAGES (p_vaddr ?m) (p_memsz ?m)) (fw s) = (Inr page, fw s1)"
    using alloc assms(3) unfolding AllocatePages_def page_aligned_def
    by (auto split: prod.splits sum.splits) (metis fst_conv)
  have "later bs (fw s) (fw s1)" using bs by (auto intro: later.step[OF later.same])
  moreover have "roomed bs (fw s) (fw s1) (?m\<lparr>p_paddr := page + PAGE_OFFSET (p_vaddr ?m)\<rparr>)"
    using bs by (simp add: roomed_def page_plus_offset(1)[OF page(1)])
  ultimately show ?thesis
    using res rd efi_read_Inr[OF rd] True assms(2) page
    by (auto simp: same_segment_def put_segment_def file_part_def)
qed

text \<open>The state of one loaded segment.\<close>

definition loaded :: "efi_file \<Rightarrow> Elf64_Phdr \<Rightarrow> Elf64_Phdr \<Rightarrow> bool" where
  "loaded File ph ph' \<longleftrightarrow> same_segment ph ph' \<and>
     (p_type ph' = PT_LOAD \<longrightarrow> efi_read File (p_offset ph') (p_filesz ph') = Inr (file_part File ph')
        \<and> is_page (p_paddr ph' - PAGE_OFFSET (p_vaddr ph')))"

lemma load_loop:
  "for_each (load_segment bs File) [k..<n] (phs, s) = Inr (phs', s') \<Longrightarrow> n \<le> length phs \<Longrightarrow> page_aligned bs \<Longrightarrow>
   length phs' = length phs
   \<and> (\<forall>i. i < k \<or> n \<le> i \<longrightarrow> phs' ! i = phs ! i)
   \<and> (\<forall>i. k \<le> i \<and> i < n \<longrightarrow> loaded File (phs ! i) (phs' ! i))
   \<and> lmem s' = fold (put_segment File phs') [k..<n] (lmem s)
   \<and> later bs (fw s) (fw s')
   \<and> (\<forall>i. k \<le> i \<and> i < n \<and> p_type (phs' ! i) = PT_LOAD \<longrightarrow>
        (\<exists>f f'. later bs (fw s) f \<and> roomed bs f f' (phs' ! i) \<and> later bs f' (fw s')))
   \<and> (separate_given bs \<longrightarrow> (\<forall>i j x. k \<le> i \<and> i < j \<and> j < n \<and> p_type (phs' ! i) = PT_LOAD
        \<and> p_type (phs' ! j) = PT_LOAD \<longrightarrow> \<not> (room (phs' ! i) x \<and> room (phs' ! j) x)))"
proof (induction "n - k" arbitrary: k phs s)
  case 0
  then show ?case by (auto intro: later.same)
next
  case (Suc d)
  have k: "k < n" using Suc(2) by simp
  obtain phs1 s1 where 1: "load_segment bs File k (phs, s) = Inr (phs1, s1)"
    and 2: "for_each (load_segment bs File) [Suc k..<n] (phs1, s1) = Inr (phs', s')"
    using Suc(3) k by (auto simp: upt_conv_Cons bind_eq_Inr)
  obtain ph where ph: "phs1 = phs[k := ph]" "loaded File (phs ! k) ph"
    "lmem s1 = put_segment File phs1 k (lmem s)" "later bs (fw s) (fw s1)"
    "p_type ph = PT_LOAD \<longrightarrow> roomed bs (fw s) (fw s1) ph"
    using load_segment_step[OF 1 _ Suc(5)] k Suc(4) by (auto simp: loaded_def)
  have IH: "length phs' = length phs" "\<And>i. i < Suc k \<or> n \<le> i \<Longrightarrow> phs' ! i = phs1 ! i"
    "\<And>i. Suc k \<le> i \<Longrightarrow> i < n \<Longrightarrow> loaded File (phs1 ! i) (phs' ! i)"
    "lmem s' = fold (put_segment File phs') [Suc k..<n] (lmem s1)" "later bs (fw s1) (fw s')"
    "\<And>i. Suc k \<le> i \<Longrightarrow> i < n \<Longrightarrow> p_type (phs' ! i) = PT_LOAD \<Longrightarrow>
        \<exists>f f'. later bs (fw s1) f \<and> roomed bs f f' (phs' ! i) \<and> later bs f' (fw s')"
    "\<And>i j x. separate_given bs \<Longrightarrow> Suc k \<le> i \<Longrightarrow> i < j \<Longrightarrow> j < n \<Longrightarrow> p_type (phs' ! i) = PT_LOAD \<Longrightarrow>
        p_type (phs' ! j) = PT_LOAD \<Longrightarrow> \<not> (room (phs' ! i) x \<and> room (phs' ! j) x)"
    using Suc(1)[OF _ 2] Suc(2,4,5) k ph(1) by auto
  have at: "phs' ! k = ph" using IH(2)[of k] ph(1) k Suc(4) by simp
  have "lmem s' = fold (put_segment File phs') [k..<n] (lmem s)"
    using IH(4) ph k Suc(4) at by (simp add: upt_conv_Cons put_segment_def)
  moreover have "phs' ! i = phs ! i" if "i < k \<or> n \<le> i" for i
    using IH(2)[of i] ph(1) k that by auto
  moreover have "loaded File (phs ! i) (phs' ! i)" if i: "k \<le> i" "i < n" for i
    using at ph(1,2) IH(3)[of i] i by (cases "i = k") auto
  moreover have "\<exists>f f'. later bs (fw s) f \<and> roomed bs f f' (phs' ! i) \<and> later bs f' (fw s')"
    if i: "k \<le> i" "i < n" "p_type (phs' ! i) = PT_LOAD" for i
  proof (cases "i = k")
    case True
    then show ?thesis using at ph(5) i(3) IH(5) later.same by metis
  next
    case False
    then show ?thesis using IH(6)[of i] i later_trans[OF _ ph(4)] by fastforce
  qed
  moreover have "\<not> (room (phs' ! i) x \<and> room (phs' ! j) x)"
    if i: "separate_given bs" "k \<le> i" "i < j" "j < n" "p_type (phs' ! i) = PT_LOAD"
      "p_type (phs' ! j) = PT_LOAD" for i j x
  proof (cases "i = k")
    case True
    obtain f f' where "later bs (fw s1) f" "roomed bs f f' (phs' ! j)" using IH(6)[of j] i by auto
    then show ?thesis using roomed_apart[OF i(1)] ph(5) at i(5) True by blast
  next
    case False
    then have "Suc k \<le> i" using i by simp
    then show ?thesis using IH(7) i by blast
  qed
  ultimately show ?case using IH(1) later_trans[OF IH(5) ph(4)] by blast
qed

section \<open>The other program headers\<close>

definition located :: "nat \<Rightarrow> Elf64_Phdr list \<Rightarrow> Elf64_Phdr \<Rightarrow> u64" where
  "located n phs phdr =
     (case find (\<lambda>j. holds_segment phdr (phs ! j)) [0..<n] of
        None \<Rightarrow> 0 | Some j \<Rightarrow> PAGE_OFFSET (p_vaddr phdr) + PAGE_BASE (p_paddr (phs ! j)))"

definition relocated :: "nat \<Rightarrow> Elf64_Phdr list \<Rightarrow> nat \<Rightarrow> Elf64_Phdr" where
  "relocated n phs i =
     (if p_type (phs ! i) = PT_LOAD then phs ! i
      else (phs ! i)\<lparr>p_paddr := located n phs (phs ! i)\<rparr>)"

lemma find_cong: "(\<And>x. x \<in> set xs \<Longrightarrow> P x = Q x) \<Longrightarrow> find P xs = find Q xs"
  by (induction xs) auto

lemma set_paddr_loop:
  assumes "k \<le> n" and "n \<le> length phs"
  shows "fold (set_paddr n) [0..<k] phs = map (relocated n phs) [0..<k] @ drop k phs"
  using assms(1)
proof (induction k)
  case 0
  then show ?case by simp
next
  case (Suc k)
  let ?A = "map (relocated n phs) [0..<k] @ drop k phs"
  have len: "k < length phs" using Suc(2) assms(2) by simp
  have at: "?A ! j = (if j < k then relocated n phs j else phs ! j)" if "j < n" for j
    using that assms(2) by (auto simp: nth_append)
  have holds: "holds_segment ph (?A ! j) = holds_segment ph (phs ! j)"
    and load: "holds_segment ph (phs ! j) \<Longrightarrow> ?A ! j = phs ! j" if "j < n" for ph j
    using at[OF that] by (auto simp: relocated_def holds_segment_def)
  have find: "find (\<lambda>j. holds_segment ph (?A ! j)) [0..<n] = find (\<lambda>j. holds_segment ph (phs ! j)) [0..<n]" for ph
    by (rule find_cong) (simp add: holds)
  have "located n ?A ph = located n phs ph" for ph
  proof (cases "find (\<lambda>j. holds_segment ph (phs ! j)) [0..<n]")
    case None
    then show ?thesis unfolding located_def find by simp
  next
    case (Some j)
    then have "j < n" "holds_segment ph (phs ! j)" by (auto simp: find_Some_iff)
    with Some show ?thesis unfolding located_def find by (simp add: load)
  qed
  moreover have "?A ! k = phs ! k" using at Suc(2) by simp
  ultimately have "set_paddr n k ?A = ?A[k := relocated n phs k]"
    by (simp add: set_paddr_def Let_def relocated_def located_def[symmetric] list_update_same_conv)
      (metis list_update_id)
  moreover have "?A[k := x] = map (relocated n phs) [0..<k] @ x # drop (Suc k) phs" for x
    using len by (simp add: list_update_append Cons_nth_drop_Suc[symmetric])
  ultimately show ?case using Suc by simp
qed

section \<open>The loaded image\<close>

lemma page_difference:
  assumes "PAGE_OFFSET p = PAGE_OFFSET w"
  shows "p + (v - w) = PAGE_OFFSET v + PAGE_BASE p + (PAGE_BASE v - PAGE_BASE w)"
proof -
  have "p + (v - w) = (PAGE_BASE p + PAGE_OFFSET p)
      + ((PAGE_BASE v + PAGE_OFFSET v) - (PAGE_BASE w + PAGE_OFFSET w))"
    by (simp only: PAGE_split)
  also have "\<dots> = PAGE_OFFSET v + PAGE_BASE p + (PAGE_BASE v - PAGE_BASE w)"
    using assms by (simp add: algebra_simps)
  finally show ?thesis .
qed

lemma in_region_sub:
  assumes "in_region (a + of_nat d) k x" and "d + k \<le> n" and "n \<le> 2 ^ 64"
  shows "in_region a n x"
proof -
  have "in_region a (d + k) x" using assms by (subst in_region_add) auto
  then show ?thesis using assms(2) by (simp add: in_region_def)
qed

definition fits :: "Elf64_Phdr \<Rightarrow> bool" where
  "fits phdr \<longleftrightarrow> p_filesz phdr \<le> p_memsz phdr \<and> unat (p_memsz phdr) < 2 ^ 63"

lemma NUM_PAGES_bytes: "4096 * unat (NUM_PAGES base sz) \<le> 2 ^ 64"
proof -
  obtain y where y: "NUM_PAGES base sz = y div PAGE_SIZE" by (simp add: NUM_PAGES_def)
  have "4096 * (unat y div 4096) \<le> unat y" by (rule times_div_less_eq_dividend)
  moreover have "unat (NUM_PAGES base sz) = unat y div 4096"
    by (simp only: y unat_div) (simp add: PAGE_SIZE_def)
  ultimately have "4096 * unat (NUM_PAGES base sz) \<le> 18446744073709551616"
    using unat_lt64[of y] by linarith
  then show ?thesis by simp
qed

lemma file_part_room:
  assumes "fits ph" and "is_page (p_paddr ph - PAGE_OFFSET (p_vaddr ph))"
    and "in_region (p_paddr ph) (unat (p_filesz ph)) x"
  shows "room ph x"
proof -
  let ?o = "PAGE_OFFSET (p_vaddr ph)"
  have base: "PAGE_BASE (p_paddr ph) + of_nat (unat ?o) = p_paddr ph"
    using page_plus_offset(1)[OF assms(2), of "p_vaddr ph"] by simp
  have "unat ?o + unat (p_filesz ph) \<le> 4096 * unat (NUM_PAGES (p_vaddr ph) (p_memsz ph))"
    using NUM_PAGES_covers[of "p_memsz ph" "p_vaddr ph"] assms(1) by (auto simp: fits_def word_le_nat_alt)
  moreover have "4096 * unat (NUM_PAGES (p_vaddr ph) (p_memsz ph)) \<le> 2 ^ 64"
    by (rule NUM_PAGES_bytes)
  moreover have "in_region (PAGE_BASE (p_paddr ph) + of_nat (unat ?o)) (unat (p_filesz ph)) x"
    unfolding base by (rule assms(3))
  ultimately show ?thesis unfolding room_def by (metis in_region_sub)
qed

lemma fold_put_outside:
  "(\<And>j. j \<in> set js \<Longrightarrow> p_type (phs ! j) = PT_LOAD \<Longrightarrow>
      \<not> in_region (p_paddr (phs ! j)) (length (file_part File (phs ! j))) x) \<Longrightarrow>
   fold (put_segment File phs) js m x = m x"
  by (induction js arbitrary: m) (auto simp: put_segment_def store_bytes_outside)

lemma fold_put_inside:
  fixes k :: u64
  assumes "i < n" and "p_type (phs ! i) = PT_LOAD" and "length (file_part File (phs ! i)) = unat k"
    and "\<And>j x. j < n \<Longrightarrow> j \<noteq> i \<Longrightarrow> p_type (phs ! j) = PT_LOAD \<Longrightarrow>
      in_region (p_paddr (phs ! i)) (unat k) x \<Longrightarrow>
      \<not> in_region (p_paddr (phs ! j)) (length (file_part File (phs ! j))) x"
  shows "load_bytes (fold (put_segment File phs) [0..<n] m) (p_paddr (phs ! i)) (unat k) =
    file_part File (phs ! i)"
proof -
  let ?f = "fold (put_segment File phs)"
  let ?m = "store_bytes (?f [0..<i] m) (p_paddr (phs ! i)) (file_part File (phs ! i))"
  have "?f [0..<n] m = ?f [Suc i..<n] ?m"
    using assms(1,2) by (simp add: upt_split put_segment_def)
  moreover have "load_bytes (?f [Suc i..<n] ?m) (p_paddr (phs ! i)) (unat k) =
      load_bytes ?m (p_paddr (phs ! i)) (unat k)"
  proof (intro load_bytes_cong fold_put_outside)
    fix a j
    assume "a < unat k" "j \<in> set [Suc i..<n]" "p_type (phs ! j) = PT_LOAD"
    moreover have "in_region (p_paddr (phs ! i)) (unat k) (p_paddr (phs ! i) + of_nat a)"
      using \<open>a < unat k\<close> by (rule in_region_offset) simp
    ultimately show "\<not> in_region (p_paddr (phs ! j)) (length (file_part File (phs ! j)))
        (p_paddr (phs ! i) + of_nat a)"
      by (intro assms(4)) auto
  qed
  moreover have "load_bytes ?m (p_paddr (phs ! i)) (unat k) = file_part File (phs ! i)"
    using load_store_bytes[of "file_part File (phs ! i)"] assms(3) by simp
  ultimately show ?thesis by simp
qed

lemma load_elf_pages_stages:
  assumes "load_elf_pages bs File hdr phs s = Inr (phs', s')" and "page_aligned bs"
    and "n = unat (e_phnum hdr)" and "n \<le> length phs"
  shows "\<exists>P. phs' = map (relocated n P) [0..<n] @ drop n P \<and> length P = length phs
    \<and> (\<forall>i < n. loaded File (phs ! i) (P ! i))
    \<and> lmem s' = fold (put_segment File P) [0..<n] (lmem s) \<and> later bs (fw s) (fw s')
    \<and> (\<forall>i < n. p_type (P ! i) = PT_LOAD \<longrightarrow>
        (\<exists>f f'. later bs (fw s) f \<and> roomed bs f f' (P ! i) \<and> later bs f' (fw s')))
    \<and> (separate_given bs \<longrightarrow> (\<forall>i j x. i < j \<and> j < n \<and> p_type (P ! i) = PT_LOAD
        \<and> p_type (P ! j) = PT_LOAD \<longrightarrow> \<not> (room (P ! i) x \<and> room (P ! j) x)))"
proof -
  obtain P where P: "for_each (load_segment bs File) [0..<n] (phs, s) = Inr (P, s')"
    and phs': "phs' = fold (set_paddr n) [0..<n] P"
    using assms(1,3) by (auto simp: load_elf_pages_def Let_def bind_eq_Inr)
  note loop = load_loop[OF P assms(4,2)]
  then have "fold (set_paddr n) [0..<n] P = map (relocated n P) [0..<n] @ drop n P"
    using assms(4) by (intro set_paddr_loop) auto
  then show ?thesis using phs' loop by auto
qed

lemma loadedD:
  assumes "loaded File ph ph'"
  shows "same_segment ph ph'"
    and "p_type ph' = PT_LOAD \<Longrightarrow> length (file_part File ph') = unat (p_filesz ph')"
    and "p_type ph' = PT_LOAD \<Longrightarrow> is_page (p_paddr ph' - PAGE_OFFSET (p_vaddr ph'))"
    and "p_type ph' = PT_LOAD \<Longrightarrow> efi_read File (p_offset ph') (p_filesz ph') = Inr (file_part File ph')"
  using assms efi_read_Inr by (auto simp: loaded_def)

text \<open>The rooms of the segments: when the firmware gave them, and that they are apart.\<close>

lemma load_elf_pages_rooms:
  assumes "load_elf_pages bs File hdr phs s = Inr (phs', s')" and "page_aligned bs"
    and "n = unat (e_phnum hdr)" and "n \<le> length phs" and "separate_given bs"
  shows "\<forall>i < n. p_type (phs ! i) = PT_LOAD \<longrightarrow>
      (\<exists>f f'. later bs (fw s) f \<and> roomed bs f f' (phs' ! i) \<and> later bs f' (fw s'))"
    and "\<forall>i j x. i \<noteq> j \<and> i < n \<and> j < n \<and> p_type (phs ! i) = PT_LOAD \<and> p_type (phs ! j) = PT_LOAD \<longrightarrow>
      \<not> (room (phs' ! i) x \<and> room (phs' ! j) x)"
proof -
  obtain P where phs': "phs' = map (relocated n P) [0..<n] @ drop n P"
    and ld: "\<And>i. i < n \<Longrightarrow> loaded File (phs ! i) (P ! i)"
    and rooms: "\<And>i. i < n \<Longrightarrow> p_type (P ! i) = PT_LOAD \<Longrightarrow>
        \<exists>f f'. later bs (fw s) f \<and> roomed bs f f' (P ! i) \<and> later bs f' (fw s')"
    and sep: "\<And>i j x. i < j \<Longrightarrow> j < n \<Longrightarrow> p_type (P ! i) = PT_LOAD \<Longrightarrow> p_type (P ! j) = PT_LOAD \<Longrightarrow>
      \<not> (room (P ! i) x \<and> room (P ! j) x)"
    using load_elf_pages_stages[OF assms(1-4)] assms(5) by blast
  have at: "phs' ! i = P ! i" "p_type (P ! i) = PT_LOAD" if "i < n" "p_type (phs ! i) = PT_LOAD" for i
  proof -
    show "p_type (P ! i) = PT_LOAD" using same_segmentD(1)[OF loadedD(1)[OF ld[OF that(1)]]] that(2) by simp
    then show "phs' ! i = P ! i" using that(1) by (simp add: phs' nth_append relocated_def)
  qed
  show "\<forall>i < n. p_type (phs ! i) = PT_LOAD \<longrightarrow>
      (\<exists>f f'. later bs (fw s) f \<and> roomed bs f f' (phs' ! i) \<and> later bs f' (fw s'))"
    using rooms at by auto
  show "\<forall>i j x. i \<noteq> j \<and> i < n \<and> j < n \<and> p_type (phs ! i) = PT_LOAD \<and> p_type (phs ! j) = PT_LOAD \<longrightarrow>
      \<not> (room (phs' ! i) x \<and> room (phs' ! j) x)"
    using sep at by (metis nat_neq_iff)
qed

lemma load_elf_pages_correct:
  assumes "page_aligned bs" and "load_elf_pages bs File hdr phs s = Inr (phs', s')"
    and "n = unat (e_phnum hdr)" and "n \<le> length phs"
    and "\<And>i. i < n \<Longrightarrow> p_type (phs ! i) = PT_LOAD \<Longrightarrow> fits (phs ! i)"
    and "separate_given bs"
  shows "length phs' = length phs
    \<and> (\<forall>i < n. phs' ! i = (move_phdr (phs ! i))\<lparr>p_paddr := p_paddr (phs' ! i)\<rparr>
        \<and> (p_type (phs ! i) = PT_LOAD \<longrightarrow>
            PAGE_OFFSET (p_paddr (phs' ! i)) = PAGE_OFFSET (p_vaddr (phs' ! i))
          \<and> efi_read File (p_offset (phs ! i)) (p_filesz (phs ! i)) =
              Inr (load_bytes (lmem s') (p_paddr (phs' ! i)) (unat (p_filesz (phs ! i))))))
    \<and> (\<forall>x. (\<forall>i < n. p_type (phs ! i) = PT_LOAD \<longrightarrow> \<not> room (phs' ! i) x) \<longrightarrow> lmem s' x = lmem s x)"
proof -
  obtain P where phs': "phs' = map (relocated n P) [0..<n] @ drop n P" and len: "length P = length phs"
    and ld: "\<And>i. i < n \<Longrightarrow> loaded File (phs ! i) (P ! i)"
    and mem: "lmem s' = fold (put_segment File P) [0..<n] (lmem s)"
    using load_elf_pages_stages[OF assms(2,1,3,4)] by blast
  note seg = loadedD(1)[OF ld] and read = loadedD(4)[OF ld]
  have parts: "length (file_part File (P ! i)) = unat (p_filesz (P ! i))
        \<and> is_page (p_paddr (P ! i) - PAGE_OFFSET (p_vaddr (P ! i)))"
    if "i < n" "p_type (P ! i) = PT_LOAD" for i
    using loadedD(2,3)[OF ld[OF that(1)] that(2)] ..
  have at: "phs' ! i = relocated n P i" if "i < n" for i
    using that by (simp add: phs' nth_append)
  have load: "phs' ! i = P ! i" "p_type (P ! i) = PT_LOAD" "fits (P ! i)"
    if "i < n" "p_type (phs ! i) = PT_LOAD" for i
    using at[OF that(1)] that assms(5)[OF that] same_segmentD[OF seg[OF that(1)]]
    by (simp_all add: relocated_def fits_def)
  have types: "p_type (P ! i) = p_type (phs ! i)" if "i < n" for i
    by (rule same_segmentD(1)[OF seg[OF that]])
  have in_room: "room (phs' ! i) x"
    if "i < n" "p_type (phs ! i) = PT_LOAD" "in_region (p_paddr (P ! i)) (length (file_part File (P ! i))) x" for i x
    using file_part_room[OF load(3)[OF that(1,2)]] parts[OF that(1) load(2)[OF that(1,2)]] that
      load(1)[OF that(1,2)] by simp
  note apart = load_elf_pages_rooms(2)[OF assms(2,1,3,4,6), rule_format]
  have "load_bytes (lmem s') (p_paddr (P ! i)) (unat (p_filesz (P ! i))) = file_part File (P ! i)"
    if i: "i < n" "p_type (phs ! i) = PT_LOAD" for i
    unfolding mem
  proof (rule fold_put_inside[OF i(1) load(2)[OF i]])
    show "length (file_part File (P ! i)) = unat (p_filesz (P ! i))" using parts[OF i(1) load(2)[OF i]] ..
    then show "\<not> in_region (p_paddr (P ! j)) (length (file_part File (P ! j))) x"
      if "j < n" "j \<noteq> i" "p_type (P ! j) = PT_LOAD" "in_region (p_paddr (P ! i)) (unat (p_filesz (P ! i))) x" for j x
      using in_room[OF i, of x] in_room[of j x] apart[of i j x] that i types by auto
  qed
  then have bytes: "efi_read File (p_offset (phs ! i)) (p_filesz (phs ! i)) =
      Inr (load_bytes (lmem s') (p_paddr (phs' ! i)) (unat (p_filesz (phs ! i))))"
    if "i < n" "p_type (phs ! i) = PT_LOAD" for i
    using that load(1)[OF that] same_segmentD(3,4)[OF seg[OF that(1)], symmetric]
      read[OF that(1) load(2)[OF that]] by simp
  have offset: "PAGE_OFFSET (p_paddr (phs' ! i)) = PAGE_OFFSET (p_vaddr (phs' ! i))"
    if "i < n" "p_type (phs ! i) = PT_LOAD" for i
    using page_plus_offset(2)[of "p_paddr (P ! i) - PAGE_OFFSET (p_vaddr (P ! i))" "p_vaddr (P ! i)"]
      parts[OF that(1) load(2)[OF that]] load(1)[OF that] by simp
  have headers: "phs' ! i = (move_phdr (phs ! i))\<lparr>p_paddr := p_paddr (phs' ! i)\<rparr>" if "i < n" for i
  proof -
    have "P ! i = (move_phdr (phs ! i))\<lparr>p_paddr := p_paddr (P ! i)\<rparr>"
      using seg[OF that] by (simp add: same_segment_def)
    then show ?thesis using at[OF that] unfolding relocated_def by (metis Elf64_Phdr.update_convs(5) Elf64_Phdr.surjective Elf64_Phdr.select_convs(5))
  qed
  have outside: "lmem s' x = lmem s x" if "\<forall>i < n. p_type (phs ! i) = PT_LOAD \<longrightarrow> \<not> room (phs' ! i) x" for x
    unfolding mem using that in_room types by (intro fold_put_outside) auto
  have "length phs' = length phs" using assms(4) len by (simp add: phs')
  with bytes offset headers outside show ?thesis by blast
qed

section \<open>Properties\<close>


text \<open>C40: The physical address \<open>load_elf_pages\<close> records for a header that is not loadable (the
  dynamic section, the read-only relocations) is the page offset of its virtual address in the
  first page of the segment that contains it. It is the address where that header's bytes were
  loaded exactly when they lie on the segment's first page; otherwise it is wrong.\<close>

theorem nonload_paddr_misplaced:
  assumes "page_aligned bs" and "load_elf_pages bs File hdr phs s = Inr (phs', s')"
    and "n = unat (e_phnum hdr)" and "n \<le> length phs"
    and "i < n" and "p_type (phs ! i) \<noteq> PT_LOAD"
    and "find (\<lambda>j. holds_segment (phs' ! i) (phs' ! j)) [0..<n] = Some j"
  shows "p_paddr (phs' ! i) = PAGE_OFFSET (p_vaddr (phs' ! i)) + PAGE_BASE (p_paddr (phs' ! j))
    \<and> (p_paddr (phs' ! i) = p_paddr (phs' ! j) + (p_vaddr (phs' ! i) - p_vaddr (phs' ! j)) \<longleftrightarrow>
        PAGE_BASE (p_vaddr (phs' ! i)) = PAGE_BASE (p_vaddr (phs' ! j)))"
proof -
  obtain P where phs': "phs' = map (relocated n P) [0..<n] @ drop n P"
    and seg: "\<And>i. i < n \<Longrightarrow> same_segment (phs ! i) (P ! i)"
    and parts: "\<And>i. i < n \<Longrightarrow> p_type (P ! i) = PT_LOAD \<Longrightarrow>
        is_page (p_paddr (P ! i) - PAGE_OFFSET (p_vaddr (P ! i)))"
    using load_elf_pages_stages[OF assms(2,1,3,4)] loadedD by metis
  have at: "phs' ! k = relocated n P k" if "k < n" for k
    using that by (simp add: phs' nth_append)
  have fields: "p_type (phs' ! k) = p_type (P ! k)" "p_vaddr (phs' ! k) = p_vaddr (P ! k)"
    "p_memsz (phs' ! k) = p_memsz (P ! k)" if "k < n" for k
    using at[OF that] by (simp_all add: relocated_def)
  have i: "p_type (P ! i) \<noteq> PT_LOAD" using assms(6) same_segmentD(1)[OF seg[OF assms(5)]] by simp
  have "find (\<lambda>j. holds_segment (P ! i) (P ! j)) [0..<n] = find (\<lambda>j. holds_segment (phs' ! i) (phs' ! j)) [0..<n]"
    using assms(5) by (intro find_cong) (simp add: holds_segment_def fields)
  then have find: "find (\<lambda>j. holds_segment (P ! i) (P ! j)) [0..<n] = Some j" using assms(7) by simp
  then have j: "j < n" "p_type (P ! j) = PT_LOAD" by (auto simp: find_Some_iff holds_segment_def)
  then have Pj: "phs' ! j = P ! j" using at by (simp add: relocated_def)
  have pa: "p_paddr (phs' ! i) = PAGE_OFFSET (p_vaddr (phs' ! i)) + PAGE_BASE (p_paddr (phs' ! j))"
    using at[OF assms(5)] i find by (simp add: relocated_def located_def Pj)
  have "PAGE_OFFSET (p_paddr (P ! j)) = PAGE_OFFSET (p_vaddr (P ! j))"
    using page_plus_offset(2)[OF parts[OF j], of "p_vaddr (P ! j)"] by simp
  then have "p_paddr (phs' ! j) + (v - p_vaddr (phs' ! j)) =
      PAGE_OFFSET v + PAGE_BASE (p_paddr (phs' ! j)) + (PAGE_BASE v - PAGE_BASE (p_vaddr (phs' ! j)))" for v
    unfolding Pj by (rule page_difference)
  then show ?thesis using pa by auto
qed

text \<open>
  A firmware that hands out 64 pages from \<open>0x100000\<close> upwards, and a kernel file with a text
  segment, a data segment and a dynamic section on the second data page.
\<close>

definition bump_firmware :: "nat firmware" where
  "bump_firmware type n k =
     (if k + unat n \<le> 64 then (Inr (0x100000 + PAGE_SIZE * of_nat k), k + unat n)
      else (Inl EFI_OUT_OF_RESOURCES, k))"

lemma bump_page: "is_page (0x100000 + PAGE_SIZE * of_nat k)"
proof -
  have "4096 dvd uint (PAGE_SIZE * of_nat k)"
    by (simp add: PAGE_SIZE_def uint_word_ariths dvd_mod_iff)
  then show ?thesis
    by (intro is_page_plus) (simp_all add: is_page_dvd)
qed

lemma bump_aligned: "page_aligned bump_firmware"
  by (auto simp: page_aligned_def bump_firmware_def bump_page)

lemma bump_later: "later bump_firmware f f' \<Longrightarrow> f \<le> f'"
  by (induction rule: later.induct) (auto simp: bump_firmware_def split: if_splits)

lemma in_region_shift:
  assumes "in_region (a + of_nat d) n x" and "d + n < 2 ^ 64"
  shows "d \<le> unat (x - a)" and "unat (x - a) < d + n"
proof -
  obtain i where i: "i < n" "x = a + of_nat d + of_nat i" using assms(1) by (rule in_regionE)
  then have "unat (x - a) = unat (of_nat (d + i) :: u64)" by simp
  also have "\<dots> = d + i" using i(1) assms(2) by (intro unat_of_nat64) simp
  finally show "d \<le> unat (x - a)" "unat (x - a) < d + n" using i(1) by simp_all
qed

lemma bump_separate: "separate_given bump_firmware"
  unfolding separate_given_def
proof (intro allI impI notI)
  fix type n f page f1 f2 type' n' page' f3 x
  assume 1: "bump_firmware type n f = (Inr page, f1)" and 2: "later bump_firmware f1 f2"
    and 3: "bump_firmware type' n' f2 = (Inr page', f3)"
    and x: "in_region page (4096 * unat n) x \<and> in_region page' (4096 * unat n') x"
  have f: "f + unat n \<le> 64" "f1 = f + unat n" "page = 0x100000 + of_nat (4096 * f)"
    and f2: "f2 + unat n' \<le> 64" "page' = 0x100000 + of_nat (4096 * f2)"
    using 1 3 by (auto simp: bump_firmware_def PAGE_SIZE_def split: if_splits)
  have "unat (x - 0x100000) < 4096 * f + 4096 * unat n" "4096 * f2 \<le> unat (x - 0x100000)"
    using in_region_shift[of "0x100000" "4096 * f" "4096 * unat n" x]
      in_region_shift[of "0x100000" "4096 * f2" "4096 * unat n'" x] x f f2 by simp_all
  then show False using bump_later[OF 2] f(2) by simp
qed

definition sample_file :: efi_file where
  "sample_file = \<lparr>SetPosition = (\<lambda>_. 0), Read = (\<lambda>_ n. (0, replicate (unat n) 0x90))\<rparr>"

definition file_phdrs :: "Elf64_Phdr list" where
  "file_phdrs =
    [\<lparr>p_type = PT_LOAD, p_flags = 5, p_offset = 0, p_vaddr = 0, p_paddr = 0,
       p_filesz = 0x2800, p_memsz = 0x2800, p_align = 0x1000\<rparr>,
     \<lparr>p_type = PT_LOAD, p_flags = 6, p_offset = 0x3000, p_vaddr = 0x3000, p_paddr = 0x3000,
       p_filesz = 0x1000, p_memsz = 0x1800, p_align = 0x1000\<rparr>,
     \<lparr>p_type = PT_DYNAMIC, p_flags = 6, p_offset = 0x4010, p_vaddr = 0x4010, p_paddr = 0x4010,
       p_filesz = 0x100, p_memsz = 0x100, p_align = 8\<rparr>]"

definition loaded_phdrs :: "Elf64_Phdr list" where
  "loaded_phdrs =
    [(file_phdrs ! 0)\<lparr>p_vaddr := 0xffffffffc0000000, p_paddr := 0x100000\<rparr>,
     (file_phdrs ! 1)\<lparr>p_vaddr := 0xffffffffc0003000, p_paddr := 0x103000\<rparr>,
     (file_phdrs ! 2)\<lparr>p_vaddr := 0xffffffffc0004010, p_paddr := 0x103010\<rparr>]"

definition empty_loader :: "nat loader" where
  "empty_loader = \<lparr>lmem = (\<lambda>_. 0), fw = 0\<rparr>"

lemma sample_n: "unat (e_phnum (ehdr sample_data)) = 3"
  by (simp add: sample_data_def)

lemma sample_segments:
  "\<exists>s'. for_each (load_segment bump_firmware sample_file) [0..<3] (file_phdrs, empty_loader) =
     Inr ((map move_phdr file_phdrs)[0 := loaded_phdrs ! 0, 1 := loaded_phdrs ! 1], s')"
proof -
  have "[0..<3] = [0, 1, 2 :: nat]" by (simp add: upt_rec)
  then show ?thesis
    by (simp add: load_segment_def file_phdrs_def loaded_phdrs_def move_phdr_def elf_consts KERNEL_BASE_def
        AllocatePages_def bump_firmware_def empty_loader_def efi_elf_read_def efi_read_def sample_file_def
        EFI_ERROR_def NUM_PAGES_def NEXT_PAGE_def PAGE_BASE_def PAGE_SIZE_def PAGE_OFFSET_def Let_def)
qed

lemma sample_relocated:
  "fold (set_paddr 3) [0..<3] ((map move_phdr file_phdrs)[0 := loaded_phdrs ! 0, 1 := loaded_phdrs ! 1]) =
   loaded_phdrs"
proof -
  have "[0..<3] = [0, 1, 2 :: nat]" by (simp add: upt_rec)
  then show ?thesis
    by (simp add: set_paddr_def holds_segment_def IN_RANGE_def file_phdrs_def loaded_phdrs_def move_phdr_def
        elf_consts KERNEL_BASE_def PAGE_BASE_def PAGE_SIZE_def PAGE_OFFSET_def Let_def)
qed

lemma sample_load:
  "\<exists>s'. load_elf_pages bump_firmware sample_file (ehdr sample_data) file_phdrs empty_loader =
     Inr (loaded_phdrs, s')"
  using sample_segments sample_relocated by (auto simp: load_elf_pages_def sample_n)


text \<open>The dynamic section of the sample lies at \<open>0x104010\<close>, its header says \<open>0x103010\<close>.\<close>

theorem nonload_paddr_misplaced_witness:
  "\<exists>s'. load_elf_pages bump_firmware sample_file (ehdr sample_data) file_phdrs empty_loader =
      Inr (loaded_phdrs, s')
    \<and> p_paddr (loaded_phdrs ! 2) \<noteq>
        p_paddr (loaded_phdrs ! 1) + (p_vaddr (loaded_phdrs ! 2) - p_vaddr (loaded_phdrs ! 1))"
proof -
  obtain s' where run: "load_elf_pages bump_firmware sample_file (ehdr sample_data) file_phdrs empty_loader =
      Inr (loaded_phdrs, s')" using sample_load by blast
  have n: "3 = unat (e_phnum (ehdr sample_data))" by (simp add: sample_n)
  have "find (\<lambda>j. holds_segment (loaded_phdrs ! 2) (loaded_phdrs ! j)) [0..<3] = Some 1"
    by (simp add: upt_rec holds_segment_def IN_RANGE_def loaded_phdrs_def file_phdrs_def elf_consts)
  with nonload_paddr_misplaced[OF bump_aligned run n, of 2 1] run show ?thesis
    by (auto simp: file_phdrs_def loaded_phdrs_def elf_consts PAGE_BASE_def PAGE_SIZE_def)
qed

end
