(* ===== verification/ImageHeaders.thy ===== *)
theory ImageHeaders
  imports KernelImage
begin

text \<open>
  The headers inside the loaded kernel image. \<open>load_kernel\<close> corrects the copies of the ELF
  header and of the program headers that lie in the first segment; the kernel and the boot
  page tables read those copies. The proofs follow the bytes of the segment as a list.
\<close>

section \<open>Overwriting part of a list\<close>

definition overwrite :: "nat \<Rightarrow> 'a list \<Rightarrow> 'a list \<Rightarrow> 'a list" where
  "overwrite d ys xs = take d xs @ ys @ drop (d + length ys) xs"

lemma length_overwrite [simp]: "d + length ys \<le> length xs \<Longrightarrow> length (overwrite d ys xs) = length xs"
  by (simp add: overwrite_def)

lemma overwrite_nth:
  "d + length ys \<le> length xs \<Longrightarrow> i < length xs \<Longrightarrow>
   overwrite d ys xs ! i = (if d \<le> i \<and> i < d + length ys then ys ! (i - d) else xs ! i)"
  by (auto simp: overwrite_def nth_append)

lemma overwrite_outside:
  assumes "d + length ys \<le> length xs" and "o' + k \<le> d \<or> d + length ys \<le> o'"
  shows "take k (drop o' (overwrite d ys xs)) = take k (drop o' xs)"
  using assms by (intro nth_equalityI) (auto simp: overwrite_nth)

lemma overwrite_inside:
  assumes "d + length ys \<le> length xs" and "o' \<le> d" and "d + length ys \<le> o' + k"
    and "o' + k \<le> length xs"
  shows "take k (drop o' (overwrite d ys xs)) = overwrite (d - o') ys (take k (drop o' xs))"
  using assms by (intro nth_equalityI) (auto simp: overwrite_nth add.commute)

lemma overwrite_start:
  "d + length ys \<le> length xs \<Longrightarrow> k \<le> d \<Longrightarrow> take k (overwrite d ys xs) = take k xs"
  by (simp add: overwrite_def)

lemma load_bytes_part:
  "d + k \<le> n \<Longrightarrow> load_bytes m (a + of_nat d) k = take k (drop d (load_bytes m a n))"
  by (intro nth_equalityI) (auto simp: load_bytes_def algebra_simps)

lemma load_store_overwrite:
  assumes "d + length bs \<le> n" and "n < 2 ^ 64"
  shows "load_bytes (store_bytes m (a + of_nat d) bs) a n = overwrite d bs (load_bytes m a n)"
proof (intro nth_equalityI)
  fix i assume "i < length (load_bytes (store_bytes m (a + of_nat d) bs) a n)"
  then have i: "i < n" by simp
  have eq: "(a + of_nat i) - (a + of_nat d) = (of_nat i - of_nat d :: u64)" by simp
  have small: "unat (of_nat i :: u64) = i" if "i < 2 ^ 64" for i using that by simp
  have "unat ((a + of_nat i) - (a + of_nat d)) = i - d" if "d \<le> i"
  proof -
    have "(of_nat i - of_nat d :: u64) = of_nat (i - d)" using that by simp
    then show ?thesis unfolding eq using i assms(2) by simp
  qed
  moreover have "length bs \<le> unat ((a + of_nat i) - (a + of_nat d))" if "i < d"
  proof -
    have "(of_nat i - of_nat d :: u64) = - of_nat (d - i)" using that by simp
    moreover have "(- of_nat (d - i) :: u64) = of_nat (18446744073709551616 - (d - i))"
      using assms i by (simp add: of_nat_diff)
    moreover have "unat (of_nat (18446744073709551616 - (d - i)) :: u64) = 18446744073709551616 - (d - i)"
      using that by (intro unat_of_nat64) simp
    ultimately show ?thesis unfolding eq using assms by simp
  qed
  ultimately show "load_bytes (store_bytes m (a + of_nat d) bs) a n ! i =
      overwrite d bs (load_bytes m a n) ! i"
    using i assms by (cases "d \<le> i") (auto simp: overwrite_nth load_bytes_def store_bytes_def)
qed (use assms in simp)

section \<open>Overwriting a field of a header\<close>

lemma field_overwrite_outside:
  "d + length ys \<le> length xs \<Longrightarrow> k + n \<le> d \<or> d + length ys \<le> k \<Longrightarrow>
   field (overwrite d ys xs) k n = field xs k n"
  by (simp add: field_def overwrite_outside)

lemma field_overwrite_here:
  assumes "d + 8 \<le> length xs"
  shows "field (overwrite d (le_bytes 8 (v :: u64)) xs) d 8 = v"
proof -
  have "take 8 (drop d (overwrite d (le_bytes 8 v) xs)) = le_bytes 8 v"
    using assms by (simp add: overwrite_inside overwrite_def)
  then show ?thesis by (simp add: field_def le_word_le_bytes take_bit_word_eq_self)
qed

lemma decode_Ehdr_entry:
  assumes "32 \<le> length bs"
  shows "decode_Ehdr (overwrite 24 (le_bytes 8 v) bs) = (decode_Ehdr bs)\<lparr>e_entry := v\<rparr>"
proof -
  have "take 16 (overwrite 24 (le_bytes 8 v) bs) = take 16 bs"
    using overwrite_outside[of 24 "le_bytes 8 v" bs 0 16] assms by simp
  then show ?thesis
    using assms by (simp add: decode_Ehdr_def field_overwrite_outside field_overwrite_here)
qed

lemma decode_Phdr_addresses:
  assumes "32 \<le> length bs"
  shows "decode_Phdr (overwrite 16 (le_bytes 8 v) bs) = (decode_Phdr bs)\<lparr>p_vaddr := v\<rparr>"
    and "decode_Phdr (overwrite 24 (le_bytes 8 v) bs) = (decode_Phdr bs)\<lparr>p_paddr := v\<rparr>"
  using assms by (simp_all add: decode_Phdr_def field_overwrite_outside field_overwrite_here)

text \<open>The bytes of an image of which the headers are read.\<close>

definition phdr_bytes :: "u8 list \<Rightarrow> nat \<Rightarrow> nat \<Rightarrow> u8 list" where
  "phdr_bytes L ph i = take 56 (drop (ph + 56 * i) L)"

definition patch :: "Elf64_Phdr list \<Rightarrow> nat \<Rightarrow> nat \<Rightarrow> u8 list \<Rightarrow> u8 list" where
  "patch phs ph i L = overwrite (ph + 56 * i + 16) (le_bytes 8 (p_vaddr (phs ! i)))
     (overwrite (ph + 56 * i + 24) (le_bytes 8 (p_paddr (phs ! i))) L)"

lemma patch_loop:
  assumes "ph + 56 * n \<le> length L" and "64 \<le> ph"
  shows "length (fold (patch phs ph) [0..<n] L) = length L
    \<and> take 64 (fold (patch phs ph) [0..<n] L) = take 64 L
    \<and> (\<forall>i. ph + 56 * (i + 1) \<le> length L \<longrightarrow> decode_Phdr (phdr_bytes (fold (patch phs ph) [0..<n] L) ph i) =
        (if i < n then (decode_Phdr (phdr_bytes L ph i))\<lparr>p_vaddr := p_vaddr (phs ! i), p_paddr := p_paddr (phs ! i)\<rparr>
         else decode_Phdr (phdr_bytes L ph i)))"
  using assms(1)
proof (induction n)
  case 0
  then show ?case by simp
next
  case (Suc n)
  let ?M = "fold (patch phs ph) [0..<n] L"
  have IH: "length ?M = length L" "take 64 ?M = take 64 L"
    "ph + 56 * (i + 1) \<le> length L \<Longrightarrow> decode_Phdr (phdr_bytes ?M ph i) =
        (if i < n then (decode_Phdr (phdr_bytes L ph i))\<lparr>p_vaddr := p_vaddr (phs ! i), p_paddr := p_paddr (phs ! i)\<rparr>
         else decode_Phdr (phdr_bytes L ph i))" for i
    using Suc by auto
  have len: "length (patch phs ph n ?M) = length L" using Suc(2) IH(1) by (simp add: patch_def)
  have low: "take 64 (patch phs ph n ?M) = take 64 ?M"
    using Suc(2) IH(1) assms(2) by (simp add: patch_def overwrite_start)
  have other: "phdr_bytes (patch phs ph n ?M) ph i = phdr_bytes ?M ph i" if "i \<noteq> n" for i
  proof -
    have "56 * i + 56 \<le> 56 * n \<or> 56 * n + 56 \<le> 56 * i" using that by linarith
    then show ?thesis
      using Suc(2) IH(1) by (auto simp: patch_def phdr_bytes_def overwrite_outside)
  qed
  have this_one: "decode_Phdr (phdr_bytes (patch phs ph n ?M) ph n) =
      (decode_Phdr (phdr_bytes ?M ph n))\<lparr>p_vaddr := p_vaddr (phs ! n), p_paddr := p_paddr (phs ! n)\<rparr>"
    using Suc(2) IH(1)
    by (simp add: patch_def phdr_bytes_def overwrite_inside decode_Phdr_addresses)
  show ?case
    using len low IH other this_one by (auto simp: less_Suc_eq)
qed

section \<open>The headers of the loaded image\<close>

text \<open>The program headers as \<open>prepare_boot_page_tables\<close> reads them from the loaded image.\<close>

definition read_ehdr :: "mem \<Rightarrow> u64 \<Rightarrow> Elf64_Ehdr" where
  "read_ehdr m a = decode_Ehdr (load_bytes m a sizeof_Ehdr)"

definition read_phdrs_at :: "mem \<Rightarrow> u64 \<Rightarrow> nat \<Rightarrow> Elf64_Phdr list" where
  "read_phdrs_at m a n =
     map (\<lambda>i. decode_Phdr (load_bytes m (a + of_nat sizeof_Phdr * of_nat i) sizeof_Phdr)) [0..<n]"

lemma store64_overwrite:
  assumes "d + 8 \<le> n" and "n < 2 ^ 64"
  shows "load_bytes (store64 m (a + of_nat d) v) a n = overwrite d (le_bytes 8 v) (load_bytes m a n)"
  unfolding store64_def using load_store_overwrite[of d "le_bytes 8 v" n m a] assms by simp

lemma fix_loop:
  assumes "ph + 56 * n \<le> k" and "k < 2 ^ 64"
  shows "load_bytes (fold (fix_phdr phs (a + of_nat ph)) [0..<n] m) a k =
    fold (patch phs ph) [0..<n] (load_bytes m a k)"
  using assms(1)
proof (induction n)
  case 0
  then show ?case by simp
next
  case (Suc n)
  let ?m = "fold (fix_phdr phs (a + of_nat ph)) [0..<n] m"
  have at: "a + of_nat ph + of_nat sizeof_Phdr * of_nat n + 24 = a + of_nat (ph + 56 * n + 24)"
    "a + of_nat ph + of_nat sizeof_Phdr * of_nat n + 16 = a + of_nat (ph + 56 * n + 16)"
    by (simp_all add: sizeof_Phdr_def)
  have "load_bytes (fix_phdr phs (a + of_nat ph) n ?m) a k = patch phs ph n (load_bytes ?m a k)"
    unfolding fix_phdr_def Let_def at patch_def
    using Suc(2) assms(2) by (simp add: store64_overwrite del: of_nat_add)
  then show ?case using Suc by simp
qed

text \<open>The corrections stay within the headers.\<close>

lemma store64_within:
  assumes "\<not> in_region a k x" and "d + 8 \<le> k" and "k < 2 ^ 64"
  shows "store64 m (a + of_nat d) v x = m x"
proof (rule store64_outside)
  show "\<not> in_region (a + of_nat d) 8 x" using in_region_sub[of a d 8 x k] assms by auto
qed

lemma fix_outside:
  assumes "\<not> in_region a k x" and "ph + 56 * n \<le> k" and "k < 2 ^ 64"
  shows "fold (fix_phdr phs (a + of_nat ph)) [0..<n] m x = m x"
  using assms(2)
proof (induction n)
  case (Suc n)
  have at: "a + of_nat ph + of_nat sizeof_Phdr * of_nat n + 24 = a + of_nat (ph + 56 * n + 24)"
    "a + of_nat ph + of_nat sizeof_Phdr * of_nat n + 16 = a + of_nat (ph + 56 * n + 16)"
    by (simp_all add: sizeof_Phdr_def)
  have "fix_phdr phs (a + of_nat ph) n m' x = m' x" for m'
    unfolding fix_phdr_def Let_def at
    using Suc(2) store64_within[OF assms(1) _ assms(3)] by (simp del: of_nat_add)
  then show ?case using Suc by simp
qed simp

text \<open>A file with fixed contents: what the file protocol documents of \<open>Read\<close>.\<close>

definition file_has :: "efi_file \<Rightarrow> u8 list \<Rightarrow> bool" where
  "file_has File content \<longleftrightarrow> (\<forall>off n Status bytes. Read File off n = (Status, bytes) \<longrightarrow>
     \<not> EFI_ERROR Status \<longrightarrow> bytes = take (unat n) (drop (unat off) content))"

lemma efi_read_content:
  "file_has File content \<Longrightarrow> efi_read File off n = Inr bytes \<Longrightarrow>
   bytes = take (unat n) (drop (unat off) content) \<and> length bytes = unat n"
  by (auto simp: efi_read_def file_has_def Let_def split: if_splits prod.splits)

definition file_phdr :: "u8 list \<Rightarrow> nat \<Rightarrow> Elf64_Phdr" where
  "file_phdr content i = decode_Phdr (phdr_bytes content (unat (e_phoff (decode_Ehdr (take 64 content)))) i)"

lemma read_program_headers_content:
  assumes "file_has File content" and "efi_read_program_headers pool File = Inr (hdr, Some phs)"
  shows "hdr = decode_Ehdr (take 64 content) \<and> 64 \<le> length content
    \<and> phs = map (file_phdr content) [0..<unat (e_phnum hdr)] \<and> e_phnum hdr \<noteq> 0"
proof -
  obtain hb pb where hb: "efi_read File 0 (of_nat sizeof_Ehdr) = Inr hb" and hdr: "hdr = decode_Ehdr hb"
    and n: "e_phnum hdr \<noteq> 0"
    and pb: "efi_read File (e_phoff hdr) (of_nat sizeof_Phdr * ucast (e_phnum hdr)) = Inr pb"
    and phs: "phs = map (array_at decode_Phdr sizeof_Phdr pb) [0..<unat (e_phnum hdr)]"
    using assms(2) by (auto simp: efi_read_program_headers_def Let_def bind_eq_Inr split: if_splits)
  have hb': "hb = take 64 content" "length hb = 64"
    using efi_read_content[OF assms(1) hb] by (auto simp: sizeof_Ehdr_def)
  have small: "unat (e_phnum hdr) < 65536" using unsigned_less[of "e_phnum hdr", where ?'a = nat] by simp
  then have size: "unat (of_nat sizeof_Phdr * ucast (e_phnum hdr) :: u64) = 56 * unat (e_phnum hdr)"
    by (simp add: sizeof_Phdr_def unat_word_ariths unsigned_ucast_eq take_bit_nat_eq_self)
  have pb': "pb = take (56 * unat (e_phnum hdr)) (drop (unat (e_phoff hdr)) content)"
    using efi_read_content[OF assms(1) pb] unfolding size by simp
  have "array_at decode_Phdr sizeof_Phdr pb i = file_phdr content i" if "i < unat (e_phnum hdr)" for i
  proof -
    have "56 + 56 * i \<le> 56 * unat (e_phnum hdr)" using that by simp
    then have "min 56 (56 * unat (e_phnum hdr) - 56 * i) = 56" by simp
    then show ?thesis
      by (simp add: array_at_def file_phdr_def phdr_bytes_def pb' sizeof_Phdr_def drop_take
          hdr hb' add.commute)
  qed
  then have "phs = map (file_phdr content) [0..<unat (e_phnum hdr)]" by (simp add: phs)
  moreover have "64 \<le> length content" using hb' by simp
  ultimately show ?thesis using hdr hb' n by simp
qed

text \<open>The bytes of the first segment before and after the corrections.\<close>

lemma image_headers:
  assumes L: "load_bytes m a k = take k content" and k: "64 \<le> ph" "ph + 56 * n \<le> k" "k < 2 ^ 64"
    "k \<le> length content"
    and hdr: "hdr = decode_Ehdr (take 64 content)" and ph: "ph = unat (e_phoff hdr)"
    and m1: "m1 = store64 m (a + 24) (load64 m (a + 24) + KERNEL_BASE)"
    and m2: "m2 = fold (fix_phdr phs (a + load64 m (a + 32))) [0..<n] m1"
  shows "load64 m (a + 32) = e_phoff hdr"
    and "read_ehdr m2 a = hdr\<lparr>e_entry := e_entry hdr + KERNEL_BASE\<rparr>"
    and "read_phdrs_at m2 (a + e_phoff hdr) n =
      map (\<lambda>i. (file_phdr content i)\<lparr>p_vaddr := p_vaddr (phs ! i), p_paddr := p_paddr (phs ! i)\<rparr>) [0..<n]"
proof -
  let ?L = "take k content"
  have len: "length ?L = k" using k by simp
  have quad: "load64 m (a + of_nat d) = field (take 64 content) d 8" if "d + 8 \<le> 64" for d
  proof -
    have "load_bytes m (a + of_nat d) 8 = take 8 (drop d ?L)"
      using load_bytes_part[of d 8 k m a] that k L by simp
    also have "\<dots> = take 8 (drop d (take 64 content))" using that k by (simp add: drop_take)
    finally show ?thesis by (simp add: load64_def field_def)
  qed
  show off: "load64 m (a + 32) = e_phoff hdr"
    using quad[of 32] by (simp add: hdr decode_Ehdr_def)
  have entry: "load64 m (a + 24) = e_entry hdr"
    using quad[of 24] by (simp add: hdr decode_Ehdr_def)
  define L1 where "L1 = overwrite 24 (le_bytes 8 (e_entry hdr + KERNEL_BASE)) ?L"
  have L1: "load_bytes m1 a k = L1" "length L1 = k"
    using store64_overwrite[of 24 k m a] k len by (simp_all add: m1 entry L L1_def)
  define L2 where "L2 = fold (patch phs ph) [0..<n] L1"
  have L2: "load_bytes m2 a k = L2"
    unfolding m2 off L2_def using fix_loop[of ph n k phs a m1] k ph L1 by simp
  have k1: "ph + 56 * n \<le> length L1" using k L1(2) by simp
  note loop = patch_loop[OF k1 k(1), of phs, folded L2_def]
  have "load_bytes m2 a 64 = take 64 L2"
    using load_bytes_part[of 0 64 k m2 a] k L2 by simp
  also have "\<dots> = take 64 L1" using loop by blast
  also have "\<dots> = overwrite 24 (le_bytes 8 (e_entry hdr + KERNEL_BASE)) (take 64 content)"
    unfolding L1_def using overwrite_inside[of 24 "le_bytes 8 (e_entry hdr + KERNEL_BASE)" ?L 0 64] k len
    by simp
  finally show "read_ehdr m2 a = hdr\<lparr>e_entry := e_entry hdr + KERNEL_BASE\<rparr>"
    using k by (simp add: read_ehdr_def sizeof_Ehdr_def decode_Ehdr_entry hdr)
  have "decode_Phdr (load_bytes m2 (a + e_phoff hdr + of_nat sizeof_Phdr * of_nat i) sizeof_Phdr) =
      (file_phdr content i)\<lparr>p_vaddr := p_vaddr (phs ! i), p_paddr := p_paddr (phs ! i)\<rparr>" if i: "i < n" for i
  proof -
    have at: "a + e_phoff hdr + of_nat sizeof_Phdr * of_nat i = a + of_nat (ph + 56 * i)"
      by (simp add: ph sizeof_Phdr_def)
    have le: "ph + 56 * i + 56 \<le> k" using i k by simp
    have "load_bytes m2 (a + of_nat (ph + 56 * i)) 56 = phdr_bytes L2 ph i"
      unfolding phdr_bytes_def L2[symmetric] using le by (rule load_bytes_part)
    then have "load_bytes m2 (a + e_phoff hdr + of_nat sizeof_Phdr * of_nat i) sizeof_Phdr = phdr_bytes L2 ph i"
      unfolding at by (simp only: sizeof_Phdr_def)
    moreover have "phdr_bytes L1 ph i = phdr_bytes content ph i"
      using le k len by (simp add: L1_def phdr_bytes_def overwrite_outside drop_take)
    ultimately show ?thesis
      using loop le i L1(2) by (simp add: file_phdr_def hdr ph)
  qed
  then show "read_phdrs_at m2 (a + e_phoff hdr) n =
      map (\<lambda>i. (file_phdr content i)\<lparr>p_vaddr := p_vaddr (phs ! i), p_paddr := p_paddr (phs ! i)\<rparr>) [0..<n]"
    by (simp add: read_phdrs_at_def)
qed

lemma phdr_moved:
  assumes "ph' = (move_phdr ph)\<lparr>p_paddr := p_paddr ph'\<rparr>"
  shows "ph\<lparr>p_vaddr := p_vaddr ph', p_paddr := p_paddr ph'\<rparr> = ph'"
    and "p_type ph' = p_type ph" and "p_offset ph' = p_offset ph"
proof -
  obtain v q where "ph' = ph\<lparr>p_vaddr := v, p_paddr := q\<rparr>"
    using assms by (auto simp: move_phdr_def split: if_splits)
      (metis (no_types) Elf64_Phdr.surjective Elf64_Phdr.update_convs(4))
  then show "ph\<lparr>p_vaddr := p_vaddr ph', p_paddr := p_paddr ph'\<rparr> = ph'"
    and "p_type ph' = p_type ph" and "p_offset ph' = p_offset ph" by simp_all
qed

lemma phdrs_read_back:
  assumes "length phs' = n"
    and "\<And>i. i < n \<Longrightarrow> read_phdrs_at m a n ! i = (phs ! i)\<lparr>p_vaddr := p_vaddr (phs' ! i), p_paddr := p_paddr (phs' ! i)\<rparr>"
    and "\<And>i. i < n \<Longrightarrow> (phs ! i)\<lparr>p_vaddr := p_vaddr (phs' ! i), p_paddr := p_paddr (phs' ! i)\<rparr> = phs' ! i"
  shows "read_phdrs_at m a n = phs'"
  using assms by (intro nth_equalityI) (simp_all add: read_phdrs_at_def)

lemma headers_outside:
  assumes "\<not> in_region a (unat off + 56 * n) x" and "64 \<le> unat off" and "unat off + 56 * n < 2 ^ 64"
    and "q = a + off"
  shows "fold (fix_phdr phs' q) [0..<n] (store64 m (a + 24) v) x = m x"
  using fix_outside[OF assms(1) le_refl assms(3), of phs' "store64 m (a + 24) v"]
    store64_within[OF assms(1), of 24] assms(2,3) by (simp add: assms(4))

lemma load_kernel_correct:
  assumes "page_aligned bs" and "separate_given bs" and has: "file_has File content"
    and run: "load_kernel bs pool (Inr File) s = Inr (ehdr_at, phdrs_at, s')"
    and hdr: "hdr = decode_Ehdr (take 64 content)" and n: "n = unat (e_phnum hdr)"
    and phs: "phs = map (file_phdr content) [0..<n]"
    and fit: "\<And>i. i < n \<Longrightarrow> p_type (phs ! i) = PT_LOAD \<Longrightarrow> fits (phs ! i)"
    and inside: "64 \<le> unat (e_phoff hdr)" "unat (e_phoff hdr) + 56 * n \<le> unat (p_filesz (phs ! 0))"
  shows "\<exists>phs' s1. load_elf_pages bs File hdr phs s = Inr (phs', s1)
    \<and> ehdr_at = p_paddr (phs' ! 0) \<and> phdrs_at = ehdr_at + e_phoff hdr
    \<and> read_ehdr (lmem s') ehdr_at = hdr\<lparr>e_entry := e_entry hdr + KERNEL_BASE\<rparr>
    \<and> read_phdrs_at (lmem s') phdrs_at n = phs' \<and> fw s' = fw s1
    \<and> (\<forall>x. \<not> in_region ehdr_at (unat (e_phoff hdr) + 56 * n) x \<longrightarrow> lmem s' x = lmem s1 x)
    \<and> p_type (phs ! 0) = PT_LOAD \<and> p_offset (phs ! 0) = 0 \<and> 0 < n \<and> length phs' = n"
proof -
  obtain h ps phs' s1 where rd: "efi_read_program_headers pool File = Inr (h, Some ps)"
    and load: "load_elf_pages bs File h ps s = Inr (phs', s1)"
    and first: "p_type (phs' ! 0) = PT_LOAD" "p_offset (phs' ! 0) = 0"
    and res: "ehdr_at = p_paddr (phs' ! 0)" "phdrs_at = ehdr_at + load64 (lmem s1) (ehdr_at + 32)"
      "s' = s1\<lparr>lmem := fold (fix_phdr phs' phdrs_at) [0..<unat (e_phnum h)]
        (store64 (lmem s1) (ehdr_at + 24) (load64 (lmem s1) (ehdr_at + 24) + KERNEL_BASE))\<rparr>"
    using run by (auto simp: load_kernel_def Let_def bind_eq_Inr split: option.splits if_splits)
  from read_program_headers_content[OF has rd]
  have h: "h = hdr" "ps = phs" "64 \<le> length content" "e_phnum hdr \<noteq> 0"
    by (auto simp: hdr phs n)
  have n0: "0 < n" using h(4) by (simp add: n unat_gt_0)
  have len: "n \<le> length phs" by (simp add: phs)
  note load = load[unfolded h]
  note places = load_elf_pages_correct[OF assms(1) load n len fit assms(2)]
  have hd0: "phs' ! i = (move_phdr (phs ! i))\<lparr>p_paddr := p_paddr (phs' ! i)\<rparr>" if "i < n" for i
    using places that by blast
  have t0: "p_type (phs ! 0) = PT_LOAD" "p_offset (phs ! 0) = 0"
    using phdr_moved(2,3)[OF hd0[OF n0]] first by simp_all
  let ?k = "unat (p_filesz (phs ! 0))"
  have "efi_read File 0 (p_filesz (phs ! 0)) = Inr (load_bytes (lmem s1) ehdr_at ?k)"
    using places n0 t0 res(1) by fastforce
  from efi_read_content[OF has this]
  have L: "load_bytes (lmem s1) ehdr_at ?k = take ?k content" by simp
  have kl: "?k \<le> length content" using arg_cong[OF L, of length] by simp
  have small: "?k < 2 ^ 64" by simp
  note im = image_headers[where phs = phs', OF L inside small kl hdr refl refl refl]
  have po: "phdrs_at = ehdr_at + e_phoff hdr" using res(2) im(1) by simp
  have lm: "lmem s' = fold (fix_phdr phs' (ehdr_at + load64 (lmem s1) (ehdr_at + 32))) [0..<n]
      (store64 (lmem s1) (ehdr_at + 24) (load64 (lmem s1) (ehdr_at + 24) + KERNEL_BASE))"
    using res h n by simp
  have "read_phdrs_at (lmem s') phdrs_at n = phs'"
    using im(3)[folded lm] phdr_moved(1)[OF hd0] places
    by (intro phdrs_read_back[where phs = phs]) (simp_all add: po phs)
  moreover have "read_ehdr (lmem s') ehdr_at = hdr\<lparr>e_entry := e_entry hdr + KERNEL_BASE\<rparr>"
    using im(2)[folded lm] .
  moreover have "fw s' = fw s1" using res(3) by simp
  moreover have "lmem s' x = lmem s1 x" if "\<not> in_region ehdr_at (unat (e_phoff hdr) + 56 * n) x" for x
    unfolding lm
  proof (rule headers_outside[OF that inside(1)])
    show "unat (e_phoff hdr) + 56 * n < 2 ^ 64" using inside(2) small by linarith
  qed (simp add: im(1))
  moreover have "length phs' = n" using places by (simp add: phs)
  ultimately show ?thesis using load res(1) po t0 n0 by blast
qed

end
