(* ===== verification/MmapInit.thy ===== *)
theory MmapInit
  imports BootData Paging
begin

text \<open>
  \<open>init_mmap\<close> of \<open>efi/opsys-loader.c\<close>: after \<open>ExitBootServices\<close> the loader retypes the
  segments the firmware no longer needs, merges adjacent segments in place and asks for
  virtual addresses. The array is the list \<open>MemoryMap\<close>; what lies beyond the first
  \<open>NumEntries\<close> elements is stale. \<open>merge\<close> and \<open>assign_virtual\<close> are the reference
  definitions on lists of descriptors that the two loops are shown to compute.
\<close>

section \<open>Operations\<close>

definition reclaim :: "EFI_MEMORY_DESCRIPTOR \<Rightarrow> EFI_MEMORY_DESCRIPTOR" where
  "reclaim Memory =
     (if Type Memory \<noteq> EfiReservedMemoryType
       \<and> Type Memory \<noteq> EfiLoaderCode
       \<and> Type Memory \<noteq> EfiLoaderData
       \<and> Type Memory \<noteq> EfiRuntimeServicesCode
       \<and> Type Memory \<noteq> EfiRuntimeServicesData
       \<and> Type Memory \<noteq> EfiUnusableMemory
       \<and> Type Memory \<noteq> EfiMemoryMappedIO
       \<and> Type Memory \<noteq> EfiMemoryMappedIOPortSpace
      then Memory\<lparr>Type := EfiConventionalMemory\<rparr> else Memory)"

definition can_merge :: "EFI_MEMORY_DESCRIPTOR \<Rightarrow> EFI_MEMORY_DESCRIPTOR \<Rightarrow> bool" where
  "can_merge Prev Memory \<longleftrightarrow> Type Memory = Type Prev \<and> Attribute Memory = Attribute Prev
     \<and> PhysicalStart Memory = PhysicalStart Prev + NumberOfPages Prev * PAGE_SIZE"

definition join :: "EFI_MEMORY_DESCRIPTOR \<Rightarrow> EFI_MEMORY_DESCRIPTOR \<Rightarrow> EFI_MEMORY_DESCRIPTOR" where
  "join Prev Memory = Prev\<lparr>NumberOfPages := NumberOfPages Prev + NumberOfPages Memory\<rparr>"

text \<open>The body of the merging loop; the state is the array, the index of \<open>Prev\<close> and \<open>NewLength\<close>.\<close>

definition merge_step ::
  "nat \<Rightarrow> EFI_MEMORY_DESCRIPTOR list \<times> nat \<times> nat \<Rightarrow> EFI_MEMORY_DESCRIPTOR list \<times> nat \<times> nat" where
  "merge_step i = (\<lambda>(mm, prev, NewLength).
     let mm = mm[i := reclaim (mm ! i)] in
     if can_merge (mm ! prev) (mm ! i)
     then (mm[prev := join (mm ! prev) (mm ! i)], prev, NewLength)
     else (mm[NewLength := mm ! i], NewLength, NewLength + 1))"

definition is_mmio :: "EFI_MEMORY_DESCRIPTOR \<Rightarrow> bool" where
  "is_mmio Memory \<longleftrightarrow> Type Memory = EfiMemoryMappedIO \<or> Type Memory = EfiMemoryMappedIOPortSpace"

definition virtual_step ::
  "u64 \<Rightarrow> nat \<Rightarrow> EFI_MEMORY_DESCRIPTOR list \<times> u64 \<Rightarrow> EFI_MEMORY_DESCRIPTOR list \<times> u64" where
  "virtual_step base i = (\<lambda>(mm, MmioLoadVaddr).
     let Memory = mm ! i in
     if is_mmio Memory
     then (mm[i := Memory\<lparr>VirtualStart := MmioLoadVaddr\<rparr>],
           MmioLoadVaddr + NumberOfPages Memory * PAGE_SIZE)
     else if Attribute Memory AND EFI_MEMORY_RUNTIME \<noteq> 0
     then (mm[i := Memory\<lparr>VirtualStart := PhysicalStart Memory + base\<rparr>], MmioLoadVaddr)
     else (mm, MmioLoadVaddr))"

definition init_mmap :: "bootloader_data \<Rightarrow> bootloader_data result" where
  "init_mmap b =
     (if NumEntries b = 0 then Inl Halted
      else
        let Prev = MemoryMap b ! 0 in
        if Type Prev \<noteq> EfiBootServicesCode \<or> PhysicalStart Prev \<noteq> 0 \<or> NumberOfPages Prev \<noteq> 1
        then Inl Halted
        else
          let mm = (MemoryMap b)[0 := Prev\<lparr>Type := EfiUnusableMemory\<rparr>];
              (mm, _, NewLength) = fold merge_step [1..<unat (NumEntries b)] (mm, 0, 1);
              (mm, _) = fold (virtual_step (paddr_base b)) [0..<NewLength] (mm, mmio_base b)
          in Inr (b\<lparr>NumEntries := of_nat NewLength, MemoryMap := mm\<rparr>))"

section \<open>Reference definitions\<close>

fun merge :: "EFI_MEMORY_DESCRIPTOR \<Rightarrow> EFI_MEMORY_DESCRIPTOR list \<Rightarrow> EFI_MEMORY_DESCRIPTOR list" where
  "merge p [] = [p]"
| "merge p (m # ms) = (if can_merge p m then merge (join p m) ms else p # merge m ms)"

fun assign_virtual ::
  "u64 \<Rightarrow> u64 \<Rightarrow> EFI_MEMORY_DESCRIPTOR list \<Rightarrow> EFI_MEMORY_DESCRIPTOR list" where
  "assign_virtual base vaddr [] = []"
| "assign_virtual base vaddr (m # ms) =
     (if is_mmio m
      then m\<lparr>VirtualStart := vaddr\<rparr> # assign_virtual base (vaddr + NumberOfPages m * PAGE_SIZE) ms
      else (if Attribute m AND EFI_MEMORY_RUNTIME \<noteq> 0
            then m\<lparr>VirtualStart := PhysicalStart m + base\<rparr> else m) # assign_virtual base vaddr ms)"

text \<open>The segments that reach the kernel, before merging.\<close>

definition segments_of :: "bootloader_data \<Rightarrow> EFI_MEMORY_DESCRIPTOR list" where
  "segments_of b = (case take (unat (NumEntries b)) (MemoryMap b) of [] \<Rightarrow> []
     | m # ms \<Rightarrow> m\<lparr>Type := EfiUnusableMemory\<rparr> # map reclaim ms)"

definition accepts_mmap :: "bootloader_data \<Rightarrow> bool" where
  "accepts_mmap b \<longleftrightarrow> NumEntries b \<noteq> 0 \<and> Type (MemoryMap b ! 0) = EfiBootServicesCode
     \<and> PhysicalStart (MemoryMap b ! 0) = 0 \<and> NumberOfPages (MemoryMap b ! 0) = 1"

section \<open>The loops compute the reference definitions\<close>

text \<open>
  In front of index \<open>i\<close> the array holds the finished segments and \<open>Prev\<close>, from \<open>i\<close> on it is
  still what the firmware left.
\<close>

lemma merge_loop:
  assumes "fold merge_step [i..<n] (mm, prev, Suc prev) = (mm', prev', NewLength)"
    and "prev < i" and "i \<le> n" and "n \<le> length mm"
  shows "take NewLength mm' =
      take prev mm @ merge (mm ! prev) (map reclaim (drop i (take n mm)))
    \<and> NewLength \<le> n \<and> length mm' = length mm \<and> 0 < NewLength"
  using assms
proof (induction "n - i" arbitrary: i mm prev)
  case 0
  then show ?case by (auto simp: take_Suc_conv_app_nth)
next
  case (Suc k)
  have i: "i < n" using Suc(2) by simp
  have rest: "map reclaim (drop i (take n mm)) = reclaim (mm ! i) # map reclaim (drop (Suc i) (take n mm))"
    using i Suc(6) by (simp add: Cons_nth_drop_Suc[symmetric])
  define mm1 where "mm1 = mm[i := reclaim (mm ! i)]"
  have 1: "mm1 ! prev = mm ! prev" "mm1 ! i = reclaim (mm ! i)" "length mm1 = length mm"
    using Suc(4) i Suc(6) by (auto simp: mm1_def)
  have tail: "drop (Suc i) (take n mm2) = drop (Suc i) (take n mm)"
    if "mm2 = mm1[j := x]" "j \<le> i" for mm2 j x
    using that by (simp add: mm1_def drop_update_cancel take_update_swap)
  show ?case
  proof (cases "can_merge (mm ! prev) (reclaim (mm ! i))")
    case True
    let ?mm = "mm1[prev := join (mm ! prev) (reclaim (mm ! i))]"
    have "fold merge_step [Suc i..<n] (?mm, prev, Suc prev) = (mm', prev', NewLength)"
      using Suc(3) i True 1 by (simp add: upt_conv_Cons merge_step_def mm1_def[symmetric])
    from Suc(1)[OF _ this] Suc(2,4,6) i 1
    show ?thesis
      by (simp add: rest True tail[OF refl less_imp_le[OF Suc(4)]]) (simp add: mm1_def)
  next
    case False
    let ?mm = "mm1[Suc prev := reclaim (mm ! i)]"
    have "fold merge_step [Suc i..<n] (?mm, Suc prev, Suc (Suc prev)) = (mm', prev', NewLength)"
      using Suc(3) i False 1 by (simp add: upt_conv_Cons merge_step_def mm1_def[symmetric])
    from Suc(1)[OF _ this] Suc(2,4,6) i 1
    show ?thesis
      by (simp add: rest False tail[OF refl Suc_leI[OF Suc(4)]] take_Suc_conv_app_nth)
         (simp add: mm1_def)
  qed
qed

lemma virtual_loop:
  assumes "fold (virtual_step base) [i..<n] (mm, vaddr) = (mm', vaddr')" and "i \<le> n" and "n \<le> length mm"
  shows "take n mm' = take i mm @ assign_virtual base vaddr (drop i (take n mm)) \<and> length mm' = length mm"
  using assms
proof (induction "n - i" arbitrary: i mm vaddr)
  case 0
  then show ?case by simp
next
  case (Suc k)
  have i: "i < n" using Suc(2) by simp
  define m where "m = mm ! i"
  have rest: "drop i (take n mm) = m # drop (Suc i) (take n mm)"
    using i Suc(5) by (simp add: Cons_nth_drop_Suc[symmetric] m_def)
  have tail: "drop (Suc i) (take n (mm[i := x])) = drop (Suc i) (take n mm)"
    "take (Suc i) (mm[i := x]) = take i mm @ [x]" for x
    using i Suc(5) by (simp_all add: drop_update_cancel take_update_swap take_Suc_conv_app_nth
        list_update_append)
  have step: "virtual_step base i (mm, vaddr) = (mm[i := hd (assign_virtual base vaddr [m])],
      if is_mmio m then vaddr + NumberOfPages m * PAGE_SIZE else vaddr)"
    by (auto simp: virtual_step_def Let_def m_def)
  let ?mm = "mm[i := hd (assign_virtual base vaddr [m])]"
  let ?vaddr = "if is_mmio m then vaddr + NumberOfPages m * PAGE_SIZE else vaddr"
  have "fold (virtual_step base) [Suc i..<n] (?mm, ?vaddr) = (mm', vaddr')"
    using Suc(3) i by (simp add: upt_conv_Cons step)
  from Suc(1)[OF _ this] Suc(2,5) i
  show ?case by (simp add: rest tail)
qed

lemma init_mmap_halts: "\<not> accepts_mmap b \<Longrightarrow> init_mmap b = Inl Halted"
  by (auto simp: init_mmap_def accepts_mmap_def Let_def)

lemma init_mmap_eq:
  assumes "accepts_mmap b" and "unat (NumEntries b) \<le> length (MemoryMap b)"
  shows "\<exists>b'. init_mmap b = Inr b'
    \<and> b' = b\<lparr>NumEntries := NumEntries b', MemoryMap := MemoryMap b'\<rparr>
    \<and> NumEntries b' \<le> NumEntries b \<and> length (MemoryMap b') = length (MemoryMap b)
    \<and> take (unat (NumEntries b')) (MemoryMap b') =
        assign_virtual (paddr_base b) (mmio_base b) (merge (hd (segments_of b)) (tl (segments_of b)))"
proof -
  let ?N = "unat (NumEntries b)"
  let ?m0 = "(MemoryMap b ! 0)\<lparr>Type := EfiUnusableMemory\<rparr>"
  let ?mm = "(MemoryMap b)[0 := ?m0]"
  have N: "0 < ?N" using assms(1) by (simp add: accepts_mmap_def unat_gt_0)
  obtain mm1 p n where 1: "fold merge_step [1..<?N] (?mm, 0, Suc 0) = (mm1, p, n)"
    using prod_cases3 by blast
  obtain mm2 v where 2: "fold (virtual_step (paddr_base b)) [0..<n] (mm1, mmio_base b) = (mm2, v)"
    by (cases "fold (virtual_step (paddr_base b)) [0..<n] (mm1, mmio_base b)")
  from merge_loop[OF 1] N assms(2)
  have m: "take n mm1 = merge (?mm ! 0) (map reclaim (drop 1 (take ?N ?mm)))"
    "n \<le> ?N" "length mm1 = length (MemoryMap b)" by auto
  from virtual_loop[OF 2] m assms(2)
  have v: "take n mm2 = assign_virtual (paddr_base b) (mmio_base b) (take n mm1)"
    "length mm2 = length (MemoryMap b)" by auto
  have "MemoryMap b \<noteq> []" using N assms(2) by auto
  then have seg: "segments_of b = ?mm ! 0 # map reclaim (drop 1 (take ?N ?mm))"
    using N by (cases "MemoryMap b"; cases ?N) (auto simp: segments_of_def)
  have n64: "unat (of_nat n :: u64) = n"
    using m(2) unat_lt64[of "NumEntries b"] by (intro unat_of_nat64) linarith
  let ?b = "b\<lparr>NumEntries := of_nat n, MemoryMap := mm2\<rparr>"
  have "init_mmap b = Inr ?b"
    using assms(1) 1 2 by (simp add: init_mmap_def accepts_mmap_def Let_def)
  moreover have "take n mm2 = assign_virtual (paddr_base b) (mmio_base b)
      (merge (hd (segments_of b)) (tl (segments_of b)))"
    unfolding v m seg by simp
  ultimately show ?thesis
    using n64 m(2) v by (intro exI[of _ ?b]) (simp add: word_le_nat_alt)
qed

section \<open>What merging keeps\<close>

text \<open>The pages a segment consists of, each with its type and attributes.\<close>

definition frames :: "EFI_MEMORY_DESCRIPTOR \<Rightarrow> (u64 \<times> EFI_MEMORY_TYPE \<times> u64) list" where
  "frames m = map (\<lambda>i. (PhysicalStart m + PAGE_SIZE * of_nat i, Type m, Attribute m))
     [0..<unat (NumberOfPages m)]"

definition total_pages :: "EFI_MEMORY_DESCRIPTOR list \<Rightarrow> nat" where
  "total_pages ms = sum_list (map (\<lambda>m. unat (NumberOfPages m)) ms)"

lemma total_pages_simps [simp]: "total_pages [] = 0"
  "total_pages (m # ms) = unat (NumberOfPages m) + total_pages ms"
  by (simp_all add: total_pages_def)

lemma unat_plus64: "unat a + unat b < 2 ^ 64 \<Longrightarrow> unat (a + b) = unat a + unat (b :: u64)"
  by (simp add: unat_word_ariths)

lemma join_pages:
  "unat (NumberOfPages p) + unat (NumberOfPages m) < 2 ^ 64 \<Longrightarrow>
   unat (NumberOfPages (join p m)) = unat (NumberOfPages p) + unat (NumberOfPages m)"
  by (simp add: join_def unat_plus64)

lemma join_frames:
  assumes "can_merge p m" and "unat (NumberOfPages p) + unat (NumberOfPages m) < 2 ^ 64"
  shows "frames (join p m) = frames p @ frames m"
proof -
  let ?n = "unat (NumberOfPages p)" and ?k = "unat (NumberOfPages m)"
  have "[0..<?n + ?k] = [0..<?n] @ map (\<lambda>i. i + ?n) [0..<?k]"
    using upt_add_eq_append[of 0 ?n ?k] by (simp add: map_add_upt add.commute)
  moreover have "NumberOfPages p = of_nat ?n" by simp
  then have "PhysicalStart m = PhysicalStart p + PAGE_SIZE * of_nat ?n"
    using assms(1) by (simp add: can_merge_def)
  ultimately show ?thesis
    using assms(1) join_pages[OF assms(2)]
    by (simp add: frames_def can_merge_def join_def algebra_simps)
qed

lemma merge_frames:
  "total_pages (p # ms) < 2 ^ 64 \<Longrightarrow>
   concat (map frames (merge p ms)) = concat (map frames (p # ms))"
proof (induction p ms rule: merge.induct)
  case (1 p)
  then show ?case by simp
next
  case (2 p m ms)
  show ?case
  proof (cases "can_merge p m")
    case True
    have "unat (NumberOfPages p) + unat (NumberOfPages m) < 2 ^ 64" using 2(3) by simp
    then show ?thesis using 2(1)[OF True] 2(3) True join_frames[OF True] join_pages[of p m] by simp
  next
    case False
    then show ?thesis using 2(2)[OF False] 2(3) by simp
  qed
qed

text \<open>No two neighbours of the result could still be merged.\<close>

lemma can_merge_cong:
  "Type m' = Type m \<Longrightarrow> Attribute m' = Attribute m \<Longrightarrow> PhysicalStart m' = PhysicalStart m \<Longrightarrow>
   can_merge p m' = can_merge p m"
  by (simp add: can_merge_def)

lemma merge_hd: "merge p ms \<noteq> []"
  "Type (hd (merge p ms)) = Type p" "Attribute (hd (merge p ms)) = Attribute p"
  "PhysicalStart (hd (merge p ms)) = PhysicalStart p"
  by (induction p ms rule: merge.induct) (simp_all add: join_def)

lemma merge_maximal: "successively (\<lambda>a b. \<not> can_merge a b) (merge p ms)"
proof (induction p ms rule: merge.induct)
  case (1 p)
  then show ?case by simp
next
  case (2 p m ms)
  show ?case
  proof (cases "can_merge p m")
    case True
    then show ?thesis using 2(1) by simp
  next
    case False
    have "\<not> can_merge p (hd (merge m ms))"
      using False can_merge_cong[of "hd (merge m ms)" m p] merge_hd[of m ms] by simp
    then show ?thesis
      using 2(2)[OF False] merge_hd(1)[of m ms] by (simp add: False successively_Cons)
  qed
qed

lemma assign_virtual_physical:
  "map PhysicalStart (assign_virtual base v ms) = map PhysicalStart ms"
  "map Type (assign_virtual base v ms) = map Type ms"
  "map Attribute (assign_virtual base v ms) = map Attribute ms"
  "map NumberOfPages (assign_virtual base v ms) = map NumberOfPages ms"
  by (induction ms arbitrary: v) auto

lemma assign_virtual_frames: "map frames (assign_virtual base v ms) = map frames ms"
  by (induction ms arbitrary: v) (auto simp: frames_def)

lemma length_assign_virtual [simp]: "length (assign_virtual base v ms) = length ms"
  by (induction ms arbitrary: v) auto

lemma assign_virtual_Nil [simp]: "assign_virtual base v ms = [] \<longleftrightarrow> ms = []"
  by (cases ms) auto

lemma assign_virtual_maximal:
  "successively (\<lambda>a b. \<not> can_merge a b) (assign_virtual base v ms) =
   successively (\<lambda>a b. \<not> can_merge a b) ms"
proof (induction ms arbitrary: v)
  case Nil
  then show ?case by simp
next
  case (Cons m ms)
  have "can_merge (m\<lparr>VirtualStart := x\<rparr>) b = can_merge m b" for x b by (simp add: can_merge_def)
  moreover have "can_merge m (hd (assign_virtual base v ms)) = can_merge m (hd ms)" if "ms \<noteq> []" for v
    using that by (cases ms) (auto simp: can_merge_def)
  ultimately show ?case
    using Cons by (cases "ms = []") (auto simp: successively_Cons)
qed

text \<open>MMIO segments get consecutive virtual addresses, other runtime segments the direct map's.\<close>

definition mmio_pages :: "EFI_MEMORY_DESCRIPTOR list \<Rightarrow> u64" where
  "mmio_pages ms = sum_list (map NumberOfPages (filter is_mmio ms))"

lemma assign_virtual_nth:
  "k < length ms \<Longrightarrow> VirtualStart (assign_virtual base v ms ! k) =
     (if is_mmio (ms ! k) then v + mmio_pages (take k ms) * PAGE_SIZE
      else if Attribute (ms ! k) AND EFI_MEMORY_RUNTIME \<noteq> 0 then PhysicalStart (ms ! k) + base
      else VirtualStart (ms ! k))"
proof (induction ms arbitrary: v k)
  case Nil
  then show ?case by simp
next
  case (Cons m ms)
  show ?case
  proof (cases k)
    case 0
    then show ?thesis by (simp add: mmio_pages_def)
  next
    case (Suc j)
    then show ?thesis using Cons by (simp add: mmio_pages_def algebra_simps)
  qed
qed

lemma assign_virtual_mmio:
  "k < length ms \<Longrightarrow> is_mmio (assign_virtual base v ms ! k) = is_mmio (ms ! k)
    \<and> Attribute (assign_virtual base v ms ! k) = Attribute (ms ! k)
    \<and> PhysicalStart (assign_virtual base v ms ! k) = PhysicalStart (ms ! k)"
  by (induction ms arbitrary: v k) (auto simp: nth_Cons is_mmio_def split: nat.splits)

lemma mmio_pages_assign: "mmio_pages (take k (assign_virtual base v ms)) = mmio_pages (take k ms)"
proof (induction ms arbitrary: v k)
  case Nil
  then show ?case by simp
next
  case (Cons m ms)
  then show ?case by (cases k) (auto simp: mmio_pages_def is_mmio_def)
qed

section \<open>Properties\<close>

text \<open>C33: \<open>init_mmap\<close> is equivalent to a functional description of what its comments ask for.
  It halts exactly when the map is empty or its first entry is not the one-page \<open>NULL\<close> segment
  of type \<open>EfiBootServicesCode\<close>; otherwise the first \<open>NumEntries\<close> elements of the array are the
  given segments, the first one unusable and the others reclaimed, merged from left to right,
  with virtual addresses assigned. The array does not grow and no other field changes.\<close>

theorem init_mmap_merges:
  assumes "unat (NumEntries b) \<le> length (MemoryMap b)"
  shows "if accepts_mmap b
    then \<exists>b'. init_mmap b = Inr b'
      \<and> b' = b\<lparr>NumEntries := NumEntries b', MemoryMap := MemoryMap b'\<rparr>
      \<and> NumEntries b' \<le> NumEntries b \<and> length (MemoryMap b') = length (MemoryMap b)
      \<and> take (unat (NumEntries b')) (MemoryMap b') =
          assign_virtual (paddr_base b) (mmio_base b) (merge (hd (segments_of b)) (tl (segments_of b)))
    else init_mmap b = Inl Halted"
  using init_mmap_eq[OF _ assms] init_mmap_halts[of b] by simp

text \<open>A map with adjacent segments of three kinds, a memory-mapped device and runtime data.\<close>

definition sample_map :: "EFI_MEMORY_DESCRIPTOR list" where
  "sample_map = map (\<lambda>(t, p, n, a). \<lparr>Type = t, PhysicalStart = p, VirtualStart = 0,
       NumberOfPages = n, Attribute = a\<rparr>)
     [(EfiBootServicesCode, 0, 1, 15), (EfiConventionalMemory, 0x1000, 0x9f, 15),
      (EfiBootServicesData, 0xa0000, 0x60, 15), (EfiLoaderData, 0x100000, 0x10, 15),
      (EfiRuntimeServicesData, 0x110000, 2, EFI_MEMORY_RUNTIME),
      (EfiMemoryMappedIO, 0xfee00000, 1, EFI_MEMORY_RUNTIME)]"

definition sample_mmap_data :: bootloader_data where
  "sample_mmap_data = sample_data\<lparr>NumEntries := 6, MemoryMap := sample_map\<rparr>"

theorem init_mmap_merges_witness:
  "\<exists>b'. init_mmap sample_mmap_data = Inr b' \<and> NumEntries b' \<le> 6 \<and> length (MemoryMap b') = 6"
  using init_mmap_merges[of sample_mmap_data]
  by (auto simp: sample_mmap_data_def sample_map_def accepts_mmap_def)

text \<open>C10: The memory map that reaches the kernel describes the same memory. Read page by page,
  it lists exactly the pages of the firmware's map in the same order, with the reclaimed types
  and the same attributes, and each as often; no two neighbouring entries could still be
  merged. Runtime segments are placed at their address in the direct map, memory-mapped devices
  one after the other from \<open>mmio_base\<close>.\<close>

theorem init_mmap_conserves:
  assumes "unat (NumEntries b) \<le> length (MemoryMap b)" and "total_pages (segments_of b) < 2 ^ 64"
    and "init_mmap b = Inr b'" and "ms = take (unat (NumEntries b')) (MemoryMap b')"
  shows "concat (map frames ms) = concat (map frames (segments_of b))
    \<and> successively (\<lambda>p m. \<not> can_merge p m) ms
    \<and> (\<forall>k < length ms. (is_mmio (ms ! k) \<longrightarrow>
          VirtualStart (ms ! k) = mmio_base b + mmio_pages (take k ms) * PAGE_SIZE)
        \<and> (\<not> is_mmio (ms ! k) \<and> Attribute (ms ! k) AND EFI_MEMORY_RUNTIME \<noteq> 0 \<longrightarrow>
          VirtualStart (ms ! k) = paddr_base b + PhysicalStart (ms ! k)))"
proof -
  have acc: "accepts_mmap b" using init_mmap_halts[of b] assms(3) by fastforce
  let ?s = "segments_of b"
  have ms: "ms = assign_virtual (paddr_base b) (mmio_base b) (merge (hd ?s) (tl ?s))"
    using init_mmap_eq[OF acc assms(1)] assms(3,4) by auto
  have pos: "0 < unat (NumEntries b)" using acc by (simp add: accepts_mmap_def unat_gt_0)
  then have "MemoryMap b \<noteq> []" using assms(1) by auto
  with pos have s: "hd ?s # tl ?s = ?s"
    by (cases "MemoryMap b"; cases "unat (NumEntries b)") (auto simp: segments_of_def)
  have "concat (map frames ms) = concat (map frames ?s)"
    using merge_frames[of "hd ?s" "tl ?s"] assms(2) unfolding ms s assign_virtual_frames by simp
  moreover have "successively (\<lambda>p m. \<not> can_merge p m) ms"
    unfolding ms assign_virtual_maximal by (rule merge_maximal)
  ultimately show ?thesis
    using assign_virtual_nth[where ms = "merge (hd ?s) (tl ?s)"]
      assign_virtual_mmio[where ms = "merge (hd ?s) (tl ?s)"]
    unfolding ms by (simp add: mmio_pages_assign add.commute)
qed

text \<open>In the sample map the first three segments merge into two and the device comes last.\<close>

theorem init_mmap_conserves_witness:
  "\<exists>b'. init_mmap sample_mmap_data = Inr b'
    \<and> total_pages (segments_of sample_mmap_data) = 0x113
    \<and> concat (map frames (take (unat (NumEntries b')) (MemoryMap b'))) =
        concat (map frames (segments_of sample_mmap_data))"
proof -
  have len: "unat (NumEntries sample_mmap_data) \<le> length (MemoryMap sample_mmap_data)"
    by (simp add: sample_mmap_data_def sample_map_def)
  have total: "total_pages (segments_of sample_mmap_data) = 0x113"
    by (simp add: sample_mmap_data_def sample_map_def segments_of_def reclaim_def)
  have "accepts_mmap sample_mmap_data"
    by (simp add: sample_mmap_data_def sample_map_def accepts_mmap_def)
  from init_mmap_eq[OF this len] obtain b' where b': "init_mmap sample_mmap_data = Inr b'" by blast
  from init_mmap_conserves[OF len _ b' refl] total b' show ?thesis by simp
qed

end
