(* ===== verification/Relocate.thy ===== *)
theory Relocate
  imports Elf Paging
begin

text \<open>
  \<open>do_relocations\<close> of \<open>efi/opsys-loader.c\<close>: the loader, already on the boot page tables,
  reads the kernel's dynamic section and applies its relocations in memory. The scan for
  \<open>DT_NULL\<close> need not end, so it is a partial function whose value \<open>None\<close> is not returning;
  the relocation loop counts.
\<close>

section \<open>Operations\<close>

definition sizeof_rela :: u64 where "sizeof_rela = of_nat sizeof_Rela"

partial_function (option) scan_dynamic :: "mem \<Rightarrow> u64 \<Rightarrow> u64 \<Rightarrow> u64 \<Rightarrow> (u64 \<times> u64) result option" where
  "scan_dynamic m dyn relas num_relas =
     (let tag = load64 m dyn; un = load64 m (dyn + 8) in
      if tag = DT_NULL then Some (Inr (relas, num_relas))
      else if tag = DT_REL then Some (Inl Halted)
      else if tag = DT_RELAENT \<and> un \<noteq> sizeof_rela then Some (Inl Halted)
      else scan_dynamic m (dyn + of_nat sizeof_Dyn)
        (if tag = DT_RELA then KERNEL_BASE + un else relas)
        (if tag = DT_RELASZ then un div sizeof_rela else num_relas))"

definition rela_at :: "mem \<Rightarrow> u64 \<Rightarrow> nat \<Rightarrow> Elf64_Rela" where
  "rela_at m relas i =
     (let rela = relas + sizeof_rela * of_nat i in
      \<lparr>r_offset = load64 m rela, r_info = load64 m (rela + 8), r_addend = load64 m (rela + 16)\<rparr>)"

definition relocate :: "u64 \<Rightarrow> nat \<Rightarrow> mem \<Rightarrow> mem result" where
  "relocate relas i m =
     (let rela = rela_at m relas i; offset = KERNEL_BASE + r_offset rela in
      if ELF64_R_TYPE (r_info rela) = R_X86_64_RELATIVE
      then Inr (store64 m offset (KERNEL_BASE + r_addend rela))
      else Inl Halted)"

definition do_relocations :: "u64 \<Rightarrow> mem \<Rightarrow> mem result option" where
  "do_relocations dynamic m =
     (case scan_dynamic m dynamic 0 0 of
        None \<Rightarrow> None
      | Some found \<Rightarrow> Some (bind found (\<lambda>(relas, num_relas).
          if relas = 0 then Inr m else for_each (relocate relas) [0..<unat num_relas] m)))"

section \<open>The dynamic section\<close>

definition dyn_at :: "mem \<Rightarrow> u64 \<Rightarrow> Elf64_Dyn" where
  "dyn_at m a = \<lparr>d_tag = load64 m a, d_un = load64 m (a + 8)\<rparr>"

text \<open>A section of the entries \<open>ds\<close>, ended by the first \<open>DT_NULL\<close>.\<close>

fun dyn_table :: "mem \<Rightarrow> u64 \<Rightarrow> Elf64_Dyn list \<Rightarrow> bool" where
  "dyn_table m a [] \<longleftrightarrow> d_tag (dyn_at m a) = DT_NULL"
| "dyn_table m a (d # ds) \<longleftrightarrow> dyn_at m a = d \<and> d_tag d \<noteq> DT_NULL \<and> dyn_table m (a + 16) ds"

text \<open>The value of the last entry with a tag.\<close>

fun last_un :: "Elf64_Sxword \<Rightarrow> Elf64_Dyn list \<Rightarrow> u64 option" where
  "last_un tag [] = None"
| "last_un tag (d # ds) =
     (case last_un tag ds of Some v \<Rightarrow> Some v | None \<Rightarrow> if d_tag d = tag then Some (d_un d) else None)"

definition supported :: "Elf64_Dyn \<Rightarrow> bool" where
  "supported d \<longleftrightarrow> d_tag d \<noteq> DT_REL \<and> (d_tag d = DT_RELAENT \<longrightarrow> d_un d = 24)"

definition relas_of :: "Elf64_Dyn list \<Rightarrow> u64" where
  "relas_of ds = (case last_un DT_RELA ds of None \<Rightarrow> 0 | Some p \<Rightarrow> KERNEL_BASE + p)"

definition num_relas_of :: "Elf64_Dyn list \<Rightarrow> nat" where
  "num_relas_of ds = (case last_un DT_RELASZ ds of None \<Rightarrow> 0 | Some n \<Rightarrow> unat n div 24)"

lemma sizes [simp]: "sizeof_rela = 24" "of_nat sizeof_Dyn = (16 :: u64)"
  by (simp_all add: sizeof_rela_def sizeof_Rela_def sizeof_Dyn_def)

lemma scan_table:
  "dyn_table m a ds \<Longrightarrow> scan_dynamic m a relas n = Some (if list_all supported ds
     then Inr (case last_un DT_RELA ds of None \<Rightarrow> relas | Some p \<Rightarrow> KERNEL_BASE + p,
               case last_un DT_RELASZ ds of None \<Rightarrow> n | Some v \<Rightarrow> v div 24)
     else Inl Halted)"
proof (induction ds arbitrary: a relas n)
  case Nil
  then show ?case by (subst scan_dynamic.simps) (simp add: dyn_at_def Let_def)
next
  case (Cons d ds)
  have d: "load64 m a = d_tag d" "load64 m (a + 8) = d_un d" "d_tag d \<noteq> DT_NULL"
    and ds: "dyn_table m (a + 16) ds" using Cons.prems by (auto simp: dyn_at_def)
  show ?case
    using d(3) by (subst scan_dynamic.simps)
      (auto simp: Let_def d(1,2) Cons.IH[OF ds] supported_def[of d] elf_consts split: option.splits)
qed

section \<open>The relocations\<close>

lemma aligned8_add: "aligned8 a \<Longrightarrow> aligned8 b \<Longrightarrow> aligned8 (a + b)"
  by (simp add: aligned8_dvd uint_word_ariths dvd_mod_iff)

lemma aligned8_KERNEL_BASE: "aligned8 KERNEL_BASE"
  by (simp add: aligned8_def KERNEL_BASE_def)

lemma aligned8_entry:
  assumes "aligned8 relas"
  shows "aligned8 (relas + 24 * of_nat i)" "aligned8 (relas + 24 * of_nat i + 8)"
    "aligned8 (relas + 24 * of_nat i + 16)"
proof -
  have "24 * of_nat i = (8 :: u64) * (3 * of_nat i)" by simp
  then have "aligned8 (24 * of_nat i)" using aligned8_times by metis
  then show "aligned8 (relas + 24 * of_nat i)" using assms by (rule aligned8_add[rotated])
  then show "aligned8 (relas + 24 * of_nat i + 8)" "aligned8 (relas + 24 * of_nat i + 16)"
    by (auto intro!: aligned8_add simp: aligned8_def[of 8] aligned8_def[of 16])
qed

definition target :: "mem \<Rightarrow> u64 \<Rightarrow> nat \<Rightarrow> u64" where
  "target m relas i = KERNEL_BASE + r_offset (rela_at m relas i)"

text \<open>
  A table whose entries and targets are aligned quadwords, and that does not relocate itself.
\<close>

definition rela_table :: "mem \<Rightarrow> u64 \<Rightarrow> nat \<Rightarrow> bool" where
  "rela_table m relas n \<longleftrightarrow> aligned8 relas \<and>
     (\<forall>i < n. aligned8 (target m relas i) \<and>
       (\<forall>j < n. target m relas i \<notin> {relas + 24 * of_nat j, relas + 24 * of_nat j + 8,
                                     relas + 24 * of_nat j + 16}))"

lemma relocate_loop:
  assumes tab: "rela_table m relas n" and "k \<le> n"
    and same: "\<And>a. aligned8 a \<Longrightarrow> (\<forall>i < k. a \<noteq> target m relas i) \<Longrightarrow> load64 m1 a = load64 m a"
    and written: "\<And>i. i < k \<Longrightarrow> (\<forall>j. i < j \<and> j < k \<longrightarrow> target m relas j \<noteq> target m relas i) \<Longrightarrow>
      load64 m1 (target m relas i) = KERNEL_BASE + r_addend (rela_at m relas i)"
  shows "if \<forall>i. k \<le> i \<and> i < n \<longrightarrow> ELF64_R_TYPE (r_info (rela_at m relas i)) = R_X86_64_RELATIVE
    then \<exists>m'. for_each (relocate relas) [k..<n] m1 = Inr m'
      \<and> (\<forall>a. aligned8 a \<longrightarrow> (\<forall>i < n. a \<noteq> target m relas i) \<longrightarrow> load64 m' a = load64 m a)
      \<and> (\<forall>i < n. (\<forall>j. i < j \<and> j < n \<longrightarrow> target m relas j \<noteq> target m relas i) \<longrightarrow>
          load64 m' (target m relas i) = KERNEL_BASE + r_addend (rela_at m relas i))
    else for_each (relocate relas) [k..<n] m1 = Inl Halted"
  using assms(2-4)
proof (induction "n - k" arbitrary: k m1)
  case 0
  then show ?case by auto
next
  case (Suc d)
  have k: "k < n" using Suc(2) by simp
  have al: "aligned8 relas" using tab by (simp add: rela_table_def)
  have "load64 m1 a = load64 m a"
    if "a \<in> {relas + 24 * of_nat k, relas + 24 * of_nat k + 8, relas + 24 * of_nat k + 16}" for a
  proof (rule Suc(4))
    show "aligned8 a" using that aligned8_entry[OF al] by auto
    show "\<forall>i < k. a \<noteq> target m relas i" using tab k that unfolding rela_table_def by force
  qed
  then have rela: "rela_at m1 relas k = rela_at m relas k" by (simp add: rela_at_def)
  let ?t = "target m relas k"
  have at: "aligned8 ?t" using tab k by (simp add: rela_table_def)
  show ?case
  proof (cases "ELF64_R_TYPE (r_info (rela_at m relas k)) = R_X86_64_RELATIVE")
    case False
    then have "relocate relas k m1 = Inl Halted" by (simp add: relocate_def Let_def rela)
    then show ?thesis using k False by (auto simp: upt_conv_Cons)
  next
    case True
    define m2 where "m2 = store64 m1 ?t (KERNEL_BASE + r_addend (rela_at m relas k))"
    have step: "relocate relas k m1 = Inr m2"
      using True by (simp add: relocate_def Let_def rela m2_def target_def)
    have same2: "load64 m2 a = load64 m a" if "aligned8 a" "\<forall>i < Suc k. a \<noteq> target m relas i" for a
      using that Suc(4)[of a] at by (auto simp: m2_def load64_store64)
    have written2: "load64 m2 (target m relas i) = KERNEL_BASE + r_addend (rela_at m relas i)"
      if "i < Suc k" "\<forall>j. i < j \<and> j < Suc k \<longrightarrow> target m relas j \<noteq> target m relas i" for i
    proof (cases "i = k")
      case True
      then show ?thesis by (simp add: m2_def)
    next
      case False
      then have i: "i < k" "?t \<noteq> target m relas i" using that by auto
      then have "aligned8 (target m relas i)" using tab k by (simp add: rela_table_def)
      then show ?thesis using Suc(5)[of i] that i at by (simp add: m2_def load64_store64)
    qed
    have range: "(\<forall>i. k \<le> i \<and> i < n \<longrightarrow> P i) \<longleftrightarrow> (\<forall>i. Suc k \<le> i \<and> i < n \<longrightarrow> P i)" if "P k" for P
      using that by (metis Suc_le_eq le_eq_less_or_eq)
    have loop: "for_each (relocate relas) [k..<n] m1 = for_each (relocate relas) [Suc k..<n] m2"
      using k by (simp add: upt_conv_Cons step)
    show ?thesis
      unfolding loop range[where P = "\<lambda>i. ELF64_R_TYPE (r_info (rela_at m relas i)) = R_X86_64_RELATIVE", OF True]
      using Suc(2) k same2 written2 by (intro Suc(1)) simp_all
  qed
qed

section \<open>Properties\<close>

text \<open>C18: \<open>do_relocations\<close> on a dynamic section that ends: it returns or halts, never loops. It
  halts exactly when the section holds a \<open>DT_REL\<close> entry or a wrong entry size, or when some
  relocation is not \<open>R_X86_64_RELATIVE\<close>. Otherwise every relocated quadword ends up holding
  \<open>KERNEL_BASE\<close> plus the addend of the last relocation for it, and no other quadword changes;
  without a \<open>DT_RELA\<close> entry nothing does.\<close>

theorem relocations_applied:
  assumes "dyn_table m dynamic ds" and "relas = relas_of ds" and "n = num_relas_of ds"
    and "relas \<noteq> 0 \<longrightarrow> rela_table m relas n"
  shows "if list_all supported ds \<and>
      (relas = 0 \<or> (\<forall>i < n. ELF64_R_TYPE (r_info (rela_at m relas i)) = R_X86_64_RELATIVE))
    then \<exists>m'. do_relocations dynamic m = Some (Inr m')
      \<and> (\<forall>a. aligned8 a \<longrightarrow> relas = 0 \<or> (\<forall>i < n. a \<noteq> target m relas i) \<longrightarrow> load64 m' a = load64 m a)
      \<and> (relas \<noteq> 0 \<longrightarrow> (\<forall>i < n. (\<forall>j. i < j \<and> j < n \<longrightarrow> target m relas j \<noteq> target m relas i) \<longrightarrow>
          load64 m' (target m relas i) = KERNEL_BASE + r_addend (rela_at m relas i)))
    else do_relocations dynamic m = Some (Inl Halted)"
proof (cases "list_all supported ds")
  case False
  then show ?thesis using scan_table[OF assms(1)] by (auto simp: do_relocations_def)
next
  case True
  have n: "unat (case last_un DT_RELASZ ds of None \<Rightarrow> 0 | Some v \<Rightarrow> v div 24) = n"
    by (simp add: assms(3) num_relas_of_def unat_div split: option.split)
  have run: "do_relocations dynamic m =
      Some (if relas = 0 then Inr m else for_each (relocate relas) [0..<n] m)"
    using scan_table[OF assms(1), of 0 0] True n
    by (simp add: do_relocations_def assms(2) relas_of_def)
  show ?thesis
  proof (cases "relas = 0")
    case True
    then show ?thesis using run \<open>list_all supported ds\<close> by simp
  next
    case False
    with assms(4) have "rela_table m relas n" by simp
    from relocate_loop[OF this, of 0 m] show ?thesis
      using run False True by (auto split: if_splits)
  qed
qed

text \<open>A section with one relocation, for the quadword at \<open>KERNEL_BASE + 0x3008\<close>.\<close>

definition sample_image :: mem where
  "sample_image =
     (let put = (\<lambda>(a, v) m. store64 m a v) in
      fold put
        [(0xffffffffc0005000, DT_RELA), (0xffffffffc0005008, 0x6000),
         (0xffffffffc0005010, DT_RELASZ), (0xffffffffc0005018, 24),
         (0xffffffffc0005020, DT_RELAENT), (0xffffffffc0005028, 24),
         (0xffffffffc0006000, 0x3008), (0xffffffffc0006008, R_X86_64_RELATIVE),
         (0xffffffffc0006010, 0x1234)] (\<lambda>_. 0))"

definition sample_dynamic :: "Elf64_Dyn list" where
  "sample_dynamic = [\<lparr>d_tag = DT_RELA, d_un = 0x6000\<rparr>, \<lparr>d_tag = DT_RELASZ, d_un = 24\<rparr>,
     \<lparr>d_tag = DT_RELAENT, d_un = 24\<rparr>]"

lemma load_zero: "load64 (\<lambda>_. 0) a = 0"
  by (rule load64_zero) simp

lemma sample_image_tables:
  "dyn_table sample_image 0xffffffffc0005000 sample_dynamic"
  "rela_at sample_image 0xffffffffc0006000 0 =
     \<lparr>r_offset = 0x3008, r_info = R_X86_64_RELATIVE, r_addend = 0x1234\<rparr>"
  by (simp_all add: sample_image_def sample_dynamic_def dyn_at_def rela_at_def Let_def load64_store64
      aligned8_def elf_consts load_zero)

theorem relocations_applied_witness:
  "\<exists>m'. do_relocations 0xffffffffc0005000 sample_image = Some (Inr m')
    \<and> load64 m' 0xffffffffc0003008 = 0xffffffffc0001234"
proof -
  have r: "relas_of sample_dynamic = 0xffffffffc0006000" and n: "num_relas_of sample_dynamic = 1"
    by (simp_all add: relas_of_def num_relas_of_def sample_dynamic_def KERNEL_BASE_def elf_consts)
  have t: "target sample_image 0xffffffffc0006000 0 = 0xffffffffc0003008"
    by (simp add: target_def sample_image_tables KERNEL_BASE_def)
  have "rela_table sample_image 0xffffffffc0006000 1"
    by (simp add: rela_table_def t aligned8_def)
  with relocations_applied[OF sample_image_tables(1) r[symmetric] n[symmetric]]
  show ?thesis
    by (simp add: t sample_image_tables supported_def sample_dynamic_def elf_consts ELF64_R_TYPE_def
        KERNEL_BASE_def) auto
qed

end
