(* ===== verification/Boot.thy ===== *)
theory Boot
  imports ImageHeaders MmapInit Relocate
begin

text \<open>
  Steps 1 to 8 of \<open>efi_main\<close> (\<open>efi_boot\<close>) and \<open>efi_main2\<close> of \<open>efi/opsys-loader.c\<close>: the boot sequence as one composition of
  the loader's parts, from the first allocation to the jump to the kernel. The firmware
  services it calls are the fields of \<open>services\<close>. What \<open>efi_main\<close> does before is in \<open>EfiMain\<close>.
\<close>

section \<open>Operations\<close>

record 'f services =
  alloc :: "'f firmware"
  pool :: "u64 \<Rightarrow> bool"
  LibMemoryMap :: "'f \<Rightarrow> (EFI_MEMORY_DESCRIPTOR list \<times> u64) option"
  Open :: "'f \<Rightarrow> u64 + efi_file"
  GetMemoryMap :: "'f \<Rightarrow> u64 \<Rightarrow> u64 + EFI_MEMORY_DESCRIPTOR list \<times> u64"
  ExitBootServices :: "'f \<Rightarrow> u64 \<Rightarrow> u64"
  SetVirtualAddressMap :: "u64 \<Rightarrow> EFI_MEMORY_DESCRIPTOR list \<Rightarrow> u64"
  sizeof_descriptor :: u64
  RT_at :: u64

definition sizeof_bootloader_data :: u64 where "sizeof_bootloader_data = 88"

record 'f handover =
  boot_page_table :: u64
  boot_data_at :: u64
  boot_data :: bootloader_data
  new_stack :: u64
  machine :: "'f loader"

text \<open>Steps 1 to 4 of the boot sequence, up to the boot page tables.\<close>

definition efi_prepare :: "'f services \<Rightarrow> bootloader_data \<Rightarrow> 'f loader \<Rightarrow> (u64 \<times> 'f handover) result" where
  "efi_prepare sv blank s =
     bind (allocate_pages (alloc sv) 1 s) (\<lambda>(stack, s).
     bind (allocate_pages (alloc sv) 2 s) (\<lambda>(bd_at, s).
     let b = blank\<lparr>n_pages := 32\<rparr> in
     bind (allocate_pages (alloc sv) (n_pages b) s) (\<lambda>(free, s).
     let b = b\<lparr>free_memory := free\<rparr> in
     case LibMemoryMap sv (fw s) of
       None \<Rightarrow> Inl (Exited EFI_ABORTED)
     | Some (mm, DescriptorSize) \<Rightarrow>
         if DescriptorSize \<noteq> sizeof_descriptor sv then Inl (Exited EFI_ABORTED)
         else
           bind (load_kernel (alloc sv) (pool sv) (Open sv (fw s)) s) (\<lambda>(ehdr_at, phdrs_at, s).
           let hdr = read_ehdr (lmem s) ehdr_at;
               phs = read_phdrs_at (lmem s) phdrs_at (unat (e_phnum hdr)) in
           bind (prepare_boot_page_tables (alloc sv) mm (of_nat (length mm)) bd_at b hdr phs s)
             (\<lambda>(root, b, s).
           Inr (of_nat (length mm),
             \<lparr>boot_page_table = root, boot_data_at = bd_at, boot_data = b, new_stack = stack, machine = s\<rparr>))))))"

text \<open>
  Steps 5 to 8. The size passed to \<open>SetVirtualAddressMap\<close> uses the number of entries of the
  preliminary map.
\<close>

definition efi_exit_boot :: "'f services \<Rightarrow> u64 \<Rightarrow> 'f handover \<Rightarrow> 'f handover result" where
  "efi_exit_boot sv n h =
     (let MMSize = 2 * PAGE_SIZE - sizeof_bootloader_data in
      case GetMemoryMap sv (fw (machine h)) MMSize of
        Inl Status \<Rightarrow> Inl (Exited Status)
      | Inr (mm, MapKey) \<Rightarrow>
          let b = (boot_data h)\<lparr>MemoryMap := mm, NumEntries := of_nat (length mm)\<rparr>;
              Status = ExitBootServices sv (fw (machine h)) MapKey in
          if EFI_ERROR Status then Inl (Exited Status)
          else
            bind (init_mmap b) (\<lambda>b.
            if EFI_ERROR (SetVirtualAddressMap sv (n * sizeof_descriptor sv) (MemoryMap b)) then Inl Halted
            else Inr (h\<lparr>boot_data := b\<lparr>RT := paddr_base b + RT_at sv\<rparr>\<rparr>)))"

text \<open>\<open>setup_new_stack\<close> of \<open>efi/setup_new_stack.S\<close>: the stack pointer \<open>efi_main2\<close> starts with.\<close>

definition efi_setup_new_stack :: "u64 \<Rightarrow> 'f loader \<Rightarrow> u64 \<times> 'f loader" where
  "efi_setup_new_stack stack s =
     (let sp = stack + PAGE_SIZE - 8 in (sp, s\<lparr>lmem := store64 (lmem s) sp 0\<rparr>))"

definition efi_boot :: "'f services \<Rightarrow> bootloader_data \<Rightarrow> 'f loader \<Rightarrow> (u64 \<times> 'f handover) result" where
  "efi_boot sv blank s =
     bind (efi_prepare sv blank s) (\<lambda>(n, h).
     bind (efi_exit_boot sv n h) (\<lambda>h.
       let (sp, s) = efi_setup_new_stack (new_stack h) (machine h) in
       Inr (sp, h\<lparr>machine := s\<rparr>)))"

text \<open>
  \<open>efi_main2\<close> after \<open>set_cr3\<close>: \<open>vm\<close> is the memory as the boot page tables show it. The result
  is that memory after the relocations, the boot data and the address it jumps to.
\<close>

definition find_dynamic :: "Elf64_Phdr list \<Rightarrow> u64" where
  "find_dynamic phs =
     (case find (\<lambda>ph. p_type ph = PT_DYNAMIC) phs of None \<Rightarrow> 0 | Some ph \<Rightarrow> p_vaddr ph)"

definition efi_main2 :: "bootloader_data \<Rightarrow> mem \<Rightarrow> (mem \<times> bootloader_data \<times> u64) result option" where
  "efi_main2 b vm =
     (let hdr = read_ehdr vm KERNEL_BASE;
          dynamic = find_dynamic (read_phdrs_at vm (KERNEL_BASE + e_phoff hdr) (unat (e_phnum hdr))) in
      if dynamic = 0 then Some (Inl Halted)
      else map_option (\<lambda>r. bind r (\<lambda>vm.
        let hdr = read_ehdr vm KERNEL_BASE;
            phs = read_phdrs_at vm (KERNEL_BASE + e_phoff hdr) (unat (e_phnum hdr))
        in Inr (vm, b\<lparr>ehdr := hdr, phdrs := phs\<rparr>, e_entry hdr))) (do_relocations dynamic vm))"

section \<open>What the firmware promises\<close>

text \<open>The memory map lists a page as loader data.\<close>

definition lists :: "EFI_MEMORY_DESCRIPTOR list \<Rightarrow> u64 \<Rightarrow> bool" where
  "lists mm page \<longleftrightarrow> (\<exists>m \<in> set mm. Type m = EfiLoaderData \<and>
     (\<exists>j < unat (NumberOfPages m). page = PhysicalStart m + PAGE_SIZE * of_nat j))"

text \<open>
  The documented behaviour the loader relies on: asked for single pages, the firmware gives
  different frames until it runs out; and the memory map it returns lists the pages it gave
  as loader data before.
\<close>

definition finite_frames :: "'f firmware \<Rightarrow> bool" where
  "finite_frames bs \<longleftrightarrow> (\<forall>f. \<exists>st qs. gives bs st f qs \<and> distinct qs)"

definition lists_given :: "'f services \<Rightarrow> bool" where
  "lists_given sv \<longleftrightarrow> (\<forall>f n page f1 f2 mm size. alloc sv EfiLoaderData n f = (Inr page, f1) \<longrightarrow> n \<noteq> 0 \<longrightarrow>
     later (alloc sv) f1 f2 \<longrightarrow> LibMemoryMap sv f2 = Some (mm, size) \<longrightarrow>
     length mm < 2 ^ 64 \<and> lists mm page)"

text \<open>The final map holds as many descriptors as fit in the buffer.\<close>

definition map_fits :: "'f services \<Rightarrow> bool" where
  "map_fits sv \<longleftrightarrow> (\<forall>f n mm key. GetMemoryMap sv f n = Inr (mm, key) \<longrightarrow> length mm \<le> unat n)"

lemma allocate_pages_fw:
  "allocate_pages bs n s = Inr (page, s') \<Longrightarrow> bs EfiLoaderData n (fw s) = (Inr page, fw s')"
  by (auto simp: allocate_pages_def AllocatePages_def bind_eq_Inr split: prod.splits sum.splits)

lemma identity_request_mem:
  assumes "lists mm page" and "length mm < 2 ^ 64"
  shows "(page, page, PTE_RW) \<in> set (boot_requests mm (of_nat (length mm)) bd_at b hdr phs)"
proof -
  obtain i j where i: "i < length mm" "Type (mm ! i) = EfiLoaderData" and j: "j < unat (NumberOfPages (mm ! i))"
    "page = PhysicalStart (mm ! i) + PAGE_SIZE * of_nat j"
    using assms(1) by (auto simp: lists_def in_set_conv_nth)
  then have "(page, page, PTE_RW) \<in> set (identity_requests mm i)"
    by (auto simp: identity_requests_def range_requests_def Let_def)
  then show ?thesis using i(1) assms(2) by (auto simp: boot_requests_def intro!: bexI[of _ i])
qed

lemma later_allocate:
  "allocate_pages bs n s = Inr (page, s') \<Longrightarrow> later bs (fw s) (fw s')"
  by (drule allocate_pages_fw) (auto intro: later.step[OF later.same])

text \<open>No page of an earlier allocation is among the frames still to come.\<close>

lemma given_before:
  assumes "separate_given bs" and "bs type n f = (Inr page, f1)" and "in_region page (4096 * unat n) x"
  shows "later bs f1 f2 \<Longrightarrow> gives bs st f2 qs \<Longrightarrow> x \<notin> set qs"
proof (induction qs arbitrary: f2)
  case Nil
  then show ?case by simp
next
  case (Cons q qs)
  obtain f3 where q: "bs EfiLoaderData 1 f2 = (Inr q, f3)" and rest: "gives bs st f3 qs"
    using Cons.prems(2) by (cases "bs EfiLoaderData 1 f2") auto
  have "in_region q (4096 * unat (1 :: u64)) q" by (simp add: in_region_def)
  then have "x \<noteq> q" using assms Cons.prems(1) q unfolding separate_given_def by blast
  moreover have "later bs f1 f3" using Cons.prems(1) q by (rule later.step)
  ultimately show ?case using Cons.IH[OF _ rest] by simp
qed

lemma later_load:
  assumes "load_kernel bs has_pool opened s = Inr (e, p, s')" and "page_aligned bs"
  shows "later bs (fw s) (fw s')"
proof -
  obtain File h ps phs' s1 where rd: "efi_read_program_headers has_pool File = Inr (h, Some ps)"
    and load: "load_elf_pages bs File h ps s = Inr (phs', s1)" and fw: "fw s' = fw s1"
    using assms(1) by (auto simp: load_kernel_def Let_def bind_eq_Inr split: option.splits if_splits sum.splits)
  have "unat (e_phnum h) \<le> length ps"
    using rd by (auto simp: efi_read_program_headers_def Let_def bind_eq_Inr split: if_splits)
  from load_elf_pages_stages[OF load assms(2) refl this] show ?thesis using fw by auto
qed

lemma walk_other_page:
  assumes "\<forall>x \<in> set (tabs (lrd s) 0 3 root). is_page x" and "PAGE_BASE a \<notin> set (tabs (lrd s) 0 3 root)"
    and "aligned8 a"
  shows "boot_translate (s\<lparr>lmem := store64 (lmem s) a v\<rparr>) root w = boot_translate s root w"
  unfolding boot_translate_def
proof (rule walk_cong[OF _ assms(1)])
  show "agree_on (\<lambda>x. x \<in> set (tabs (lrd s) 0 3 root)) (lrd s) (lrd (s\<lparr>lmem := store64 (lmem s) a v\<rparr>))"
    using assms(2,3) by (auto simp: agree_on_def lrd_def load64_store64)
qed

lemma last_quad:
  assumes "is_page p"
  shows "PAGE_BASE (p + PAGE_SIZE - 8) = p" "aligned8 (p + PAGE_SIZE - 8)" "VPAGE (p + PAGE_SIZE - 8) = VPAGE p"
proof -
  have eq: "p + PAGE_SIZE - 8 = pte_slot p 511" by (simp add: pte_slot_def PAGE_SIZE_def)
  show base: "PAGE_BASE (p + PAGE_SIZE - 8) = p" and "aligned8 (p + PAGE_SIZE - 8)"
    unfolding eq using assms by (simp_all add: word_layout)
  have "VPAGE (PAGE_BASE a) = VPAGE a" for a
    unfolding VPAGE_def word_eq_bits by (auto simp: bit_and_iff bit_addr_mask bit_PAGE_BASE)
  then show "VPAGE (p + PAGE_SIZE - 8) = VPAGE p" using base by metis
qed

section \<open>The state handed over\<close>

lemma range_request_mem:
  "i < unat n \<Longrightarrow> (v + PAGE_SIZE * of_nat i, p + PAGE_SIZE * of_nat i, flags) \<in> set (range_requests p v n flags)"
  by (auto simp: range_requests_def)

lemma efi_prepareE:
  assumes run: "efi_prepare sv blank s = Inr (n, h)"
  obtains stack s1 bd_at s2 free s3 mm size ehdr_at phdrs_at s4 root b s5
    where "allocate_pages (alloc sv) 1 s = Inr (stack, s1)"
    and "allocate_pages (alloc sv) 2 s1 = Inr (bd_at, s2)"
    and "allocate_pages (alloc sv) 32 s2 = Inr (free, s3)"
    and "LibMemoryMap sv (fw s3) = Some (mm, size)"
    and "load_kernel (alloc sv) (pool sv) (Open sv (fw s3)) s3 = Inr (ehdr_at, phdrs_at, s4)"
    and "prepare_boot_page_tables (alloc sv) mm (of_nat (length mm)) bd_at
        (blank\<lparr>n_pages := 32, free_memory := free\<rparr>) (read_ehdr (lmem s4) ehdr_at)
        (read_phdrs_at (lmem s4) phdrs_at (unat (e_phnum (read_ehdr (lmem s4) ehdr_at)))) s4 = Inr (root, b, s5)"
    and "h = \<lparr>boot_page_table = root, boot_data_at = bd_at, boot_data = b, new_stack = stack, machine = s5\<rparr>"
proof -
  obtain stack s1 bd_at s2 free s3 where a: "allocate_pages (alloc sv) 1 s = Inr (stack, s1)"
    "allocate_pages (alloc sv) 2 s1 = Inr (bd_at, s2)" "allocate_pages (alloc sv) 32 s2 = Inr (free, s3)"
    and r: "(case LibMemoryMap sv (fw s3) of None \<Rightarrow> Inl (Exited EFI_ABORTED)
      | Some (mm, DescriptorSize) \<Rightarrow>
        if DescriptorSize \<noteq> sizeof_descriptor sv then Inl (Exited EFI_ABORTED)
        else bind (load_kernel (alloc sv) (pool sv) (Open sv (fw s3)) s3) (\<lambda>(ehdr_at, phdrs_at, s).
          bind (prepare_boot_page_tables (alloc sv) mm (of_nat (length mm)) bd_at
            (blank\<lparr>n_pages := 32, free_memory := free\<rparr>) (read_ehdr (lmem s) ehdr_at)
            (read_phdrs_at (lmem s) phdrs_at (unat (e_phnum (read_ehdr (lmem s) ehdr_at)))) s)
           (\<lambda>(root, b, s). Inr (of_nat (length mm),
             \<lparr>boot_page_table = root, boot_data_at = bd_at, boot_data = b, new_stack = stack, machine = s\<rparr>)))) =
      Inr (n, h)"
    using run unfolding efi_prepare_def Let_def by (auto simp: bind_eq_Inr)
  obtain mm size where mm: "LibMemoryMap sv (fw s3) = Some (mm, size)"
    using r by (cases "LibMemoryMap sv (fw s3)") auto
  show thesis
    using that[OF a mm] r by (auto simp: mm bind_eq_Inr split: if_splits)
qed

text \<open>The boot page tables: what they translate, the frames they lie in, and all other memory.\<close>

lemma efi_prepare_tables:
  assumes ff: "finite_frames (alloc sv)" and run: "efi_prepare sv blank s = Inr (n, h)"
  obtains stack s1 bd_at s2 free s3 mm size ehdr_at phdrs_at s4 b1 s5 root st qs
    where "allocate_pages (alloc sv) 1 s = Inr (stack, s1)"
    and "allocate_pages (alloc sv) 2 s1 = Inr (bd_at, s2)"
    and "allocate_pages (alloc sv) 32 s2 = Inr (free, s3)"
    and "LibMemoryMap sv (fw s3) = Some (mm, size)"
    and "load_kernel (alloc sv) (pool sv) (Open sv (fw s3)) s3 = Inr (ehdr_at, phdrs_at, s4)"
    and "b1 = compute_regions mm (of_nat (length mm)) (blank\<lparr>n_pages := 32, free_memory := free\<rparr>)"
    and "h = \<lparr>boot_page_table = root, boot_data_at = bd_at,
      boot_data = b1\<lparr>free_memory := paddr_base b1 + free_memory b1\<rparr>, new_stack = stack, machine = s5\<rparr>"
    and "gives (alloc sv) st (fw s4) qs" and "set (tabs (lrd s5) 0 3 root) \<subseteq> set qs"
    and "\<And>v p flags. (v, p, flags) \<in> set (boot_requests mm (of_nat (length mm)) bd_at b1
        (read_ehdr (lmem s4) ehdr_at)
        (read_phdrs_at (lmem s4) phdrs_at (unat (e_phnum (read_ehdr (lmem s4) ehdr_at))))) \<Longrightarrow>
      boot_translate s5 root v = Some (p OR PTE_P OR flags)"
    and "agree_on (\<lambda>x. x \<notin> set qs) (lrd s4) (lrd s5)"
proof -
  obtain stack s1 bd_at s2 free s3 mm size ehdr_at phdrs_at s4 root b s5
    where e: "allocate_pages (alloc sv) 1 s = Inr (stack, s1)"
      "allocate_pages (alloc sv) 2 s1 = Inr (bd_at, s2)"
      "allocate_pages (alloc sv) 32 s2 = Inr (free, s3)"
      "LibMemoryMap sv (fw s3) = Some (mm, size)"
      "load_kernel (alloc sv) (pool sv) (Open sv (fw s3)) s3 = Inr (ehdr_at, phdrs_at, s4)"
    and pr: "prepare_boot_page_tables (alloc sv) mm (of_nat (length mm)) bd_at
        (blank\<lparr>n_pages := 32, free_memory := free\<rparr>) (read_ehdr (lmem s4) ehdr_at)
        (read_phdrs_at (lmem s4) phdrs_at (unat (e_phnum (read_ehdr (lmem s4) ehdr_at)))) s4 = Inr (root, b, s5)"
    and h: "h = \<lparr>boot_page_table = root, boot_data_at = bd_at, boot_data = b, new_stack = stack, machine = s5\<rparr>"
    by (rule efi_prepareE[OF run])
  obtain st qs where g: "gives (alloc sv) st (fw s4) qs" "distinct qs"
    using ff unfolding finite_frames_def by blast
  have "qs \<noteq> []"
  proof
    assume "qs = []"
    then have "allocate_pages (alloc sv) 1 s4 = Inl (Exited st)"
      using g(1) boot_tables.alloc_Nil[of "alloc sv" st s4] by (simp add: lowns_def)
    then show False using pr by (simp add: prepare_boot_page_tables_def Let_def)
  qed
  then obtain q frames where qs: "qs = q # frames" by (cases qs) auto
  note res = prepare_refines[OF g[unfolded qs] pr refl]
  then have root: "root = q" by blast
  from res have maps: "spec_maps (boot_requests mm (of_nat (length mm)) bd_at
        (compute_regions mm (of_nat (length mm)) (blank\<lparr>n_pages := 32, free_memory := free\<rparr>))
        (read_ehdr (lmem s4) ehdr_at)
        (read_phdrs_at (lmem s4) phdrs_at (unat (e_phnum (read_ehdr (lmem s4) ehdr_at)))))
      (\<lambda>_. None) = Some (boot_translate s5 root)" unfolding root by blast
  obtain extra where "mset (boot_tables_of s5 root @ extra) = mset qs"
    using res unfolding qs root by blast
  from mset_eq_setD[OF this] have "set (tabs (lrd s5) 0 3 root) \<subseteq> set qs" by (auto simp: boot_tables_of_def)
  moreover have "agree_on (\<lambda>x. x \<notin> set qs) (lrd s4) (lrd s5)" using res unfolding qs by blast
  moreover have "boot_translate s5 root v = Some (p OR PTE_P OR flags)"
    if "(v, p, flags) \<in> set (boot_requests mm (of_nat (length mm)) bd_at
        (compute_regions mm (of_nat (length mm)) (blank\<lparr>n_pages := 32, free_memory := free\<rparr>))
        (read_ehdr (lmem s4) ehdr_at)
        (read_phdrs_at (lmem s4) phdrs_at (unat (e_phnum (read_ehdr (lmem s4) ehdr_at)))))" for v p flags
    using spec_maps_result[OF page_like_empty maps] that by (auto simp: leaf_def)
  moreover have "b = (compute_regions mm (of_nat (length mm)) (blank\<lparr>n_pages := 32, free_memory := free\<rparr>))
      \<lparr>free_memory := paddr_base (compute_regions mm (of_nat (length mm)) (blank\<lparr>n_pages := 32, free_memory := free\<rparr>))
        + free_memory (compute_regions mm (of_nat (length mm)) (blank\<lparr>n_pages := 32, free_memory := free\<rparr>))\<rparr>"
    using res by blast
  ultimately show thesis using that[OF e refl _ g(1)] h by blast
qed

lemma efi_prepare_correct:
  assumes ff: "finite_frames (alloc sv)" and lg: "lists_given sv" and sg: "separate_given (alloc sv)"
    and pa: "page_aligned (alloc sv)" and run: "efi_prepare sv blank s = Inr (n, h)"
  shows "is_page (new_stack h)
    \<and> (\<forall>x \<in> set (tabs (lrd (machine h)) 0 3 (boot_page_table h)). is_page x \<and> x \<noteq> new_stack h)
    \<and> (let b = boot_data h; tr = boot_translate (machine h) (boot_page_table h) in
        tr (new_stack h) = Some (new_stack h OR PTE_P OR PTE_RW)
      \<and> tr (paddr_base b + boot_data_at h) = Some (boot_data_at h OR PTE_P OR PTE_RW)
      \<and> n_pages b = 32
      \<and> (\<forall>i < 32. tr (free_memory b + PAGE_SIZE * of_nat i) =
            Some ((free_memory b - paddr_base b + PAGE_SIZE * of_nat i) OR PTE_P OR PTE_RW))
      \<and> paddr_base b + paddr_size b = KERNEL_BASE \<and> mmio_base b + mmio_size b = paddr_base b)"
proof -
  obtain stack s1 bd_at s2 free s3 mm size ehdr_at phdrs_at s4 b1 s5 root st qs
    where a1: "allocate_pages (alloc sv) 1 s = Inr (stack, s1)"
    and a2: "allocate_pages (alloc sv) 2 s1 = Inr (bd_at, s2)"
    and a3: "allocate_pages (alloc sv) 32 s2 = Inr (free, s3)"
    and mm: "LibMemoryMap sv (fw s3) = Some (mm, size)"
    and lk: "load_kernel (alloc sv) (pool sv) (Open sv (fw s3)) s3 = Inr (ehdr_at, phdrs_at, s4)"
    and b1: "b1 = compute_regions mm (of_nat (length mm)) (blank\<lparr>n_pages := 32, free_memory := free\<rparr>)"
    and h: "h = \<lparr>boot_page_table = root, boot_data_at = bd_at,
      boot_data = b1\<lparr>free_memory := paddr_base b1 + free_memory b1\<rparr>, new_stack = stack, machine = s5\<rparr>"
    and g: "gives (alloc sv) st (fw s4) qs" and tabs: "set (tabs (lrd s5) 0 3 root) \<subseteq> set qs"
    and tr: "\<And>v p flags. (v, p, flags) \<in> set (boot_requests mm (of_nat (length mm)) bd_at b1
        (read_ehdr (lmem s4) ehdr_at)
        (read_phdrs_at (lmem s4) phdrs_at (unat (e_phnum (read_ehdr (lmem s4) ehdr_at))))) \<Longrightarrow>
      boot_translate s5 root v = Some (p OR PTE_P OR flags)"
    and "agree_on (\<lambda>x. x \<notin> set qs) (lrd s4) (lrd s5)"
    by (rule efi_prepare_tables[OF ff run]) blast
  have later3: "later (alloc sv) (fw s1) (fw s3)"
    by (rule later_trans[OF later_allocate[OF a3] later_allocate[OF a2]])
  have later4: "later (alloc sv) (fw s1) (fw s4)"
    by (rule later_trans[OF later_load[OF lk pa] later3])
  note stack = allocate_pages_fw[OF a1]
  have pages: "is_page x" if "x \<in> set qs" for x
    using boot_tables.owns_pages[of "alloc sv" st s4 qs] g that by (simp add: lowns_def)
  have "stack \<notin> set qs"
    by (rule given_before[OF sg stack _ later4 g]) (simp add: in_region_def)
  then have tabs: "\<forall>x \<in> set (tabs (lrd s5) 0 3 root). is_page x \<and> x \<noteq> stack"
    using tabs pages by auto
  have "length mm < 2 ^ 64 \<and> lists mm stack"
    using lg stack later3 mm unfolding lists_given_def by (metis zero_neq_one)
  then have m1: "boot_translate s5 root stack = Some (stack OR PTE_P OR PTE_RW)"
    by (intro tr identity_request_mem) auto
  have m2: "boot_translate s5 root (paddr_base b1 + bd_at) = Some (bd_at OR PTE_P OR PTE_RW)"
    using range_request_mem[of 0 1 "paddr_base b1 + bd_at" bd_at PTE_RW]
    by (intro tr) (simp add: boot_requests_def)
  have keep: "n_pages b1 = 32" "free_memory b1 = free"
    by (simp_all add: b1 compute_regions_keeps)
  have m3: "boot_translate s5 root (paddr_base b1 + free + PAGE_SIZE * of_nat i) =
      Some (free + PAGE_SIZE * of_nat i OR PTE_P OR PTE_RW)" if "i < 32" for i
    using range_request_mem[of i 32 "paddr_base b1 + free" free PTE_RW] that
    by (intro tr) (simp add: boot_requests_def keep)
  have "is_page stack"
    using pa stack unfolding page_aligned_def by (metis fst_conv)
  then show ?thesis
    using tabs m1 m2 m3 keep compute_regions_layout(1,2)[of mm "of_nat (length mm)"]
    by (simp add: h) (simp add: b1)
qed

lemma efi_exit_boot_correct:
  assumes run: "efi_exit_boot sv n h = Inr h'" and fit: "map_fits sv"
  shows "\<exists>b. h' = h\<lparr>boot_data := b\<rparr>
    \<and> b = (boot_data h)\<lparr>RT := paddr_base (boot_data h) + RT_at sv, NumEntries := NumEntries b, MemoryMap := MemoryMap b\<rparr>
    \<and> NumEntries b \<noteq> 0 \<and> successively (\<lambda>p m. \<not> can_merge p m) (take (unat (NumEntries b)) (MemoryMap b))"
proof -
  obtain mm key b where mm: "GetMemoryMap sv (fw (machine h)) (2 * PAGE_SIZE - sizeof_bootloader_data) = Inr (mm, key)"
    and init: "init_mmap ((boot_data h)\<lparr>MemoryMap := mm, NumEntries := of_nat (length mm)\<rparr>) = Inr b"
    and h': "h' = h\<lparr>boot_data := b\<lparr>RT := paddr_base b + RT_at sv\<rparr>\<rparr>"
    using run
    by (auto simp: efi_exit_boot_def Let_def bind_eq_Inr split: sum.splits prod.splits if_splits)
  let ?b0 = "(boot_data h)\<lparr>MemoryMap := mm, NumEntries := of_nat (length mm)\<rparr>"
  have "length mm \<le> unat (2 * PAGE_SIZE - sizeof_bootloader_data)"
    using fit mm by (auto simp: map_fits_def)
  then have "length mm < 18446744073709551616"
    using unat_lt64 le_less_trans by blast
  then have len: "unat (NumEntries ?b0) \<le> length (MemoryMap ?b0)" by simp
  have acc: "accepts_mmap ?b0" using init_mmap_halts[of ?b0] init by fastforce
  from init_mmap_eq[OF acc len] init
  have b: "b = ?b0\<lparr>NumEntries := NumEntries b, MemoryMap := MemoryMap b\<rparr>"
    and ms: "take (unat (NumEntries b)) (MemoryMap b) = assign_virtual (paddr_base ?b0) (mmio_base ?b0)
        (merge (hd (segments_of ?b0)) (tl (segments_of ?b0)))" by auto
  have "take (unat (NumEntries b)) (MemoryMap b) \<noteq> []"
    using merge_hd(1) by (simp add: ms)
  then have "NumEntries b \<noteq> 0" by auto
  moreover have "successively (\<lambda>p m. \<not> can_merge p m) (take (unat (NumEntries b)) (MemoryMap b))"
    unfolding ms assign_virtual_maximal by (rule merge_maximal)
  moreover have "paddr_base b = paddr_base (boot_data h)" by (subst b) simp
  moreover have "b\<lparr>RT := x\<rparr> = (boot_data h)\<lparr>RT := x, NumEntries := NumEntries b, MemoryMap := MemoryMap b\<rparr>" for x
    by (subst b) simp
  ultimately show ?thesis
    using h' by (intro exI[of _ "b\<lparr>RT := paddr_base b + RT_at sv\<rparr>"]) simp
qed

section \<open>Properties\<close>

text \<open>C19: What \<open>load_kernel\<close> leaves at the addresses it returns: reading memory there gives the ELF
  header of the file with its entry point moved by \<open>KERNEL_BASE\<close>, and the program headers with
  the virtual and physical addresses the segments were loaded at, so that the kernel finds in
  its own image what the loader did. The file must hold its headers in the first segment.\<close>

theorem load_kernel_headers:
  assumes "page_aligned bs" and "separate_given bs" and "file_has File content"
    and "load_kernel bs has_pool (Inr File) s = Inr (ehdr_at, phdrs_at, s')"
    and "hdr = decode_Ehdr (take 64 content)" and "n = unat (e_phnum hdr)"
    and "phs = map (file_phdr content) [0..<n]"
    and "\<And>i. i < n \<Longrightarrow> p_type (phs ! i) = PT_LOAD \<Longrightarrow> fits (phs ! i)"
    and "64 \<le> unat (e_phoff hdr)" and "unat (e_phoff hdr) + 56 * n \<le> unat (p_filesz (phs ! 0))"
  shows "\<exists>phs' s1. load_elf_pages bs File hdr phs s = Inr (phs', s1)
    \<and> ehdr_at = p_paddr (phs' ! 0) \<and> phdrs_at = ehdr_at + e_phoff hdr
    \<and> read_ehdr (lmem s') ehdr_at = hdr\<lparr>e_entry := e_entry hdr + KERNEL_BASE\<rparr>
    \<and> read_phdrs_at (lmem s') phdrs_at n = phs'"
  using load_kernel_correct[OF assms] by blast

text \<open>When \<open>efi_boot\<close> reaches the jump to \<open>efi_main2\<close>, everything the next stage uses is mapped.\<close>

lemma efi_boot_hands_over:
  assumes "finite_frames (alloc sv)" and "lists_given sv" and "separate_given (alloc sv)"
    and "page_aligned (alloc sv)" and "map_fits sv" and "efi_boot sv blank s = Inr (sp, h)"
    and "b = boot_data h" and "tr = boot_translate (machine h) (boot_page_table h)"
  shows "sp = new_stack h + PAGE_SIZE - 8 \<and> tr sp = Some (new_stack h OR PTE_P OR PTE_RW)
    \<and> tr (paddr_base b + boot_data_at h) = Some (boot_data_at h OR PTE_P OR PTE_RW)
    \<and> n_pages b = 32
    \<and> (\<forall>i < 32. tr (free_memory b + PAGE_SIZE * of_nat i) =
          Some ((free_memory b - paddr_base b + PAGE_SIZE * of_nat i) OR PTE_P OR PTE_RW))
    \<and> paddr_base b + paddr_size b = KERNEL_BASE \<and> mmio_base b + mmio_size b = paddr_base b
    \<and> NumEntries b \<noteq> 0 \<and> successively (\<lambda>p m. \<not> can_merge p m) (take (unat (NumEntries b)) (MemoryMap b))"
proof -
  obtain n h1 h2 where 1: "efi_prepare sv blank s = Inr (n, h1)" and 2: "efi_exit_boot sv n h1 = Inr h2"
    and h: "h = h2\<lparr>machine := snd (efi_setup_new_stack (new_stack h2) (machine h2))\<rparr>"
      "sp = fst (efi_setup_new_stack (new_stack h2) (machine h2))"
    using assms(6) by (auto simp: efi_boot_def bind_eq_Inr case_prod_beta Let_def)
  note p = efi_prepare_correct[OF assms(1-4) 1]
  obtain b' where h2: "h2 = h1\<lparr>boot_data := b'\<rparr>"
    and b': "b' = (boot_data h1)\<lparr>RT := paddr_base (boot_data h1) + RT_at sv, NumEntries := NumEntries b',
        MemoryMap := MemoryMap b'\<rparr>"
    and map: "NumEntries b' \<noteq> 0" "successively (\<lambda>p m. \<not> can_merge p m) (take (unat (NumEntries b')) (MemoryMap b'))"
    using efi_exit_boot_correct[OF 2 assms(5)] by blast
  have stack: "is_page (new_stack h1)"
    and tabs: "\<forall>x \<in> set (tabs (lrd (machine h1)) 0 3 (boot_page_table h1)). is_page x"
      "new_stack h1 \<notin> set (tabs (lrd (machine h1)) 0 3 (boot_page_table h1))"
    using p by auto
  have sp: "sp = new_stack h1 + PAGE_SIZE - 8" and fields: "new_stack h = new_stack h1"
    "boot_data_at h = boot_data_at h1" "boot_page_table h = boot_page_table h1" "boot_data h = b'"
    "machine h = (machine h1)\<lparr>lmem := store64 (lmem (machine h1)) (new_stack h1 + PAGE_SIZE - 8) 0\<rparr>"
    by (simp_all add: h h2 efi_setup_new_stack_def Let_def)
  have same: "boot_translate (machine h) (boot_page_table h) w = boot_translate (machine h1) (boot_page_table h1) w" for w
    unfolding fields
    by (rule walk_other_page[OF tabs(1)]) (simp_all add: last_quad[OF stack] tabs(2))
  have "boot_translate (machine h1) (boot_page_table h1) sp =
      boot_translate (machine h1) (boot_page_table h1) (new_stack h1)"
    using page_like_walk last_quad(3)[OF stack] unfolding page_like_def boot_translate_def[abs_def] sp by blast
  moreover have "n_pages b' = n_pages (boot_data h1)" "free_memory b' = free_memory (boot_data h1)"
    "paddr_base b' = paddr_base (boot_data h1)" "paddr_size b' = paddr_size (boot_data h1)"
    "mmio_base b' = mmio_base (boot_data h1)" "mmio_size b' = mmio_size (boot_data h1)"
    by (subst b', simp)+
  ultimately show ?thesis
    using p map sp fields(1,2) unfolding assms(7,8) same fields(4) Let_def by simp
qed


section \<open>A boot\<close>

text \<open>
  The firmware of 64 pages boots a kernel of one segment, with its ELF header, two program
  headers and an empty dynamic section.
\<close>

definition k_ehdr :: Elf64_Ehdr where
  "k_ehdr = \<lparr>e_ident = [0x7f, 0x45, 0x4c, 0x46, 2, 1, 1, 0, 0, 0, 0, 0, 0, 0, 0, 0], e_type = 3,
     e_machine = 62, e_version = 1, e_entry = 0x1000, e_phoff = 64, e_shoff = 0, e_flags = 0,
     e_ehsize = 64, e_phentsize = 56, e_phnum = 2, e_shentsize = 64, e_shnum = 0, e_shstrndx = 0\<rparr>"

definition k_load :: Elf64_Phdr where
  "k_load = \<lparr>p_type = PT_LOAD, p_flags = 7, p_offset = 0, p_vaddr = 0, p_paddr = 0, p_filesz = 192,
     p_memsz = 0x2000, p_align = 0x1000\<rparr>"

definition k_dyn :: Elf64_Phdr where
  "k_dyn = \<lparr>p_type = PT_DYNAMIC, p_flags = 6, p_offset = 176, p_vaddr = 176, p_paddr = 176,
     p_filesz = 16, p_memsz = 16, p_align = 8\<rparr>"

definition k_content :: "u8 list" where
  "k_content = encode_Ehdr k_ehdr @ encode_Phdr k_load @ encode_Phdr k_dyn
     @ encode_Dyn \<lparr>d_tag = DT_NULL, d_un = 0\<rparr>"

definition k_file :: efi_file where
  "k_file = \<lparr>SetPosition = (\<lambda>_. 0), Read = (\<lambda>off n. (0, take (unat n) (drop (unat off) k_content)))\<rparr>"

lemma k_lengths: "length (encode_Ehdr k_ehdr) = 64" "length (encode_Phdr ph) = 56" "length (encode_Dyn d) = 16"
  by (simp_all add: encode_Ehdr_def encode_Phdr_def encode_Dyn_def k_ehdr_def)

lemma length_k_content: "length k_content = 192"
  by (simp add: k_content_def k_lengths)

lemma k_header: "decode_Ehdr (take 64 k_content) = k_ehdr"
proof -
  have "take 64 k_content = encode_Ehdr k_ehdr" by (simp add: k_content_def k_lengths)
  moreover have "length (e_ident k_ehdr) = 16" by (simp add: k_ehdr_def)
  ultimately show ?thesis by (simp add: decode_encode_Ehdr)
qed

lemma k_phdrs: "file_phdr k_content 0 = k_load" "file_phdr k_content 1 = k_dyn"
proof -
  have "unat (e_phoff k_ehdr) = 64" by (simp add: k_ehdr_def)
  moreover have "take 56 (drop 64 k_content) = encode_Phdr k_load"
    "take 56 (drop 120 k_content) = encode_Phdr k_dyn"
    by (simp_all add: k_content_def k_lengths)
  ultimately show "file_phdr k_content 0 = k_load" "file_phdr k_content 1 = k_dyn"
    by (simp_all add: file_phdr_def k_header phdr_bytes_def decode_encode_Phdr)
qed

lemma k_has: "file_has k_file k_content"
  by (simp add: file_has_def k_file_def)

lemma k_read:
  "unat off + unat n \<le> 192 \<Longrightarrow> efi_read k_file off n = Inr (take (unat n) (drop (unat off) k_content))"
  by (simp add: efi_read_def k_file_def EFI_ERROR_def length_k_content)

lemma k_read_headers: "efi_read_program_headers (\<lambda>_. True) k_file = Inr (k_ehdr, Some [k_load, k_dyn])"
proof -
  have n: "e_phnum k_ehdr = 2" "e_phoff k_ehdr = 64" "ELF_VERIFY_MAGIC k_ehdr"
    by (simp_all add: k_ehdr_def ELF_VERIFY_MAGIC_def)
  have "efi_read k_file 0 64 = Inr (take 64 k_content)" "efi_read k_file 64 112 = Inr (take 112 (drop 64 k_content))"
    by (simp_all add: k_read)
  moreover have "take 112 (drop 64 k_content) = encode_Phdr k_load @ encode_Phdr k_dyn"
    by (simp add: k_content_def k_lengths)
  moreover have "[0..<2] = [0, 1 :: nat]" by (simp add: upt_rec)
  ultimately show ?thesis
    by (simp add: efi_read_program_headers_def sizeof_Ehdr_def sizeof_Phdr_def k_header n Let_def
        array_at_def k_lengths decode_encode_Phdr)
qed

definition k_loaded :: "Elf64_Phdr list" where
  "k_loaded = [k_load\<lparr>p_vaddr := 0xffffffffc0000000, p_paddr := 0x123000\<rparr>,
     k_dyn\<lparr>p_vaddr := 0xffffffffc00000b0, p_paddr := 0x1230b0\<rparr>]"

lemma k_load_pages:
  assumes "fw s = 35"
  shows "\<exists>s'. load_elf_pages bump_firmware k_file k_ehdr [k_load, k_dyn] s = Inr (k_loaded, s') \<and> fw s' = 37"
proof -
  have n: "unat (e_phnum k_ehdr) = 2" "[0..<2] = [0, 1 :: nat]"
    by (simp_all add: k_ehdr_def upt_rec)
  have rd: "efi_read k_file 0 192 = Inr k_content" by (simp add: k_read length_k_content)
  let ?ph = "k_load\<lparr>p_vaddr := 0xffffffffc0000000, p_paddr := 0x123000\<rparr>"
  have 1: "\<exists>s'. load_segment bump_firmware k_file 0 ([k_load, k_dyn], s) = Inr ([?ph, k_dyn], s') \<and> fw s' = 37"
    using assms rd
    by (simp add: load_segment_def k_load_def move_phdr_def elf_consts KERNEL_BASE_def AllocatePages_def
        bump_firmware_def efi_elf_read_def NUM_PAGES_def NEXT_PAGE_def PAGE_BASE_def PAGE_SIZE_def
        PAGE_OFFSET_def Let_def)
  have 2: "load_segment bump_firmware k_file 1 ([?ph, k_dyn], s') =
      Inr ([?ph, k_dyn\<lparr>p_vaddr := 0xffffffffc00000b0\<rparr>], s')" for s' :: "nat loader"
    by (simp add: load_segment_def k_dyn_def move_phdr_def elf_consts KERNEL_BASE_def Let_def)
  have "fold (set_paddr 2) [0, 1] [?ph, k_dyn\<lparr>p_vaddr := 0xffffffffc00000b0\<rparr>] = k_loaded"
    by (simp add: set_paddr_def holds_segment_def IN_RANGE_def k_loaded_def k_load_def k_dyn_def
        elf_consts PAGE_BASE_def PAGE_SIZE_def PAGE_OFFSET_def Let_def upt_rec)
  with 1 2 show ?thesis unfolding load_elf_pages_def Let_def n by auto
qed

lemma k_image:
  "2 = unat (e_phnum k_ehdr)" "[k_load, k_dyn] = map (file_phdr k_content) [0..<2]"
  "i < 2 \<Longrightarrow> p_type ([k_load, k_dyn] ! i) = PT_LOAD \<Longrightarrow> fits ([k_load, k_dyn] ! i)"
  "64 \<le> unat (e_phoff k_ehdr)"
  "unat (e_phoff k_ehdr) + 56 * 2 \<le> unat (p_filesz ([k_load, k_dyn] ! 0))"
  using k_phdrs
  by (auto simp: upt_rec less_2_cases_iff k_ehdr_def k_load_def k_dyn_def fits_def elf_consts)

lemma k_load_kernel:
  assumes "fw s = 35"
  shows "\<exists>s'. load_kernel bump_firmware (\<lambda>_. True) (Inr k_file) s = Inr (0x123000, 0x123040, s')
    \<and> read_ehdr (lmem s') 0x123000 = k_ehdr\<lparr>e_entry := 0xffffffffc0001000\<rparr>
    \<and> read_phdrs_at (lmem s') 0x123040 2 = k_loaded \<and> fw s' = 37"
proof -
  obtain s1 where load: "load_elf_pages bump_firmware k_file k_ehdr [k_load, k_dyn] s = Inr (k_loaded, s1)"
    and fw: "fw s1 = 37" using k_load_pages[OF assms] by blast
  have first: "p_type (k_loaded ! 0) = PT_LOAD" "p_offset (k_loaded ! 0) = 0"
    by (simp_all add: k_loaded_def k_load_def)
  have "\<exists>e p s'. load_kernel bump_firmware (\<lambda>_. True) (Inr k_file) s = Inr (e, p, s')"
    by (simp add: load_kernel_def k_read_headers load first Let_def)
  then obtain e p s' where run: "load_kernel bump_firmware (\<lambda>_. True) (Inr k_file) s = Inr (e, p, s')"
    by blast
  from load_kernel_correct[OF bump_aligned bump_separate k_has run k_header[symmetric] k_image]
  have "e = p_paddr (k_loaded ! 0)" "p = e + e_phoff k_ehdr" "fw s' = 37"
    "read_ehdr (lmem s') e = k_ehdr\<lparr>e_entry := e_entry k_ehdr + KERNEL_BASE\<rparr>"
    "read_phdrs_at (lmem s') p 2 = k_loaded"
    using load fw by auto
  with run show ?thesis by (simp add: k_loaded_def k_ehdr_def KERNEL_BASE_def)
qed

theorem load_kernel_headers_witness:
  "\<exists>s'. load_kernel bump_firmware (\<lambda>_. True) (Inr k_file) \<lparr>lmem = \<lambda>_. 0, fw = 35\<rparr> =
      Inr (0x123000, 0x123040, s')
    \<and> e_entry (read_ehdr (lmem s') 0x123000) = 0xffffffffc0001000"
proof -
  obtain s' where run: "load_kernel bump_firmware (\<lambda>_. True) (Inr k_file) \<lparr>lmem = \<lambda>_. 0, fw = 35\<rparr> =
      Inr (0x123000, 0x123040, s')"
    using k_load_kernel[of "\<lparr>lmem = \<lambda>_. 0, fw = 35\<rparr>"] by auto
  from load_kernel_headers[OF bump_aligned bump_separate k_has run k_header[symmetric] k_image] run
  show ?thesis by (auto simp: k_ehdr_def KERNEL_BASE_def)
qed

definition k_map :: "EFI_MEMORY_DESCRIPTOR list" where
  "k_map = map (\<lambda>(t, p, n, a). \<lparr>Type = t, PhysicalStart = p, VirtualStart = 0,
       NumberOfPages = n, Attribute = a\<rparr>)
     [(EfiBootServicesCode, 0, 1, 15), (EfiConventionalMemory, 0x1000, 0xff, 15),
      (EfiLoaderData, 0x100000, 64, 15), (EfiConventionalMemory, 0x140000, 0x1ec0, 15),
      (EfiMemoryMappedIO, 0xfee00000, 1, EFI_MEMORY_RUNTIME)]"

definition k_services :: "nat services" where
  "k_services = \<lparr>alloc = bump_firmware, pool = (\<lambda>_. True), LibMemoryMap = (\<lambda>_. Some (k_map, 48)),
     Open = (\<lambda>_. Inr k_file),
     GetMemoryMap = (\<lambda>_ n. if n < 240 then Inl EFI_OUT_OF_RESOURCES else Inr (k_map, 7)),
     ExitBootServices = (\<lambda>_ _. 0), SetVirtualAddressMap = (\<lambda>_ _. 0), sizeof_descriptor = 48,
     RT_at = 0x7f00000\<rparr>"

definition bump_frames :: "nat \<Rightarrow> u64 list" where
  "bump_frames k = map (\<lambda>i. 0x100000 + PAGE_SIZE * of_nat i) [k..<64]"

lemma bump_frames_64: "\<forall>i \<in> set [0..<64]. is_frame (0x100000 + PAGE_SIZE * of_nat i)"
  by (simp add: upt_rec is_frame_def PTE_ADDR_MASK_def PAGE_SIZE_def)

lemma bump_frames_distinct: "distinct (bump_frames k)"
proof -
  have "distinct (bump_frames 0)" by (simp add: bump_frames_def upt_rec PAGE_SIZE_def)
  then have "inj_on (\<lambda>i. 0x100000 + PAGE_SIZE * of_nat i :: u64) (set [0..<64])"
    unfolding bump_frames_def distinct_map by blast
  then have "inj_on (\<lambda>i. 0x100000 + PAGE_SIZE * of_nat i :: u64) (set [k..<64])"
    by (rule inj_on_subset) auto
  then show ?thesis unfolding bump_frames_def distinct_map by simp
qed

lemma bump_gives: "gives bump_firmware EFI_OUT_OF_RESOURCES k (bump_frames k)"
proof (induction "64 - k" arbitrary: k)
  case 0
  then show ?case by (simp add: bump_frames_def bump_firmware_def)
next
  case (Suc d)
  then have k: "k < 64" by simp
  have "bump_frames k = (0x100000 + PAGE_SIZE * of_nat k) # bump_frames (Suc k)"
    using k by (simp add: bump_frames_def upt_conv_Cons)
  moreover have "is_frame (0x100000 + PAGE_SIZE * of_nat k)" using bump_frames_64 k by simp
  ultimately show ?case using k Suc(1)[of "Suc k"] Suc(2) by (simp add: bump_firmware_def)
qed

lemma k_finite: "finite_frames (alloc k_services)"
  using bump_gives bump_frames_distinct unfolding finite_frames_def by (simp add: k_services_def) blast

lemma k_lists: "lists_given k_services"
  unfolding lists_given_def
proof (intro allI impI)
  fix f n page f1 f2 mm size
  assume a: "alloc k_services EfiLoaderData n f = (Inr page, f1)" and n: "n \<noteq> 0"
    and m: "LibMemoryMap k_services f2 = Some (mm, size)"
  have mm: "mm = k_map" using m by (simp add: k_services_def)
  have "0 < unat n" using n by (simp add: unat_gt_0)
  then have f: "f < 64" and page: "page = 0x100000 + PAGE_SIZE * of_nat f"
    using a by (auto simp: k_services_def bump_firmware_def split: if_splits)
  have "k_map ! 2 \<in> set k_map" by (simp add: k_map_def)
  moreover have "Type (k_map ! 2) = EfiLoaderData" "PhysicalStart (k_map ! 2) = 0x100000"
    "unat (NumberOfPages (k_map ! 2)) = 64" by (simp_all add: k_map_def)
  ultimately have "lists k_map page" unfolding lists_def using f page by metis
  then show "length mm < 2 ^ 64 \<and> lists mm page" by (simp add: mm) (simp add: k_map_def)
qed

lemma k_fits: "map_fits k_services"
proof -
  have "length k_map = 5" by (simp add: k_map_def)
  then show ?thesis
    by (auto simp: map_fits_def k_services_def word_less_nat_alt split: if_splits)
qed

definition k_blank :: bootloader_data where
  "k_blank = sample_data\<lparr>n_pages := 32, free_memory := 0x103000\<rparr>"

lemma k_regions: "paddr_base (compute_regions k_map 5 k_blank) = 0xffffffffbe000000"
  "free_memory (compute_regions k_map 5 k_blank) = 0x103000"
  "n_pages (compute_regions k_map 5 k_blank) = 32"
proof -
  have "paddr_size (compute_regions k_map 5 k_blank) = 0x2000000"
    by (simp add: compute_regions_paddr) (simp add: k_map_def end_of_def PAGE_SIZE_def)
  then show "paddr_base (compute_regions k_map 5 k_blank) = 0xffffffffbe000000"
    using compute_regions_layout(1)[of k_map 5 k_blank]
    by (simp add: KERNEL_BASE_def eq_diff_eq[symmetric])
qed (simp_all add: compute_regions_keeps k_blank_def)

definition k_vaddrs :: "u64 list" where
  "k_vaddrs = map (\<lambda>i. 0x100000 + PAGE_SIZE * of_nat i) [0..<64] @ [0xffffffffbe101000]
     @ map (\<lambda>i. 0xffffffffbe103000 + PAGE_SIZE * of_nat i) [0..<32]
     @ [0xffffffffc0000000, 0xffffffffc0001000]"

lemma k_requests:
  "map fst (boot_requests k_map 5 0x101000 (compute_regions k_map 5 k_blank)
     (k_ehdr\<lparr>e_entry := 0xffffffffc0001000\<rparr>) k_loaded) = k_vaddrs"
proof -
  have fst_range: "map fst (range_requests p v n f) = map (\<lambda>i. v + PAGE_SIZE * of_nat i) [0..<unat n]"
    for p v n f by (simp add: range_requests_def comp_def)
  have "identity_requests k_map i = (if i = 2 then range_requests 0x100000 0x100000 64 PTE_RW else [])"
    if "i \<in> set [0, 1, 2, 3, 4]" for i
    using that by (auto simp: identity_requests_def k_map_def Let_def)
  then have ident: "map fst (concat (map (identity_requests k_map) [0, 1, 2, 3, 4])) =
      map (\<lambda>i. 0x100000 + PAGE_SIZE * of_nat i) [0..<64]"
    by (simp add: fst_range)
  have "image_requests k_loaded 1 = []"
    by (simp add: image_requests_def k_loaded_def k_dyn_def elf_consts)
  then have image: "map fst (concat (map (image_requests k_loaded) [0, 1])) = [0xffffffffc0000000, 0xffffffffc0001000]"
    by (simp add: image_requests_def k_loaded_def k_load_def fst_range elf_consts NUM_PAGES_def
        NEXT_PAGE_def PAGE_BASE_def PAGE_SIZE_def upt_rec)
  have ranges: "[0..<unat (5 :: u64)] = [0, 1, 2, 3, 4]"
    "[0..<unat (e_phnum (k_ehdr\<lparr>e_entry := 0xffffffffc0001000\<rparr>))] = [0, 1]"
    by (simp_all add: k_ehdr_def upt_rec)
  have direct: "map fst (range_requests 0x101000 (0xffffffffbe000000 + 0x101000) 1 PTE_RW) = [0xffffffffbe101000]"
    "map fst (range_requests 0x103000 (0xffffffffbe000000 + 0x103000) 32 PTE_RW) =
      map (\<lambda>i. 0xffffffffbe103000 + PAGE_SIZE * of_nat i) [0..<32]"
    by (simp_all add: fst_range) (simp add: upt_rec)?
  show ?thesis
    unfolding boot_requests_def k_regions map_append ranges ident image direct k_vaddrs_def by (rule refl)
qed

lemma k_ascending: "successively (<) (map VPAGE k_vaddrs)"
  by (simp add: k_vaddrs_def VPAGE_def PTE_ADDR_MASK_def PAGE_SIZE_def upt_rec)

lemma k_distinct: "distinct (map VPAGE k_vaddrs)"
proof -
  have "sorted_wrt (<) (map VPAGE k_vaddrs)"
    using k_ascending by (simp add: successively_conv_sorted_wrt transp_on_less)
  then show ?thesis by (simp add: strict_sorted_iff)
qed

lemma k_tables: "n_tables (set k_vaddrs) \<le> 8"
proof -
  have "\<forall>v \<in> set k_vaddrs. table_of 3 v \<in> set [0, 0x1ff]"
    "\<forall>v \<in> set k_vaddrs. table_of 2 v \<in> set [0, 0x3fffe, 0x3ffff]"
    "\<forall>v \<in> set k_vaddrs. table_of 1 v \<in> set [0, 0x7fffdf0, 0x7fffe00]"
    by (simp_all add: k_vaddrs_def table_of_def VPAGE_def PTE_ADDR_MASK_def PAGE_SIZE_def upt_rec)
  then have sub: "table_of 3 ` set k_vaddrs \<subseteq> set [0, 0x1ff]"
    "table_of 2 ` set k_vaddrs \<subseteq> set [0, 0x3fffe, 0x3ffff]"
    "table_of 1 ` set k_vaddrs \<subseteq> set [0, 0x7fffdf0, 0x7fffe00]"
    by blast+
  have bound: "card S \<le> length xs" if "S \<subseteq> set xs" for S :: "u64 set" and xs
    using that card_mono[OF finite_set that] card_length[of xs] by linarith
  show ?thesis
    using bound[OF sub(1)] bound[OF sub(2)] bound[OF sub(3)] by (simp add: n_tables_def)
qed

lemma k_prepare:
  assumes "fw s = 37"
  shows "\<exists>x. prepare_boot_page_tables bump_firmware k_map 5 0x101000 k_blank
    (k_ehdr\<lparr>e_entry := 0xffffffffc0001000\<rparr>) k_loaded s = Inr x"
proof (rule ccontr)
  let ?rs = "boot_requests k_map 5 0x101000 (compute_regions k_map 5 k_blank)
     (k_ehdr\<lparr>e_entry := 0xffffffffc0001000\<rparr>) k_loaded"
  assume "\<not> ?thesis"
  then obtain e where stop: "prepare_boot_page_tables bump_firmware k_map 5 0x101000 k_blank
    (k_ehdr\<lparr>e_entry := 0xffffffffc0001000\<rparr>) k_loaded s = Inl e"
    by (meson sum.exhaust)
  have frames: "bump_frames 37 = 0x125000 # bump_frames 38"
    by (simp add: bump_frames_def PAGE_SIZE_def upt_conv_Cons)
  have give: "gives bump_firmware EFI_OUT_OF_RESOURCES (fw s) (0x125000 # bump_frames 38)"
    using bump_gives[of 37] unfolding frames assms .
  have dist: "distinct (0x125000 # bump_frames 38)"
    using bump_frames_distinct[of 37] unfolding frames .
  have "distinct (vpages ?rs)"
    using k_distinct unfolding vpages_def k_requests[symmetric] map_map comp_def .
  then have "spec_maps ?rs (\<lambda>_. None) \<noteq> None"
    using spec_maps_some[OF page_like_empty] by fastforce
  moreover have "boot_demand k_map 5 0x101000 (compute_regions k_map 5 k_blank)
     (k_ehdr\<lparr>e_entry := 0xffffffffc0001000\<rparr>) k_loaded \<le> 8"
    using k_tables unfolding boot_demand_def list.set_map[symmetric] k_requests .
  moreover have "length (bump_frames 38) = 26" by (simp add: bump_frames_def)
  ultimately show False
    using prepare_stops[OF give dist stop refl] by linarith
qed

lemma bump_allocate:
  "fw s + unat n \<le> 64 \<Longrightarrow> \<exists>s'. allocate_pages bump_firmware n s =
     Inr (0x100000 + PAGE_SIZE * of_nat (fw s), s') \<and> fw s' = fw s + unat n"
  by (simp add: allocate_pages_def AllocatePages_def bump_firmware_def)

lemma k_efi_prepare:
  assumes "fw s = 0"
  shows "\<exists>h. efi_prepare k_services sample_data s = Inr (5, h)"
proof -
  obtain s1 where 1: "allocate_pages bump_firmware 1 s = Inr (0x100000, s1)" "fw s1 = 1"
    using bump_allocate[of s 1] assms by auto
  obtain s2 where 2: "allocate_pages bump_firmware 2 s1 = Inr (0x101000, s2)" "fw s2 = 3"
    using bump_allocate[of s1 2] 1(2) by (auto simp: PAGE_SIZE_def)
  obtain s3 where 3: "allocate_pages bump_firmware 32 s2 = Inr (0x103000, s3)" and fw3: "fw s3 = 35"
    using bump_allocate[of s2 32] 2(2) by (auto simp: PAGE_SIZE_def)
  obtain s4 where load: "load_kernel bump_firmware (\<lambda>_. True) (Inr k_file) s3 = Inr (0x123000, 0x123040, s4)"
    and hdr: "read_ehdr (lmem s4) 0x123000 = k_ehdr\<lparr>e_entry := 0xffffffffc0001000\<rparr>"
    and phs: "read_phdrs_at (lmem s4) 0x123040 2 = k_loaded" and fw: "fw s4 = 37"
    using k_load_kernel[OF fw3] by blast
  obtain root b s5 where "prepare_boot_page_tables bump_firmware k_map 5 0x101000 k_blank
    (k_ehdr\<lparr>e_entry := 0xffffffffc0001000\<rparr>) k_loaded s4 = Inr (root, b, s5)"
    using k_prepare[OF fw] by auto
  moreover have "length k_map = 5" by (simp add: k_map_def)
  moreover have "e_phnum (k_ehdr\<lparr>e_entry := 0xffffffffc0001000\<rparr>) = 2" by (simp add: k_ehdr_def)
  ultimately show ?thesis
    using 1 2 3 load hdr phs
    by (simp add: efi_prepare_def k_services_def Let_def flip: k_blank_def)
qed

lemma k_exit_boot: "\<exists>h'. efi_exit_boot k_services 5 h = Inr h'"
proof -
  let ?b = "(boot_data h)\<lparr>MemoryMap := k_map, NumEntries := 5\<rparr>"
  have "accepts_mmap ?b" by (simp add: accepts_mmap_def k_map_def)
  moreover have "unat (NumEntries ?b) \<le> length (MemoryMap ?b)" by (simp add: k_map_def)
  ultimately obtain b' where "init_mmap ?b = Inr b'" using init_mmap_eq by blast
  moreover have "length k_map = 5" by (simp add: k_map_def)
  ultimately show ?thesis
    by (simp add: efi_exit_boot_def k_services_def EFI_ERROR_def PAGE_SIZE_def sizeof_bootloader_data_def Let_def)
qed

lemma k_boot:
  assumes "fw s = 0"
  shows "\<exists>sp h. efi_boot k_services sample_data s = Inr (sp, h)"
proof -
  obtain h where "efi_prepare k_services sample_data s = Inr (5, h)"
    using k_efi_prepare[OF assms] by blast
  moreover obtain h' where "efi_exit_boot k_services 5 h = Inr h'"
    using k_exit_boot by blast
  ultimately show ?thesis by (simp add: efi_boot_def case_prod_beta Let_def)
qed

lemma k_promises: "separate_given (alloc k_services)" "page_aligned (alloc k_services)"
  using bump_separate bump_aligned by (simp_all add: k_services_def)

end
