(* ===== verification/DevicePath.thy ===== *)
theory DevicePath
  imports CString Loader
begin

text \<open>
  Device paths and load options: \<open>get_devp_size\<close>, \<open>AppendPath\<close> and \<open>make_load_option\<close> of
  \<open>efi/efi-wrapper.c\<close>, which build byte-packed buffers in pool memory. The firmware's
  \<open>AllocatePool\<close> is a parameter, 0 is \<open>NULL\<close>. Abstractly a device path is a list of nodes.
\<close>

section \<open>Operations\<close>

type_synonym 'f pool = "u64 \<Rightarrow> 'f \<Rightarrow> u64 \<times> 'f"

definition pool_alloc :: "'f pool \<Rightarrow> u64 \<Rightarrow> 'f loader \<Rightarrow> (u64 \<times> 'f loader) result" where
  "pool_alloc pool n s =
     (let (p, f) = pool n (fw s) in
      if p = 0 then Inl (Exited EFI_ABORTED) else Inr (p, s\<lparr>fw := f\<rparr>))"

definition EFI_DEVICE_PATH_LENGTH :: "mem \<Rightarrow> u64 \<Rightarrow> u16" where
  "EFI_DEVICE_PATH_LENGTH m devp = push_bit 8 (ucast (m (devp + 3))) OR ucast (m (devp + 2))"

text \<open>The loop of \<open>get_devp_size\<close> does not end on a path without an end node: \<open>None\<close>.\<close>

partial_function (option) devp_loop :: "mem \<Rightarrow> u64 \<Rightarrow> u16 \<Rightarrow> u16 option" where
  "devp_loop m Devp Size =
     (if m Devp \<noteq> 0x7f
      then let Length = EFI_DEVICE_PATH_LENGTH m Devp
           in devp_loop m (Devp + ucast Length) (Size + Length)
      else Some Size)"

definition get_devp_size :: "mem \<Rightarrow> u64 \<Rightarrow> u16 option" where
  "get_devp_size m Devp = devp_loop m Devp 0"

definition EndOfDevicePath :: "u8 list" where "EndOfDevicePath = [0x7f, 0xff, 4, 0]"

definition AppendPath ::
  "'f pool \<Rightarrow> u64 \<Rightarrow> u64 \<Rightarrow> 'f loader \<Rightarrow> (u64 \<times> u16 \<times> 'f loader) result option" where
  "AppendPath pool Devp1 Devp2 s =
     (if Devp1 = 0 \<or> Devp2 = 0 then Some (Inl (Exited EFI_ABORTED))
      else
        Option.bind (get_devp_size (lmem s) Devp1) (\<lambda>size1.
        Option.bind (get_devp_size (lmem s) Devp2) (\<lambda>size2.
        let p1Size = ucast size1 :: u64; p2Size = ucast size2 :: u64;
            NewSize = ucast (p1Size + p2Size + 4) :: u16 in
        Some (bind (pool_alloc pool (ucast NewSize) s) (\<lambda>(NewPath, s).
          let End = NewPath;
              m = fst (memcpy (lmem s) End Devp1 p1Size);
              End = End + p1Size;
              m = fst (memcpy m End Devp2 p2Size);
              End = End + p2Size;
              m = store_bytes m End EndOfDevicePath
          in Inr (NewPath, NewSize, s\<lparr>lmem := m\<rparr>))))))"

lemma length_EndOfDevicePath [simp]: "length EndOfDevicePath = 4"
  by (simp add: EndOfDevicePath_def)

record EFI_LOAD_OPTION =
  Attributes :: u32
  FilePathListLength :: u16

definition option_header :: "EFI_LOAD_OPTION \<Rightarrow> u8 list" where
  "option_header Header = le_bytes 4 (Attributes Header) @ le_bytes 2 (FilePathListLength Header)"

text \<open>Wide strings are lists of \<open>CHAR16\<close> that include the terminator.\<close>

definition wide_bytes :: "u16 list \<Rightarrow> u8 list" where
  "wide_bytes cs = concat (map (le_bytes 2) cs)"

definition make_load_option ::
  "'f pool \<Rightarrow> (u16 list \<Rightarrow> u64) \<Rightarrow> EFI_LOAD_OPTION \<Rightarrow> u16 list \<Rightarrow> u64 \<Rightarrow> u16 \<Rightarrow> 'f loader
    \<Rightarrow> (u64 \<times> u64 \<times> 'f loader) result" where
  "make_load_option pool StrSize Header Description Devp DevpSize s =
     (let DescriptionSize = StrSize Description;
          LoadOptionSize = 6 + DescriptionSize + ucast DevpSize in
      bind (pool_alloc pool LoadOptionSize s) (\<lambda>(buf, s).
        let e = buf;
            m = store_bytes (lmem s) e (option_header Header);
            e = e + 6;
            m = store_bytes m e (take (unat DescriptionSize) (wide_bytes Description));
            e = e + DescriptionSize;
            m = fst (memcpy m e Devp (ucast DevpSize))
        in Inr (buf, LoadOptionSize, s\<lparr>lmem := m\<rparr>)))"

section \<open>Paths as lists of nodes\<close>

datatype devp_node = Node (node_type: u8) (node_subtype: u8) (node_data: "u8 list")

fun node_bytes :: "devp_node \<Rightarrow> u8 list" where
  "node_bytes (Node t s d) = t # s # le_bytes 2 (of_nat (4 + length d) :: u16) @ d"

definition valid_node :: "devp_node \<Rightarrow> bool" where
  "valid_node n \<longleftrightarrow> node_type n \<noteq> 0x7f \<and> 4 + length (node_data n) < 2 ^ 16"

definition devp_bytes :: "devp_node list \<Rightarrow> u8 list" where
  "devp_bytes ns = concat (map node_bytes ns)"

definition devp_at :: "mem \<Rightarrow> u64 \<Rightarrow> devp_node list \<Rightarrow> bool" where
  "devp_at m p ns \<longleftrightarrow> list_all valid_node ns
     \<and> load_bytes m p (length (devp_bytes ns)) = devp_bytes ns
     \<and> m (p + of_nat (length (devp_bytes ns))) = 0x7f"

lemma length_node_bytes: "length (node_bytes n) = 4 + length (node_data n)"
  by (cases n) simp

lemma load_bytes_append: "load_bytes m a (j + k) = load_bytes m a j @ load_bytes m (a + of_nat j) k"
  by (induction k) (simp_all add: load_bytes_snoc algebra_simps)

lemma devp_at_Nil [simp]: "devp_at m p [] \<longleftrightarrow> m p = 0x7f"
  by (simp add: devp_at_def devp_bytes_def)

lemma devp_at_Cons [simp]: "devp_at m p (n # ns) \<longleftrightarrow> valid_node n
    \<and> load_bytes m p (length (node_bytes n)) = node_bytes n
    \<and> devp_at m (p + of_nat (length (node_bytes n))) ns"
  by (auto simp: devp_at_def devp_bytes_def load_bytes_append algebra_simps)

lemma node_length_read:
  assumes "valid_node n" and "load_bytes m p (length (node_bytes n)) = node_bytes n"
  shows "EFI_DEVICE_PATH_LENGTH m p = of_nat (length (node_bytes n))" "m p = node_type n"
proof -
  obtain t s d where n: "n = Node t s d" by (cases n)
  have bytes: "load_bytes m p (4 + length d) = node_bytes n"
    using assms(2) unfolding length_node_bytes by (simp only: n devp_node.sel)
  have four: "load_bytes m p 4 = t # s # le_bytes 2 (of_nat (4 + length d) :: u16)"
    using arg_cong[of _ _ "take 4", OF bytes] by (simp add: load_bytes_append n del: load_bytes_numeral)
  then show "m p = node_type n" by (simp add: n)
  have "[m (p + 2), m (p + 3)] = le_bytes 2 (of_nat (4 + length d) :: u16)"
    using four by (simp add: add.assoc load_bytes_Suc)
  then have "le_word [m (p + 2), m (p + 3)] = (of_nat (4 + length d) :: u16)"
    by (simp only: le_word_le_bytes) (simp add: take_bit_word_eq_self)
  then show "EFI_DEVICE_PATH_LENGTH m p = of_nat (length (node_bytes n))"
    by (simp add: EFI_DEVICE_PATH_LENGTH_def length_node_bytes n or.commute)
qed

lemma devp_loop_size:
  "devp_at m p ns \<Longrightarrow> devp_loop m p S = Some (S + of_nat (length (devp_bytes ns)))"
proof (induction ns arbitrary: p S)
  case Nil
  then show ?case by (subst devp_loop.simps) (simp add: devp_bytes_def)
next
  case (Cons n ns)
  then have v: "valid_node n" and b: "load_bytes m p (length (node_bytes n)) = node_bytes n"
    and rest: "devp_at m (p + of_nat (length (node_bytes n))) ns" by simp_all
  note rd = node_length_read[OF v b]
  have small: "length (node_bytes n) < 2 ^ 16" using v by (simp add: valid_node_def length_node_bytes)
  then have "(ucast (of_nat (length (node_bytes n)) :: u16) :: u64) = of_nat (length (node_bytes n))"
    by (simp add: word_unat_eq_iff unsigned_ucast_eq unat_of_nat take_bit_nat_eq_self)
  moreover have "m p \<noteq> 0x7f" using v rd(2) by (simp add: valid_node_def)
  ultimately show ?case
    by (subst devp_loop.simps) (simp add: rd(1) Cons.IH[OF rest] devp_bytes_def)
qed

lemma get_devp_size_at: "devp_at m p ns \<Longrightarrow> get_devp_size m p = Some (of_nat (length (devp_bytes ns)))"
  using devp_loop_size[of m p ns 0] by (simp add: get_devp_size_def)

section \<open>Filling a fresh buffer\<close>

text \<open>
  A source range that lies outside the fresh buffer, and copying it to a part of the buffer.
\<close>

definition outside :: "u64 \<Rightarrow> nat \<Rightarrow> u64 \<Rightarrow> nat \<Rightarrow> bool" where
  "outside buf len src n \<longleftrightarrow> (\<forall>i < n. \<not> in_region buf len (src + of_nat i))"

lemma in_region_part:
  assumes "j + n \<le> len" and "len < 2 ^ 64" and "in_region (buf + of_nat j) n x"
  shows "in_region buf len x"
proof -
  have "in_region buf (j + n) x" using assms in_region_add[of j n buf x] by simp
  then show ?thesis using assms(1) by (simp add: in_region_def)
qed

lemma copy_part:
  assumes "outside buf len src n" and "j + n \<le> len" and "len < 2 ^ 64"
  shows "memcpy m (buf + of_nat j) src (of_nat n) =
    (store_bytes m (buf + of_nat j) (load_bytes m src n), buf + of_nat j)"
proof -
  have "\<not> in_region (buf + of_nat j) n (src + of_nat i)" if "i < n" for i
    using assms(1) that in_region_part[OF assms(2,3)] unfolding outside_def by blast
  then show ?thesis
    using memmove_disjoint[of "of_nat n" "buf + of_nat j" src m] assms(2,3)
    by (simp add: memcpy_def)
qed

lemma load_outside:
  assumes "outside buf len src n" and "length bs \<le> len"
  shows "load_bytes (store_bytes m buf bs) src n = load_bytes m src n"
proof (rule load_bytes_cong)
  fix i assume "i < n"
  then have "\<not> in_region buf (length bs) (src + of_nat i)"
    using assms unfolding outside_def in_region_def by fastforce
  then show "store_bytes m buf bs (src + of_nat i) = m (src + of_nat i)" by (rule store_bytes_outside)
qed

lemma AppendPath_correct:
  assumes at: "devp_at (lmem s) p1 ns1" "devp_at (lmem s) p2 ns2" and nz: "p1 \<noteq> 0" "p2 \<noteq> 0"
    and len: "len = length (devp_bytes (ns1 @ ns2)) + 4" "len < 2 ^ 16"
    and pool: "pool (of_nat len) (fw s) = (new, f)" "new \<noteq> 0"
    and out: "outside new len p1 (length (devp_bytes ns1))" "outside new len p2 (length (devp_bytes ns2))"
  shows "AppendPath pool p1 p2 s = Some (Inr (new, of_nat len,
    \<lparr>lmem = store_bytes (lmem s) new (devp_bytes (ns1 @ ns2) @ EndOfDevicePath), fw = f\<rparr>))"
proof -
  let ?b1 = "devp_bytes ns1" and ?b2 = "devp_bytes ns2"
  have l: "len = length ?b1 + length ?b2 + 4" using len(1) by (simp add: devp_bytes_def)
  have small: "length ?b1 < 2 ^ 16" "length ?b2 < 2 ^ 16" "len < 2 ^ 64" using l len(2) by simp_all
  have conv: "(ucast (of_nat k :: u16) :: u64) = of_nat k" if "k < 2 ^ 16" for k
    using that by (simp add: word_unat_eq_iff unsigned_ucast_eq unat_of_nat take_bit_nat_eq_self)
  have new: "(ucast (of_nat (length ?b1) + of_nat (length ?b2) + 4 :: u64) :: u16) = of_nat len"
  proof -
    have "of_nat (length ?b1) + of_nat (length ?b2) + 4 = (of_nat len :: u64)" by (simp add: l)
    then show ?thesis
      using len(2) by (simp add: word_unat_eq_iff unsigned_ucast_eq unat_of_nat take_bit_nat_eq_self)
  qed
  have b: "load_bytes (lmem s) p1 (length ?b1) = ?b1" "load_bytes (lmem s) p2 (length ?b2) = ?b2"
    using at by (simp_all add: devp_at_def)
  have 1: "memcpy (lmem s) new p1 (of_nat (length ?b1)) = (store_bytes (lmem s) new ?b1, new)"
    using copy_part[OF out(1), of 0 "lmem s"] l small(3) b(1) by simp
  have 2: "memcpy (store_bytes (lmem s) new ?b1) (new + of_nat (length ?b1)) p2 (of_nat (length ?b2)) =
      (store_bytes (store_bytes (lmem s) new ?b1) (new + of_nat (length ?b1)) ?b2, new + of_nat (length ?b1))"
    using copy_part[OF out(2), of "length ?b1"] load_outside[OF out(2), of ?b1] l small(3) b(2) by simp
  have "store_bytes (lmem s) new (devp_bytes (ns1 @ ns2) @ EndOfDevicePath) =
      store_bytes (store_bytes (store_bytes (lmem s) new ?b1) (new + of_nat (length ?b1)) ?b2)
        (new + of_nat (length ?b1) + of_nat (length ?b2)) EndOfDevicePath"
    using l small(3)
    by (simp add: devp_bytes_def store_bytes_append EndOfDevicePath_def add.assoc)
  with 1 2 show ?thesis
    by (simp add: AppendPath_def nz get_devp_size_at[OF at(1)] get_devp_size_at[OF at(2)] conv[OF small(1)] conv[OF small(2)]
        new conv[OF len(2)] pool_alloc_def pool Let_def)
qed

lemma length_option_header [simp]: "length (option_header h) = 6"
  by (simp add: option_header_def)

lemma make_load_option_correct:
  assumes strsize: "StrSize desc = of_nat (length (wide_bytes desc))"
    and len: "len = 6 + length (wide_bytes desc) + unat DevpSize" "len < 2 ^ 64"
    and pool: "pool (of_nat len) (fw s) = (buf, f)" "buf \<noteq> 0"
    and out: "outside buf len Devp (unat DevpSize)"
  shows "make_load_option pool StrSize h desc Devp DevpSize s = Inr (buf, of_nat len,
    \<lparr>lmem = store_bytes (lmem s) buf
       (option_header h @ wide_bytes desc @ load_bytes (lmem s) Devp (unat DevpSize)), fw = f\<rparr>)"
proof -
  let ?w = "wide_bytes desc" and ?n = "unat DevpSize"
  let ?m = "store_bytes (store_bytes (lmem s) buf (option_header h)) (buf + 6) ?w"
  have size: "unat (of_nat (length ?w) :: u64) = length ?w"
    "(6 + of_nat (length ?w) + ucast DevpSize :: u64) = of_nat len"
    using len by simp_all
  have m: "?m = store_bytes (lmem s) buf (option_header h @ ?w)"
    using len by (simp add: store_bytes_append)
  have at: "buf + of_nat (6 + length ?w) = buf + 6 + of_nat (length ?w)" by (simp add: add.assoc)
  have "memcpy ?m (buf + 6 + of_nat (length ?w)) Devp (of_nat ?n) =
      (store_bytes ?m (buf + 6 + of_nat (length ?w)) (load_bytes (lmem s) Devp ?n), buf + 6 + of_nat (length ?w))"
    unfolding at[symmetric] using copy_part[OF out, of "6 + length ?w" ?m] len load_outside[OF out, of "option_header h @ ?w"]
    by (simp add: m)
  moreover have "store_bytes ?m (buf + 6 + of_nat (length ?w)) (load_bytes (lmem s) Devp ?n) =
      store_bytes (lmem s) buf (option_header h @ ?w @ load_bytes (lmem s) Devp ?n)"
    unfolding at[symmetric] using len store_bytes_append[of "option_header h @ ?w" "load_bytes (lmem s) Devp ?n" "lmem s" buf]
    by (simp add: m)
  moreover have "(of_nat ?n :: u64) = ucast DevpSize" by simp
  ultimately show ?thesis
    by (simp add: make_load_option_def strsize size pool_alloc_def pool Let_def)
qed

lemma devp_at_store:
  assumes "list_all valid_node ns" and "length (devp_bytes ns) + 4 < 2 ^ 64"
  shows "devp_at (store_bytes m p (devp_bytes ns @ EndOfDevicePath)) p ns"
proof -
  let ?bs = "devp_bytes ns @ EndOfDevicePath"
  have n: "length ?bs = length (devp_bytes ns) + 4" by (simp add: EndOfDevicePath_def)
  then have "load_bytes (store_bytes m p ?bs) p (length (devp_bytes ns) + 4) = ?bs"
    using load_store_bytes[of ?bs m p] assms(2) by simp
  then have "load_bytes (store_bytes m p ?bs) p (length (devp_bytes ns)) = devp_bytes ns"
    "load_bytes (store_bytes m p ?bs) (p + of_nat (length (devp_bytes ns))) 4 = EndOfDevicePath"
    by (simp_all add: load_bytes_append del: load_bytes_numeral)
  then show ?thesis using assms(1) by (simp add: devp_at_def EndOfDevicePath_def)
qed

section \<open>Properties\<close>


text \<open>A node of length 0 makes \<open>get_devp_size\<close> run for ever.\<close>

lemma devp_loop_stuck:
  assumes "devp_loop m p S = Some r"
  shows "m p = 0x7f \<or> EFI_DEVICE_PATH_LENGTH m p \<noteq> 0"
proof (rule devp_loop.raw_induct[where P = "\<lambda>m p S r. m p = 0x7f \<or> EFI_DEVICE_PATH_LENGTH m p \<noteq> 0", OF _ assms])
  fix f :: "mem \<Rightarrow> u64 \<Rightarrow> u16 \<Rightarrow> u16 option" and m p S r
  assume IH: "\<And>m p S r. f m p S = Some r \<Longrightarrow> m p = 0x7f \<or> EFI_DEVICE_PATH_LENGTH m p \<noteq> 0"
    and "(if m p \<noteq> 0x7f then let Length = EFI_DEVICE_PATH_LENGTH m p
          in f m (p + ucast Length) (S + Length) else Some S) = Some r"
  then show "m p = 0x7f \<or> EFI_DEVICE_PATH_LENGTH m p \<noteq> 0"
    by (cases "EFI_DEVICE_PATH_LENGTH m p = 0") (auto simp: Let_def split: if_splits)
qed

text \<open>Two paths of one node each.\<close>

definition sample_disk :: "devp_node list" where
  "sample_disk = [Node 2 1 [0xd0, 0x41, 3, 10, 0, 0, 0, 0]]"

definition sample_path :: "devp_node list" where "sample_path = [Node 4 4 [0x5c, 0, 0, 0]]"

definition sample_paths :: "unit loader" where
  "sample_paths = \<lparr>lmem = store_bytes (store_bytes (\<lambda>_. 0) 0x1000 (devp_bytes sample_disk @ EndOfDevicePath))
     0x2000 (devp_bytes sample_path @ EndOfDevicePath), fw = ()\<rparr>"

lemma outside_le:
  assumes "unat buf + len \<le> unat src" and "unat src + n \<le> 2 ^ 64"
  shows "outside buf len src n"
  unfolding outside_def
proof (intro allI impI)
  fix i assume "i < n"
  then have "unat (src + of_nat i) = unat src + i" using assms(2) by (simp add: unat_word_ariths)
  moreover from this have "unat (src + of_nat i - buf) = unat src + i - unat buf"
    using assms(1) by (simp add: unat_sub_if')
  ultimately show "\<not> in_region buf len (src + of_nat i)" using assms(1) by (simp add: in_region_def)
qed

lemma sample_paths_at:
  "devp_at (lmem sample_paths) 0x1000 sample_disk"
  "devp_at (lmem sample_paths) 0x2000 sample_path"
proof -
  have v: "list_all valid_node sample_path" by (simp add: sample_path_def valid_node_def)
  show "devp_at (lmem sample_paths) 0x2000 sample_path"
    unfolding sample_paths_def loader.simps using v
    by (intro devp_at_store) (simp_all add: sample_path_def devp_bytes_def)
  have le2: "le_bytes 2 w = [ucast w, ucast (drop_bit 8 w)]" for w :: u16
    by (simp add: numeral_2_eq_2)
  show "devp_at (lmem sample_paths) 0x1000 sample_disk"
    by (simp add: sample_paths_def sample_disk_def sample_path_def devp_bytes_def valid_node_def
        EndOfDevicePath_def store_bytes_def load_bytes_Suc le2)
qed


end
