(* ===== verification/EfiVars.thy ===== *)
theory EfiVars
  imports DevicePath KernelImage "HOL-Library.Sublist"
begin

text \<open>
  The EFI variables of \<open>efi/efivars.c\<close>: the scan over all variables, which prints them and
  looks for the boot option of the loader, and its installation. The firmware's variable
  services and gnu-efi's string functions are parameters. A wide string is the list of its
  \<open>CHAR16\<close>, terminator included; what is printed is a list of \<open>efi_line\<close>.
\<close>

section \<open>Names\<close>

definition wide :: "string \<Rightarrow> u16 list" where "wide cs = map of_char cs @ [0]"

text \<open>Running off the end of a string object is undefined, \<open>None\<close>.\<close>

fun StartsWith_loop :: "u16 \<Rightarrow> u16 list \<Rightarrow> u16 list \<Rightarrow> bool option" where
  "StartsWith_loop cp [] Prefix = None"
| "StartsWith_loop cp (cs # String) Prefix =
     (if cs = 0 then Some (cp = 0)
      else case Prefix of
          [] \<Rightarrow> None
        | cp # Prefix \<Rightarrow>
            if cp = 0 then Some True
            else if cs \<noteq> cp then Some False
            else StartsWith_loop cp String Prefix)"

definition StartsWith :: "u16 list \<Rightarrow> u16 list \<Rightarrow> bool option" where
  "StartsWith String Prefix = StartsWith_loop 0 String Prefix"

definition IS_HEX_DIGIT :: "u16 \<Rightarrow> bool" where
  "IS_HEX_DIGIT c \<longleftrightarrow> (of_char (CHR ''0'') \<le> c \<and> c < of_char (CHR ''0'') + 10)
     \<or> (of_char (CHR ''a'') \<le> c \<and> c < of_char (CHR ''a'') + 6)"

text \<open>gnu-efi's string functions and \<open>DevicePathToStr\<close>, which gets the bytes from the path on.\<close>

record efilib =
  StrLen :: "u16 list \<Rightarrow> u64"
  StrCmp :: "u16 list \<Rightarrow> u16 list \<Rightarrow> int"
  StrSize :: "u16 list \<Rightarrow> u64"
  DevicePathToStr :: "u8 list \<Rightarrow> u16 list option"

definition VariableIsBootOption :: "efilib \<Rightarrow> u16 list \<Rightarrow> bool option" where
  "VariableIsBootOption lib Var =
     (if StrLen lib Var \<noteq> 8 then Some False
      else map_option (\<lambda>b. b \<and> IS_HEX_DIGIT (Var ! 4) \<and> IS_HEX_DIGIT (Var ! 5)
                             \<and> IS_HEX_DIGIT (Var ! 6) \<and> IS_HEX_DIGIT (Var ! 6))
             (StartsWith Var (wide ''Boot'')))"

section \<open>One variable\<close>

record EFI_GUID =
  Data1 :: u32
  Data2 :: u16
  Data3 :: u16
  Data4 :: "u8 list"

record 'f variables =
  GetNextVariableName :: "'f \<Rightarrow> u16 list \<Rightarrow> EFI_GUID \<Rightarrow> u64 + u16 list \<times> EFI_GUID"
  GetVariable :: "'f \<Rightarrow> u16 list \<Rightarrow> EFI_GUID \<Rightarrow> u64 \<Rightarrow> u64 + u32 \<times> u8 list"
  SetVariable :: "u16 list \<Rightarrow> EFI_GUID \<Rightarrow> u32 \<Rightarrow> u8 list \<Rightarrow> 'f \<Rightarrow> u64 \<times> 'f"
  page_service :: "'f firmware"
  FreePages :: "u64 \<Rightarrow> 'f \<Rightarrow> 'f"
  AllocatePool :: "'f pool"
  FreePool :: "u64 \<Rightarrow> 'f \<Rightarrow> 'f"
  gEfiGlobalVariableGuid :: EFI_GUID
  stack_guid :: EFI_GUID         \<comment> \<open>what the uninitialised local \<open>Guid\<close> holds\<close>

definition EFI_NOT_FOUND :: u64 where "EFI_NOT_FOUND = 0x800000000000000E"
definition EFI_VARIABLE_NON_VOLATILE :: u32 where "EFI_VARIABLE_NON_VOLATILE = 1"
definition EFI_VARIABLE_BOOTSERVICE_ACCESS :: u32 where "EFI_VARIABLE_BOOTSERVICE_ACCESS = 2"
definition EFI_VARIABLE_RUNTIME_ACCESS :: u32 where "EFI_VARIABLE_RUNTIME_ACCESS = 4"
definition LOAD_OPTION_ACTIVE :: u32 where "LOAD_OPTION_ACTIVE = 1"

datatype efi_line =
    VariableLine bool "u16 list" EFI_GUID
  | BootOrderLine "u16 list"
  | BootCurrentLine u16
  | BootNextLine u16
  | DescriptionLine bool "u16 list"
  | FilePathLine "u16 list"

definition half_at :: "u8 list \<Rightarrow> nat \<Rightarrow> u16" where
  "half_at bs i = le_word (take 2 (drop i bs))"

definition wide_at :: "u8 list \<Rightarrow> nat \<Rightarrow> u16 list" where
  "wide_at bs i = map (\<lambda>k. half_at bs (i + 2 * k)) [0..<(length bs - i) div 2]"

text \<open>
  The fields of a load option in the page \<open>Data\<close>, of which \<open>DataSize\<close> bytes are valid. The
  pointers into it are offsets.
\<close>

record parsed_option =
  OptionAttributes :: u32
  Description :: "u16 list"
  FilePathList :: u64
  OptionalDataSize :: u64

definition parse_load_option :: "efilib \<Rightarrow> u8 list \<Rightarrow> u64 \<Rightarrow> parsed_option" where
  "parse_load_option lib Data DataSize =
     (let Description = wide_at Data 6;
          DescriptionSize = StrSize lib Description;
          FilePathList = 6 + DescriptionSize;
          OptionalData = FilePathList + ucast (half_at Data 4)
      in \<lparr>OptionAttributes = le_word (take 4 Data), Description = Description,
          FilePathList = FilePathList, OptionalDataSize = DataSize - OptionalData\<rparr>)"

record efi_scan =
  Name :: "u16 list"
  Guid :: EFI_GUID
  Data :: "u8 list"
  console :: "efi_line list"

definition say :: "efi_line list \<Rightarrow> efi_scan \<Rightarrow> efi_scan" where
  "say ls st = st\<lparr>console := console st @ ls\<rparr>"

definition print_file_path :: "efilib \<Rightarrow> u8 list \<Rightarrow> efi_scan \<Rightarrow> efi_scan result" where
  "print_file_path lib path st =
     (case DevicePathToStr lib path of
        None \<Rightarrow> Inl (Exited EFI_ABORTED)
      | Some FilePathText \<Rightarrow> Inr (say [FilePathLine FilePathText] st))"

definition print_next_efi_variable ::
  "efilib \<Rightarrow> 'f variables \<Rightarrow> 'f \<Rightarrow> efi_scan \<Rightarrow> (bool \<times> efi_scan) result" where
  "print_next_efi_variable lib sv f st =
     (case GetNextVariableName sv f (Name st) (Guid st) of
        Inl Status \<Rightarrow> if Status = EFI_NOT_FOUND then Inr (False, st) else Inl (Exited Status)
      | Inr (name, guid) \<Rightarrow>
          (case GetVariable sv f name guid PAGE_SIZE of
             Inl Status \<Rightarrow> Inl (Exited Status)
           | Inr (attributes, bytes) \<Rightarrow>
               let DataSize = length bytes;
                   data = bytes @ drop DataSize (Data st);
                   st = \<lparr>Name = name, Guid = guid, Data = data, console = console st\<rparr>;
                   st = say [VariableLine (attributes AND EFI_VARIABLE_NON_VOLATILE \<noteq> 0) name guid] st in
               if StrCmp lib name (wide ''BootOrder'') = 0
               then Inr (True, say [BootOrderLine (map (\<lambda>i. half_at data (2 * i)) [0..<DataSize div 2])] st)
               else if StrCmp lib name (wide ''BootCurrent'') = 0
               then Inr (True, say [BootCurrentLine (half_at data 0)] st)
               else if StrCmp lib name (wide ''BootNext'') = 0
               then Inr (True, say [BootNextLine (half_at data 0)] st)
               else (case VariableIsBootOption lib name of
                   None \<Rightarrow> Inl Undefined
                 | Some False \<Rightarrow> Inr (True, st)
                 | Some True \<Rightarrow>
                     let opt = parse_load_option lib data (of_nat DataSize);
                         st = say [DescriptionLine (OptionAttributes opt AND LOAD_OPTION_ACTIVE \<noteq> 0)
                                     (Description opt)] st in
                     bind (print_file_path lib (drop (unat (FilePathList opt)) data) st) (\<lambda>st.
                     Inr (True, st)))))"

section \<open>All variables\<close>

definition set_boot_variables ::
  "efilib \<Rightarrow> 'f variables \<Rightarrow> u64 \<Rightarrow> u16 \<Rightarrow> 'f loader \<Rightarrow> 'f loader result" where
  "set_boot_variables lib sv BootDevp DevpSize s =
     (let Header = \<lparr>Attributes = LOAD_OPTION_ACTIVE, FilePathListLength = DevpSize\<rparr>;
          access = EFI_VARIABLE_BOOTSERVICE_ACCESS OR EFI_VARIABLE_RUNTIME_ACCESS OR EFI_VARIABLE_NON_VOLATILE in
      bind (make_load_option (AllocatePool sv) (StrSize lib) Header (wide ''opsys loader'') BootDevp DevpSize s)
        (\<lambda>(LoadOption, LoadOptionSize, s).
        let (Status, f) = SetVariable sv (wide ''Boot0004'') (gEfiGlobalVariableGuid sv) access
              (load_bytes (lmem s) LoadOption (unat LoadOptionSize)) (fw s) in
        if EFI_ERROR Status then Inl (Exited Status)
        else
          let f = FreePool sv LoadOption f;
              (Status, f) = SetVariable sv (wide ''BootOrder'') (gEfiGlobalVariableGuid sv) access
                (wide_bytes [0, 4, 3]) f in
          if EFI_ERROR Status then Inl (Exited Status) else Inr (s\<lparr>fw := f\<rparr>)))"

text \<open>The loop over the variables; \<open>None\<close> if the firmware never says \<open>EFI_NOT_FOUND\<close>.\<close>

partial_function (option) scan_variables ::
  "efilib \<Rightarrow> 'f variables \<Rightarrow> 'f \<Rightarrow> bool \<Rightarrow> efi_scan \<Rightarrow> (bool \<times> efi_scan) result option" where
  "scan_variables lib sv f Boot0004Exists st =
     (case print_next_efi_variable lib sv f st of
        Inl e \<Rightarrow> Some (Inl e)
      | Inr (again, st) \<Rightarrow>
          if \<not> again then Some (Inr (Boot0004Exists, st))
          else scan_variables lib sv f
            (if \<not> Boot0004Exists \<and> StrCmp lib (Name st) (wide ''Boot0004'') = 0 then True else Boot0004Exists) st)"

partial_function (option) enumerate_efi_vars ::
  "efilib \<Rightarrow> 'f variables \<Rightarrow> u64 \<Rightarrow> u16 \<Rightarrow> 'f loader \<Rightarrow> 'f loader result option" where
  "enumerate_efi_vars lib sv BootDevp DevpSize s =
     (case allocate_pages (page_service sv) 1 s of Inl e \<Rightarrow> Some (Inl e) | Inr (name_page, s) \<Rightarrow>
     (case allocate_pages (page_service sv) 1 s of Inl e \<Rightarrow> Some (Inl e) | Inr (data_page, s) \<Rightarrow>
     (case scan_variables lib sv (fw s) False
        \<lparr>Name = [0], Guid = stack_guid sv, Data = replicate 4096 0, console = []\<rparr> of
        None \<Rightarrow> None | Some (Inl e) \<Rightarrow> Some (Inl e) | Some (Inr (Boot0004Exists, _)) \<Rightarrow>
     let s = s\<lparr>fw := FreePages sv data_page (FreePages sv name_page (fw s))\<rparr> in
     (case GetVariable sv (fw s) (wide ''BootCurrent'') (gEfiGlobalVariableGuid sv) 2 of
        Inl Status \<Rightarrow> Some (Inl (Exited Status)) | Inr (_, BootCurrent) \<Rightarrow>
     if length BootCurrent \<noteq> 2 then Some (Inl (Exited EFI_ABORTED))
     else if (\<not> Boot0004Exists \<or> half_at BootCurrent 0 \<noteq> 4) \<and> BootDevp \<noteq> 0 \<and> DevpSize \<noteq> 0
     then (case set_boot_variables lib sv BootDevp DevpSize s of
         Inl e \<Rightarrow> Some (Inl e)
       | Inr s \<Rightarrow> enumerate_efi_vars lib sv 0 0 s)
     else Some (Inr s)))))"

section \<open>Names, characterised\<close>

text \<open>What the documentation of gnu-efi says of its string functions.\<close>

definition efilib_ok :: "efilib \<Rightarrow> bool" where
  "efilib_ok lib \<longleftrightarrow>
     (\<forall>s r. 0 \<notin> set s \<longrightarrow> length s < 2 ^ 32 \<longrightarrow>
        StrLen lib (s @ 0 # r) = of_nat (length s) \<and> StrSize lib (s @ 0 # r) = of_nat (2 * (length s + 1)))
   \<and> (\<forall>s t q r. 0 \<notin> set s \<longrightarrow> 0 \<notin> set t \<longrightarrow> (StrCmp lib (s @ 0 # q) (t @ 0 # r) = 0 \<longleftrightarrow> s = t))"

lemma efilib_cmp:
  "efilib_ok lib \<Longrightarrow> 0 \<notin> set s \<Longrightarrow> 0 \<notin> set t \<Longrightarrow> StrCmp lib (s @ [0]) (t @ [0]) = 0 \<longleftrightarrow> s = t"
  by (simp add: efilib_ok_def)

lemma efilib_size:
  "efilib_ok lib \<Longrightarrow> 0 \<notin> set s \<Longrightarrow> length s < 2 ^ 32 \<Longrightarrow> StrSize lib (s @ [0]) = of_nat (2 * (length s + 1))"
  by (simp add: efilib_ok_def)

definition sample_lib :: efilib where
  "sample_lib = \<lparr>StrLen = (\<lambda>s. of_nat (length (takeWhile (\<lambda>c. c \<noteq> 0) s))),
     StrCmp = (\<lambda>s t. if takeWhile (\<lambda>c. c \<noteq> 0) s = takeWhile (\<lambda>c. c \<noteq> 0) t then 0 else 1),
     StrSize = (\<lambda>s. of_nat (2 * (length (takeWhile (\<lambda>c. c \<noteq> 0) s) + 1))),
     DevicePathToStr = (\<lambda>bs. Some [0])\<rparr>"

lemma takeWhile_string: "0 \<notin> set s \<Longrightarrow> takeWhile (\<lambda>c. c \<noteq> 0) (s @ 0 # r) = s"
  by (induction s) auto

lemma sample_lib_ok: "efilib_ok sample_lib"
  by (simp add: efilib_ok_def sample_lib_def takeWhile_string)

lemma StartsWith_loop_eq:
  "cp \<noteq> 0 \<Longrightarrow> 0 \<notin> set s \<Longrightarrow> 0 \<notin> set p \<Longrightarrow>
   StartsWith_loop cp (s @ 0 # q) (p @ 0 # r) = Some (strict_prefix p s)"
proof (induction s arbitrary: cp p)
  case Nil
  then show ?case by simp
next
  case (Cons c s)
  then show ?case by (cases p) auto
qed

lemma StartsWith_eq:
  assumes "0 \<notin> set s" and "0 \<notin> set p"
  shows "StartsWith (s @ 0 # q) (p @ 0 # r) = Some (s = [] \<or> strict_prefix p s)"
proof (cases s)
  case Nil
  then show ?thesis by (simp add: StartsWith_def)
next
  case (Cons c s')
  then show ?thesis using assms StartsWith_loop_eq[of c s' "tl p" q r]
    by (cases p) (auto simp: StartsWith_def)
qed

lemma wide_Boot: "wide ''Boot'' = map of_char ''Boot'' @ 0 # []" "0 \<notin> set (map of_char ''Boot'' :: u16 list)"
  by (simp_all add: wide_def)

lemma VariableIsBootOption_eq:
  assumes "efilib_ok lib" and "0 \<notin> set s" and "length s < 2 ^ 32"
  shows "VariableIsBootOption lib (s @ 0 # r) = Some (\<exists>a b c d. s = map of_char ''Boot'' @ [a, b, c, d]
      \<and> IS_HEX_DIGIT a \<and> IS_HEX_DIGIT b \<and> IS_HEX_DIGIT c)"
proof -
  have len: "StrLen lib (s @ 0 # r) = 8 \<longleftrightarrow> length s = 8"
  proof -
    have "StrLen lib (s @ 0 # r) = of_nat (length s)" using assms by (simp add: efilib_ok_def)
    then show ?thesis using of_nat64_inj[of "length s" 8] assms(3) by simp
  qed
  show ?thesis
  proof (cases "length s = 8 \<and> strict_prefix (map of_char ''Boot'') s")
    case True
    then obtain t where s: "s = map of_char ''Boot'' @ t" by (auto elim: strict_prefixE')
    with True have "length t = 4" by simp
    then obtain a b c d where t: "t = [a, b, c, d]"
      by (auto simp: length_Suc_conv numeral_eq_Suc)
    show ?thesis
      using len True StartsWith_eq[OF assms(2) wide_Boot(2), of r "[]"]
      unfolding VariableIsBootOption_def wide_Boot(1) s t by simp
  next
    case False
    then have "\<nexists>a b c d. s = map of_char ''Boot'' @ [a, b, c, d]" by auto
    then show ?thesis
      using len False StartsWith_eq[OF assms(2) wide_Boot(2), of r "[]"]
      unfolding VariableIsBootOption_def wide_Boot(1) by auto
  qed
qed

section \<open>Load options, built and read\<close>

lemma length_wide_bytes [simp]: "length (wide_bytes cs) = 2 * length cs"
  by (induction cs) (simp_all add: wide_bytes_def)

lemma le_bytes_2: "le_bytes 2 w = [ucast w, ucast (drop_bit 8 w)]"
  by (simp add: numeral_2_eq_2)

lemma half_at_le_bytes: "half_at (le_bytes 2 c @ bs) 0 = c"
  by (simp add: half_at_def le_word_le_bytes take_bit_word_eq_self)

lemma wide_at_Cons: "wide_at (le_bytes 2 c @ bs) 0 = c # wide_at bs 0"
proof -
  have "half_at (le_bytes 2 c @ bs) (2 + 2 * k) = half_at bs (2 * k)" for k
    by (simp add: half_at_def)
  then have "map (\<lambda>k. half_at (le_bytes 2 c @ bs) (2 * Suc k)) ks = map (\<lambda>k. half_at bs (2 * k)) ks" for ks
    by simp
  moreover have "length (le_bytes 2 c @ bs) div 2 = Suc (length bs div 2)" by simp
  ultimately show ?thesis
    unfolding wide_at_def
    by (simp only: upt_conv_Cons zero_less_Suc map_Suc_upt[symmetric] list.map map_map comp_def
        diff_zero add_0 half_at_le_bytes mult_0_right)
qed

lemma wide_at_bytes: "wide_at (wide_bytes cs @ bs) 0 = cs @ wide_at bs 0"
  by (induction cs) (simp_all add: wide_bytes_def wide_at_Cons)

lemma wide_at_header:
  assumes "length h = 6"
  shows "wide_at (h @ bs) 6 = wide_at bs 0"
  using assms by (simp add: wide_at_def half_at_def)

lemma parse_option:
  assumes lib: "efilib_ok lib" and d: "0 \<notin> set d" "length d < 2 ^ 31"
    and h: "FilePathListLength h = sz" and path: "length path = unat sz"
    and n: "n = of_nat (6 + 2 * (length d + 1) + unat sz)"
    and opt: "opt = parse_load_option lib (option_header h @ wide_bytes (d @ [0]) @ path @ rest) n"
  shows "OptionAttributes opt = Attributes h \<and> take (length d + 1) (Description opt) = d @ [0]
    \<and> FilePathList opt = of_nat (6 + 2 * (length d + 1)) \<and> OptionalDataSize opt = 0"
proof -
  let ?bs = "option_header h @ wide_bytes (d @ [0]) @ path @ rest"
  have desc: "wide_at ?bs 6 = d @ 0 # wide_at (path @ rest) 0"
    using wide_at_header[of "option_header h" "wide_bytes (d @ [0]) @ path @ rest"]
      wide_at_bytes[of "d @ [0]" "path @ rest"] by simp
  have size: "StrSize lib (wide_at ?bs 6) = of_nat (2 * (length d + 1))"
    unfolding desc using lib d by (simp add: efilib_ok_def)
  have "take 4 ?bs = le_bytes 4 (Attributes h)" by (simp add: option_header_def)
  then have att: "le_word (take 4 ?bs) = Attributes h"
    by (simp only: le_word_le_bytes) (simp add: take_bit_word_eq_self)
  have "take 2 (drop 4 ?bs) = le_bytes 2 (FilePathListLength h)" by (simp add: option_header_def)
  then have fp: "half_at ?bs 4 = sz"
    unfolding half_at_def by (simp only: le_word_le_bytes) (simp add: h take_bit_word_eq_self)
  show ?thesis
    unfolding opt parse_load_option_def Let_def size att fp
    by (simp add: desc n)
qed

section \<open>The variables after the scan\<close>

text \<open>
  What the documentation says of the variable services, with \<open>vars\<close> the variables of a
  firmware state: reading gives the stored value, a successful write stores one, the memory
  services do not touch variables, and names are strings.
\<close>

type_synonym 'f var_view = "'f \<Rightarrow> u16 list \<times> EFI_GUID \<Rightarrow> (u32 \<times> u8 list) option"

definition var_store :: "'f variables \<Rightarrow> 'f var_view \<Rightarrow> bool" where
  "var_store sv vars \<longleftrightarrow>
     (\<forall>f name g n v. GetVariable sv f name g n = Inr v \<longrightarrow> vars f (name, g) = Some v)
   \<and> (\<forall>name g a bs f. \<not> EFI_ERROR (fst (SetVariable sv name g a bs f)) \<longrightarrow>
        vars (snd (SetVariable sv name g a bs f)) = (vars f)((name, g) \<mapsto> (a, bs)))
   \<and> (\<forall>t n f. vars (snd (page_service sv t n f)) = vars f)
   \<and> (\<forall>p f. vars (FreePages sv p f) = vars f)
   \<and> (\<forall>n f. vars (snd (AllocatePool sv n f)) = vars f) \<and> (\<forall>p f. vars (FreePool sv p f) = vars f)
   \<and> (\<forall>f name g name' g'. GetNextVariableName sv f name g = Inr (name', g') \<longrightarrow>
        (\<exists>s. name' = s @ [0] \<and> 0 \<notin> set s \<and> length s < 2048))"

text \<open>The memory services never hand out the memory the device path lies in.\<close>

definition spares :: "'f variables \<Rightarrow> u64 \<Rightarrow> nat \<Rightarrow> bool" where
  "spares sv devp n \<longleftrightarrow>
     (\<forall>f page f'. page_service sv EfiLoaderData 1 f = (Inr page, f') \<longrightarrow> outside page 4096 devp n)
   \<and> (\<forall>k f buf f'. AllocatePool sv k f = (buf, f') \<longrightarrow> buf \<noteq> 0 \<longrightarrow> outside buf (unat k) devp n)"

lemma allocate_pages_vars:
  assumes "var_store sv vars" and "allocate_pages (page_service sv) 1 s = Inr (page, s')"
  shows "vars (fw s') = vars (fw s)"
    and "spares sv devp n \<Longrightarrow> load_bytes (lmem s') devp n = load_bytes (lmem s) devp n"
proof -
  obtain f where a: "page_service sv EfiLoaderData 1 (fw s) = (Inr page, f)"
    and s': "s' = s\<lparr>fw := f, lmem := store_bytes (lmem s) page (replicate (unat PAGE_SIZE) 0)\<rparr>"
    using assms(2)
    by (auto simp: allocate_pages_def AllocatePages_def bind_eq_Inr split: prod.splits sum.splits)
  have "vars (snd (page_service sv EfiLoaderData 1 (fw s))) = vars (fw s)"
    using assms(1) unfolding var_store_def by blast
  then show "vars (fw s') = vars (fw s)" using a s' by simp
  show "load_bytes (lmem s') devp n = load_bytes (lmem s) devp n" if "spares sv devp n"
  proof -
    have "outside page 4096 devp n" using that a unfolding spares_def by blast
    then show ?thesis unfolding s' by (simp add: load_outside PAGE_SIZE_def)
  qed
qed

lemma var_store_get:
  "var_store sv vars \<Longrightarrow> GetVariable sv f name g n = Inr v \<Longrightarrow> vars f (name, g) = Some v"
  by (cases v) (simp add: var_store_def)

lemma var_store_name:
  "var_store sv vars \<Longrightarrow> GetNextVariableName sv f name g = Inr (name', g') \<Longrightarrow>
   \<exists>s. name' = s @ [0] \<and> 0 \<notin> set s \<and> length s < 2048"
proof -
  assume "var_store sv vars" and n: "GetNextVariableName sv f name g = Inr (name', g')"
  then have "\<forall>f name g name' g'. GetNextVariableName sv f name g = Inr (name', g') \<longrightarrow>
      (\<exists>s. name' = s @ [0] \<and> 0 \<notin> set s \<and> length s < 2048)"
    unfolding var_store_def by (elim conjE)
  with n show ?thesis by blast
qed

lemma print_next_name:
  assumes "var_store sv vars" and "print_next_efi_variable lib sv f st = Inr (True, st')"
  shows "\<exists>t. Name st' = t @ [0] \<and> 0 \<notin> set t \<and> vars f (Name st', Guid st') \<noteq> None"
proof -
  obtain name guid where next_name: "GetNextVariableName sv f (Name st) (Guid st) = Inr (name, guid)"
    using assms(2) by (auto simp: print_next_efi_variable_def split: sum.splits if_splits)
  then obtain v where got: "GetVariable sv f name guid PAGE_SIZE = Inr v"
    using assms(2) by (auto simp: print_next_efi_variable_def split: sum.splits)
  have "Name st' = name \<and> Guid st' = guid"
    using assms(2) next_name got
    by (auto simp: print_next_efi_variable_def say_def print_file_path_def Let_def bind_eq_Inr
        split: prod.splits if_splits option.splits bool.splits)
  moreover have "vars f (name, guid) = Some v"
    using assms(1) got by (rule var_store_get)
  moreover have "\<exists>t. name = t @ [0] \<and> 0 \<notin> set t"
    using var_store_name[OF assms(1) next_name] by blast
  ultimately show ?thesis by auto
qed

lemma scan_found:
  assumes "efilib_ok lib" and "var_store sv vars"
    and "scan_variables lib sv f ex st = Some (Inr (ex', st'))" and "ex'"
  shows "ex \<or> (\<exists>g. vars f (wide ''Boot0004'', g) \<noteq> None)"
proof -
  let ?P = "\<lambda>lib' sv' f' ex (st :: efi_scan) (r :: (bool \<times> efi_scan) result). lib' = lib \<longrightarrow> sv' = sv \<longrightarrow> f' = f \<longrightarrow>
      (\<forall>ex' st'. r = Inr (ex', st') \<longrightarrow> ex' \<longrightarrow> ex \<or> (\<exists>g. vars f (wide ''Boot0004'', g) \<noteq> None))"
  have "?P lib sv f ex st (Inr (ex', st'))"
  proof (rule scan_variables.raw_induct[where P = ?P, OF _ assms(3)])
    fix sc lib' and sv' :: "'a variables" and f' ex st r
    assume IH: "\<And>lib sv f ex st r. sc lib sv f ex st = Some r \<Longrightarrow> ?P lib sv f ex st r"
      and run: "(case print_next_efi_variable lib' sv' f' st of Inl e \<Rightarrow> Some (Inl e)
        | Inr (again, st) \<Rightarrow> if \<not> again then Some (Inr (ex, st))
          else sc lib' sv' f' (if \<not> ex \<and> StrCmp lib' (Name st) (wide ''Boot0004'') = 0 then True else ex) st) = Some r"
    show "?P lib' sv' f' ex st r"
    proof (intro impI allI)
      fix ex'' st''
      assume eqs: "lib' = lib" "sv' = sv" "f' = f" and r: "r = Inr (ex'', st'')" "ex''"
      show "ex \<or> (\<exists>g. vars f (wide ''Boot0004'', g) \<noteq> None)"
      proof (cases "print_next_efi_variable lib sv f st")
        case (Inl e)
        then show ?thesis using run r by (simp add: eqs)
      next
        case (Inr p)
        obtain again st1 where p: "p = (again, st1)" by (cases p)
        show ?thesis
        proof (cases again)
          case False
          then show ?thesis using run r Inr p by (simp add: eqs)
        next
          case True
          have "sc lib sv f (if \<not> ex \<and> StrCmp lib (Name st1) (wide ''Boot0004'') = 0 then True else ex) st1 = Some r"
            using run Inr p True by (simp add: eqs)
          from IH[OF this] r have "(if \<not> ex \<and> StrCmp lib (Name st1) (wide ''Boot0004'') = 0 then True else ex)
              \<or> (\<exists>g. vars f (wide ''Boot0004'', g) \<noteq> None)" by blast
          moreover have "\<exists>g. vars f (wide ''Boot0004'', g) \<noteq> None"
            if "StrCmp lib (Name st1) (wide ''Boot0004'') = 0"
          proof -
            have "print_next_efi_variable lib sv f st = Inr (True, st1)" using Inr p True by simp
            from print_next_name[OF assms(2) this]
            obtain t where t: "Name st1 = t @ [0]" "0 \<notin> set t" "vars f (Name st1, Guid st1) \<noteq> None"
              by auto
            have "0 \<notin> set (map of_char ''Boot0004'' :: u16 list)" by simp
            then have "t = map of_char ''Boot0004''"
              using efilib_cmp[OF assms(1) t(2)] that unfolding t(1) wide_def by blast
            then show ?thesis using t(1,3) by (auto simp: wide_def)
          qed
          ultimately show ?thesis by (auto split: if_splits)
        qed
      qed
    qed
  qed
  then show ?thesis using assms(4) by blast
qed

text \<open>The contents of the boot option for the path of \<open>n\<close> bytes at \<open>devp\<close>.\<close>

definition boot_option :: "mem \<Rightarrow> u64 \<Rightarrow> u16 \<Rightarrow> u8 list" where
  "boot_option m devp sz = option_header \<lparr>Attributes = LOAD_OPTION_ACTIVE, FilePathListLength = sz\<rparr>
     @ wide_bytes (wide ''opsys loader'') @ load_bytes m devp (unat sz)"

lemma make_load_option_run:
  assumes "make_load_option pool str_size h desc devp sz s = Inr (buf, n, s')"
  shows "n = 6 + str_size desc + ucast sz \<and> fst (pool n (fw s)) = buf \<and> buf \<noteq> 0 \<and> fw s' = snd (pool n (fw s))"
  using assms
  by (auto simp: make_load_option_def pool_alloc_def Let_def bind_eq_Inr split: prod.splits if_splits)

lemma made_option:
  assumes lib: "efilib_ok lib" and d: "0 \<notin> set d" "length d < 2 ^ 31"
    and run: "make_load_option pool (StrSize lib) h (d @ [0]) devp sz s = Inr (buf, n, s')"
    and out: "outside buf (unat n) devp (unat sz)"
  shows "unat n = 6 + 2 * (length d + 1) + unat sz
    \<and> load_bytes (lmem s') buf (unat n) = option_header h @ wide_bytes (d @ [0]) @ load_bytes (lmem s) devp (unat sz)
    \<and> (\<forall>x. \<not> in_region buf (unat n) x \<longrightarrow> lmem s' x = lmem s x)"
proof -
  let ?bs = "option_header h @ wide_bytes (d @ [0]) @ load_bytes (lmem s) devp (unat sz)"
  define len where "len = 6 + length (wide_bytes (d @ [0])) + unat sz"
  have "unat sz < 65536" using unsigned_less[of sz, where ?'a = nat] by simp
  then have small: "len < 2 ^ 64" using d(2) by (simp add: len_def)
  have size: "StrSize lib (d @ [0]) = of_nat (length (wide_bytes (d @ [0])))"
    using lib d by (simp add: efilib_ok_def)
  note r = make_load_option_run[OF run]
  have n: "n = of_nat len" using r size by (simp add: len_def)
  then have un: "unat n = len" using small by simp
  have pool: "pool (of_nat len) (fw s) = (buf, fw s')" using r unfolding n by (auto simp: prod_eq_iff)
  have nz: "buf \<noteq> 0" using r by blast
  have eq: "make_load_option pool (StrSize lib) h (d @ [0]) devp sz s =
      Inr (buf, of_nat len, \<lparr>lmem = store_bytes (lmem s) buf ?bs, fw = fw s'\<rparr>)"
    using make_load_option_correct[where pool = pool and StrSize = "StrSize lib" and s = s, OF size len_def small pool nz out[unfolded un]] .
  have "\<lparr>lmem = store_bytes (lmem s) buf ?bs, fw = fw s'\<rparr> = s'"
    using run unfolding eq sum.inject prod.inject by (elim conjE)
  then have "lmem s' = store_bytes (lmem s) buf ?bs"
    by (metis loader.select_convs(1))
  moreover have bs: "length ?bs = len" by (simp add: len_def)
  moreover have "load_bytes (store_bytes (lmem s) buf ?bs) buf (length ?bs) = ?bs"
    by (rule load_store_bytes) (use bs small in linarith)
  moreover have "\<forall>x. \<not> in_region buf (length ?bs) x \<longrightarrow> store_bytes (lmem s) buf ?bs x = lmem s x"
    by (intro allI impI store_bytes_outside)
  ultimately have "load_bytes (lmem s') buf len = ?bs \<and> (\<forall>x. \<not> in_region buf len x \<longrightarrow> lmem s' x = lmem s x)"
    by metis
  then show ?thesis unfolding un by (simp add: len_def)
qed

lemma set_boot_variables_vars:
  assumes lib: "efilib_ok lib" and store: "var_store sv vars" and spare: "spares sv devp (unat sz)"
    and run: "set_boot_variables lib sv devp sz s = Inr s'"
  shows "vars (fw s') = (vars (fw s))
    ((wide ''Boot0004'', gEfiGlobalVariableGuid sv) \<mapsto> (7, boot_option (lmem s) devp sz),
     (wide ''BootOrder'', gEfiGlobalVariableGuid sv) \<mapsto> (7, [0, 0, 4, 0, 3, 0]))"
proof -
  let ?h = "\<lparr>Attributes = LOAD_OPTION_ACTIVE, FilePathListLength = sz\<rparr>" and ?g = "gEfiGlobalVariableGuid sv"
  obtain buf n s1 where mk: "make_load_option (AllocatePool sv) (StrSize lib) ?h (wide ''opsys loader'') devp sz s
      = Inr (buf, n, s1)"
    using run by (auto simp: set_boot_variables_def Let_def bind_eq_Inr)
  define bs where "bs = load_bytes (lmem s1) buf (unat n)"
  define r1 where "r1 = SetVariable sv (wide ''Boot0004'') ?g 7 bs (fw s1)"
  define r2 where "r2 = SetVariable sv (wide ''BootOrder'') ?g 7 [0, 0, 4, 0, 3, 0] (FreePool sv buf (snd r1))"
  have access: "EFI_VARIABLE_BOOTSERVICE_ACCESS OR EFI_VARIABLE_RUNTIME_ACCESS OR EFI_VARIABLE_NON_VOLATILE = 7"
    by (simp add: EFI_VARIABLE_BOOTSERVICE_ACCESS_def EFI_VARIABLE_RUNTIME_ACCESS_def EFI_VARIABLE_NON_VOLATILE_def)
  have order: "wide_bytes [0, 4, 3] = [0, 0, 4, 0, 3, 0]" by (simp add: wide_bytes_def le_bytes_2)
  have ok: "\<not> EFI_ERROR (fst r1)" "\<not> EFI_ERROR (fst r2)" and s': "fw s' = snd r2"
    using run mk
    by (auto simp: set_boot_variables_def access order Let_def case_prod_beta r1_def r2_def bs_def split: if_splits)
  note r = make_load_option_run[OF mk]
  have out: "outside buf (unat n) devp (unat sz)"
    using spare r unfolding spares_def by (metis prod.collapse)
  have "0 \<notin> set (map of_char ''opsys loader'' :: u16 list)"
    "length (map of_char ''opsys loader'' :: u16 list) < 2 ^ 31" by simp_all
  from made_option[OF lib this mk[unfolded wide_def] out]
  have "bs = boot_option (lmem s) devp sz"
    unfolding bs_def boot_option_def wide_def by blast
  moreover have "vars (fw s1) = vars (fw s)"
    using store r by (simp add: var_store_def)
  moreover have "vars (snd r1) = (vars (fw s1))((wide ''Boot0004'', ?g) \<mapsto> (7, bs))"
    using store ok(1) by (simp add: var_store_def r1_def)
  moreover have "vars (snd r2) = (vars (snd r1))((wide ''BootOrder'', ?g) \<mapsto> (7, [0, 0, 4, 0, 3, 0]))"
    using store ok(2) by (simp add: var_store_def r2_def)
  ultimately show ?thesis by (simp add: s')
qed

lemma enumerate_run:
  assumes lib: "efilib_ok lib" and store: "var_store sv vars"
    and run: "enumerate_efi_vars lib sv devp sz s = Some (Inr s')"
  shows "\<exists>s1 ex a b. vars (fw s1) = vars (fw s)
    \<and> (\<forall>p n. spares sv p n \<longrightarrow> load_bytes (lmem s1) p n = load_bytes (lmem s) p n)
    \<and> (ex \<longrightarrow> (\<exists>g. vars (fw s) (wide ''Boot0004'', g) \<noteq> None))
    \<and> vars (fw s) (wide ''BootCurrent'', gEfiGlobalVariableGuid sv) = Some (a, b) \<and> length b = 2
    \<and> (if (\<not> ex \<or> half_at b 0 \<noteq> 4) \<and> devp \<noteq> 0 \<and> sz \<noteq> 0
       then \<exists>s2. set_boot_variables lib sv devp sz s1 = Inr s2 \<and> enumerate_efi_vars lib sv 0 0 s2 = Some (Inr s')
       else s' = s1)"
proof -
  note run' = run[unfolded enumerate_efi_vars.simps[of lib sv devp sz s]]
  obtain p1 t1 where a1: "allocate_pages (page_service sv) 1 s = Inr (p1, t1)"
    using run' by (auto split: sum.splits)
  then obtain p2 t2 where a2: "allocate_pages (page_service sv) 1 t1 = Inr (p2, t2)"
    using run' by (auto split: sum.splits)
  obtain ex st where scan: "scan_variables lib sv (fw t2) False
      \<lparr>Name = [0], Guid = stack_guid sv, Data = replicate 4096 0, console = []\<rparr> = Some (Inr (ex, st))"
    using run' a1 a2 by (auto split: sum.splits option.splits)
  define s1 where "s1 = t2\<lparr>fw := FreePages sv p2 (FreePages sv p1 (fw t2))\<rparr>"
  obtain a b where cur: "GetVariable sv (fw s1) (wide ''BootCurrent'') (gEfiGlobalVariableGuid sv) 2 = Inr (a, b)"
    using run' a1 a2 scan by (auto simp: Let_def s1_def split: sum.splits)
  have v: "vars (fw t2) = vars (fw s)" "vars (fw s1) = vars (fw s)"
    using allocate_pages_vars(1)[OF store a1] allocate_pages_vars(1)[OF store a2] store
    by (simp_all add: s1_def var_store_def)
  have "\<forall>p n. spares sv p n \<longrightarrow> load_bytes (lmem s1) p n = load_bytes (lmem s) p n"
    using allocate_pages_vars(2)[OF store a1] allocate_pages_vars(2)[OF store a2] by (simp add: s1_def)
  moreover have "ex \<longrightarrow> (\<exists>g. vars (fw s) (wide ''Boot0004'', g) \<noteq> None)"
    using scan_found[OF lib store scan] v(1) by simp
  moreover have "vars (fw s) (wide ''BootCurrent'', gEfiGlobalVariableGuid sv) = Some (a, b)"
    using var_store_get[OF store cur] v(2) by simp
  moreover have rest: "(if length b \<noteq> 2 then Some (Inl (Exited EFI_ABORTED))
      else if (\<not> ex \<or> half_at b 0 \<noteq> 4) \<and> devp \<noteq> 0 \<and> sz \<noteq> 0
      then (case set_boot_variables lib sv devp sz s1 of Inl e \<Rightarrow> Some (Inl e) | Inr s \<Rightarrow> enumerate_efi_vars lib sv 0 0 s)
      else Some (Inr s1)) = Some (Inr s')"
    using run' by (simp add: a1 a2 scan cur Let_def flip: s1_def)
  moreover from rest have "length b = 2" by (simp split: if_splits)
  moreover from rest this have "if (\<not> ex \<or> half_at b 0 \<noteq> 4) \<and> devp \<noteq> 0 \<and> sz \<noteq> 0
      then \<exists>s2. set_boot_variables lib sv devp sz s1 = Inr s2 \<and> enumerate_efi_vars lib sv 0 0 s2 = Some (Inr s')
      else s' = s1"
    by (cases "set_boot_variables lib sv devp sz s1") (auto split: if_splits)
  ultimately show ?thesis using v(2) by blast
qed

section \<open>A firmware that works\<close>

text \<open>\<open>chain sv f name g ks\<close>: after the variable \<open>(name, g)\<close> come the variables \<open>ks\<close>, then no more.\<close>

fun chain :: "'f variables \<Rightarrow> 'f \<Rightarrow> u16 list \<Rightarrow> EFI_GUID \<Rightarrow> (u16 list \<times> EFI_GUID) list \<Rightarrow> bool" where
  "chain sv f name g [] \<longleftrightarrow> GetNextVariableName sv f name g = Inl EFI_NOT_FOUND"
| "chain sv f name g (k # ks) \<longleftrightarrow> GetNextVariableName sv f name g = Inr k \<and> chain sv f (fst k) (snd k) ks"

definition services_work :: "efilib \<Rightarrow> 'f variables \<Rightarrow> bool" where
  "services_work lib sv \<longleftrightarrow>
     (\<forall>f. \<exists>page f'. page_service sv EfiLoaderData 1 f = (Inr page, f'))
   \<and> (\<forall>n f. unat n < 2 ^ 17 \<longrightarrow> fst (AllocatePool sv n f) \<noteq> 0)
   \<and> (\<forall>name \<in> {wide ''Boot0004'', wide ''BootOrder''}. \<forall>a bs f.
        \<not> EFI_ERROR (fst (SetVariable sv name (gEfiGlobalVariableGuid sv) a bs f)))
   \<and> (\<forall>f. \<exists>ks. chain sv f [0] (stack_guid sv) ks
        \<and> (\<forall>k \<in> set ks. \<exists>v. GetVariable sv f (fst k) (snd k) PAGE_SIZE = Inr v))
   \<and> (\<forall>f. \<exists>a b. GetVariable sv f (wide ''BootCurrent'') (gEfiGlobalVariableGuid sv) 2 = Inr (a, b) \<and> length b = 2)
   \<and> (\<forall>bs. DevicePathToStr lib bs \<noteq> None)"

lemma print_next_works:
  assumes "efilib_ok lib" and "var_store sv vars" and "services_work lib sv"
    and "GetNextVariableName sv f (Name st) (Guid st) = Inr (name, g)"
    and "GetVariable sv f name g PAGE_SIZE = Inr v"
  shows "\<exists>st'. print_next_efi_variable lib sv f st = Inr (True, st') \<and> Name st' = name \<and> Guid st' = g"
proof -
  obtain t where t: "name = t @ 0 # []" "0 \<notin> set t" "length t < 2048"
    using var_store_name[OF assms(2,4)] by auto
  have "length t < 2 ^ 32" using t(3) by simp
  from VariableIsBootOption_eq[OF assms(1) t(2) this, of "[]"]
  obtain b where "VariableIsBootOption lib name = Some b" unfolding t(1) by blast
  moreover have dp: "DevicePathToStr lib bs \<noteq> None" for bs
    using assms(3) unfolding services_work_def by blast
  ultimately show ?thesis
    using assms(4,5)
    by (cases v; cases b)
      (auto simp: print_next_efi_variable_def print_file_path_def say_def Let_def dp split: option.split)
qed

lemma scan_works:
  assumes "efilib_ok lib" and "var_store sv vars" and "services_work lib sv"
  shows "chain sv f (Name st) (Guid st) ks \<Longrightarrow>
     \<forall>k \<in> set ks. \<exists>v. GetVariable sv f (fst k) (snd k) PAGE_SIZE = Inr v \<Longrightarrow>
     \<exists>p. scan_variables lib sv f ex st = Some (Inr p)"
proof (induction ks arbitrary: ex st)
  case Nil
  then have "print_next_efi_variable lib sv f st = Inr (False, st)"
    by (simp add: print_next_efi_variable_def)
  then show ?case by (subst scan_variables.simps) simp
next
  case (Cons k ks)
  obtain v where got: "GetVariable sv f (fst k) (snd k) PAGE_SIZE = Inr v" using Cons.prems(2) by auto
  have "GetNextVariableName sv f (Name st) (Guid st) = Inr (fst k, snd k)" using Cons.prems(1) by simp
  from print_next_works[OF assms this got] obtain st' where
    "print_next_efi_variable lib sv f st = Inr (True, st')" "Name st' = fst k" "Guid st' = snd k" by blast
  with Cons show ?case by (subst scan_variables.simps) simp
qed

lemma set_boot_variables_works:
  assumes lib: "efilib_ok lib" and work: "services_work lib sv"
  shows "\<exists>s'. set_boot_variables lib sv devp sz s = Inr s'"
proof -
  have "StrSize lib (wide ''opsys loader'') = of_nat (2 * (length (map of_char ''opsys loader'' :: u16 list) + 1))"
    unfolding wide_def by (rule efilib_size[OF lib]) simp_all
  then have "StrSize lib (wide ''opsys loader'') = 26" by simp
  moreover have "unat (6 + 26 + ucast sz :: u64) < 2 ^ 17"
  proof -
    have "unat sz < 65536" using unsigned_less[of sz, where ?'a = nat] by simp
    moreover have "unat (ucast sz :: u64) = unat sz"
      using \<open>unat sz < 65536\<close> by (simp add: unsigned_ucast_eq take_bit_nat_eq_self)
    ultimately show ?thesis by (simp add: unat_word_ariths)
  qed
  then have "fst (AllocatePool sv (6 + 26 + ucast sz) (fw s)) \<noteq> 0"
    using work unfolding services_work_def by blast
  ultimately have "\<exists>buf n s1. make_load_option (AllocatePool sv) (StrSize lib)
      \<lparr>Attributes = LOAD_OPTION_ACTIVE, FilePathListLength = sz\<rparr> (wide ''opsys loader'') devp sz s = Inr (buf, n, s1)"
    by (simp add: make_load_option_def pool_alloc_def Let_def case_prod_beta)
  moreover have "\<not> EFI_ERROR (fst (SetVariable sv (wide ''Boot0004'') (gEfiGlobalVariableGuid sv) a bs f))"
    "\<not> EFI_ERROR (fst (SetVariable sv (wide ''BootOrder'') (gEfiGlobalVariableGuid sv) a bs f))" for a bs f
    using work unfolding services_work_def by blast+
  ultimately show ?thesis by (auto simp: set_boot_variables_def Let_def case_prod_beta)
qed

lemma enumerate_works_step:
  assumes lib: "efilib_ok lib" and store: "var_store sv vars" and work: "services_work lib sv"
    and again: "\<And>t. devp \<noteq> 0 \<Longrightarrow> \<exists>t'. enumerate_efi_vars lib sv 0 0 t = Some (Inr t')"
  shows "\<exists>s'. enumerate_efi_vars lib sv devp sz s = Some (Inr s')"
proof -
  have alloc: "\<exists>p s'. allocate_pages (page_service sv) 1 s = Inr (p, s')" for s
  proof -
    obtain page f' where "page_service sv EfiLoaderData 1 (fw s) = (Inr page, f')"
      using work unfolding services_work_def by blast
    then show ?thesis by (simp add: allocate_pages_def AllocatePages_def)
  qed
  obtain p1 t1 where a1: "allocate_pages (page_service sv) 1 s = Inr (p1, t1)" using alloc by blast
  obtain p2 t2 where a2: "allocate_pages (page_service sv) 1 t1 = Inr (p2, t2)" using alloc by blast
  let ?st = "\<lparr>Name = [0], Guid = stack_guid sv, Data = replicate 4096 0, console = []\<rparr>"
  obtain ks where "chain sv (fw t2) [0] (stack_guid sv) ks"
    "\<forall>k \<in> set ks. \<exists>v. GetVariable sv (fw t2) (fst k) (snd k) PAGE_SIZE = Inr v"
    using work unfolding services_work_def by blast
  then obtain ex st where scan: "scan_variables lib sv (fw t2) False ?st = Some (Inr (ex, st))"
    using scan_works[OF lib store work, of "fw t2" ?st ks False] by auto
  obtain a b where cur: "GetVariable sv (FreePages sv p2 (FreePages sv p1 (fw t2))) (wide ''BootCurrent'')
      (gEfiGlobalVariableGuid sv) 2 = Inr (a, b)" "length b = 2"
    using work unfolding services_work_def by blast
  obtain s2 where set: "set_boot_variables lib sv devp sz
      (t2\<lparr>fw := FreePages sv p2 (FreePages sv p1 (fw t2))\<rparr>) = Inr s2"
    using set_boot_variables_works[OF lib work] by blast
  show ?thesis
    using again[of s2]
    by (subst enumerate_efi_vars.simps) (simp add: a1 a2 scan cur set Let_def)
qed

lemma enumerate_works:
  assumes "efilib_ok lib" and "var_store sv vars" and "services_work lib sv"
  shows "\<exists>s'. enumerate_efi_vars lib sv devp sz s = Some (Inr s')"
  by (rule enumerate_works_step[OF assms]) (rule enumerate_works_step[OF assms], simp)

section \<open>Properties\<close>

text \<open>\<open>StartsWith\<close> does not test whether the string starts with the prefix: on proper strings
  it answers yes for an empty string whatever the prefix, and no when the two are equal.\<close>

theorem starts_with_misses:
  assumes "0 \<notin> set s" and "0 \<notin> set p"
  shows "StartsWith (s @ 0 # q) (p @ 0 # r) = Some (s = [] \<or> prefix p s \<and> p \<noteq> s)"
  using StartsWith_eq[OF assms] by (simp add: strict_prefix_def)

theorem starts_with_misses_witness:
  "StartsWith (wide []) (wide ''Boot'') = Some True \<and> StartsWith (wide ''Boot'') (wide ''Boot'') = Some False"
  using starts_with_misses[of "[]" "map of_char ''Boot''" "[]" "[]"]
    starts_with_misses[of "map of_char ''Boot''" "map of_char ''Boot''" "[]" "[]"]
  by (simp add: wide_def)

text \<open>C32: Which names \<open>VariableIsBootOption\<close> takes for boot options: ``Boot'' and four characters,
  of which the first three are digits or small letters from a to f. The last one is never
  looked at.\<close>

theorem boot_option_names:
  assumes "efilib_ok lib" and "0 \<notin> set s" and "length s < 2 ^ 32"
  shows "VariableIsBootOption lib (s @ 0 # r) = Some (\<exists>a b c d. s = map of_char ''Boot'' @ [a, b, c, d]
      \<and> IS_HEX_DIGIT a \<and> IS_HEX_DIGIT b \<and> IS_HEX_DIGIT c)"
  by (rule VariableIsBootOption_eq[OF assms])

theorem boot_option_names_witness:
  "VariableIsBootOption sample_lib (wide ''Boot000x'') = Some True"
  using boot_option_names[OF sample_lib_ok, of "map of_char ''Boot000x''" "[]"]
  by (simp add: wide_def IS_HEX_DIGIT_def)

text \<open>C30: The buffer \<open>make_load_option\<close> builds is one that \<open>print_next_efi_variable\<close> reads back:
  the attributes, the description and the place of the device path are those given, the path
  is copied byte for byte, and no optional data is found after it. Outside the buffer memory
  is unchanged.\<close>

theorem load_option_roundtrip:
  assumes "efilib_ok lib" and "0 \<notin> set d" and "length d < 2 ^ 31"
    and "make_load_option pool (StrSize lib) h (d @ [0]) devp sz s = Inr (buf, n, s')"
    and "outside buf (unat n) devp (unat sz)" and "FilePathListLength h = sz"
    and "bs = load_bytes (lmem s') buf (unat n)" and "opt = parse_load_option lib (bs @ rest) n"
  shows "OptionAttributes opt = Attributes h \<and> take (length d + 1) (Description opt) = d @ [0]
    \<and> drop (unat (FilePathList opt)) bs = load_bytes (lmem s) devp (unat sz)
    \<and> OptionalDataSize opt = 0 \<and> (\<forall>x. \<not> in_region buf (unat n) x \<longrightarrow> lmem s' x = lmem s x)"
proof -
  let ?path = "load_bytes (lmem s) devp (unat sz)"
  note m = made_option[OF assms(1-5)]
  have bs: "bs = option_header h @ wide_bytes (d @ [0]) @ ?path" using m unfolding assms(7) by blast
  have "unat n = 6 + 2 * (length d + 1) + unat sz" using m by blast
  then have n: "n = of_nat (6 + 2 * (length d + 1) + unat sz)" by (metis of_nat_unat ucast_id)
  have "opt = parse_load_option lib (option_header h @ wide_bytes (d @ [0]) @ ?path @ rest) n"
    unfolding assms(8) bs by simp
  note p = parse_option[OF assms(1-3) assms(6) _ n this]
  moreover have "drop (unat (of_nat (6 + 2 * (length d + 1)) :: u64)) bs = ?path"
  proof -
    have "unat (of_nat (6 + 2 * (length d + 1)) :: u64) = 6 + 2 * (length d + 1)"
      by (rule unat_of_nat64) (use assms(3) in simp)
    then show ?thesis by (simp only: bs) simp
  qed
  ultimately show ?thesis using m by simp
qed



text \<open>A firmware that keeps its variables in a list, \<open>BootCurrent\<close> being fixed.\<close>

type_synonym var_list = "((u16 list \<times> EFI_GUID) \<times> u32 \<times> u8 list) list"

definition global_guid :: EFI_GUID where
  "global_guid = \<lparr>Data1 = 0x8BE4DF61, Data2 = 0x93CA, Data3 = 0x11D2,
     Data4 = [0xAA, 0x0D, 0, 0xE0, 0x98, 3, 0x2B, 0x8C]\<rparr>"

definition list_vars :: "var_list \<Rightarrow> u16 list \<times> EFI_GUID \<Rightarrow> (u32 \<times> u8 list) option" where
  "list_vars f k = (if k = (wide ''BootCurrent'', global_guid) then Some (6, [0, 0]) else map_of f k)"

definition list_names :: "var_list \<Rightarrow> (u16 list \<times> EFI_GUID) list" where
  "list_names f = filter (\<lambda>(n, g). n \<noteq> [0] \<and> n \<noteq> [] \<and> last n = 0 \<and> 0 \<notin> set (butlast n) \<and> length n \<le> 2048)
     (remdups (map fst f))"

definition list_firmware :: "var_list variables" where
  "list_firmware = \<lparr>
     GetNextVariableName = (\<lambda>f n g.
       case (if n = [0] then list_names f else tl (dropWhile (\<lambda>k. k \<noteq> (n, g)) (list_names f))) of
         [] \<Rightarrow> Inl EFI_NOT_FOUND | k # _ \<Rightarrow> Inr k),
     GetVariable = (\<lambda>f n g _. case list_vars f (n, g) of None \<Rightarrow> Inl EFI_NOT_FOUND | Some v \<Rightarrow> Inr v),
     SetVariable = (\<lambda>n g a bs f. if (n, g) = (wide ''BootCurrent'', global_guid)
       then (0x8000000000000008, f) else (0, ((n, g), (a, bs)) # f)),
     page_service = (\<lambda>t n f. (Inr 0x100000, f)), FreePages = (\<lambda>p f. f),
     AllocatePool = (\<lambda>n f. if unat n < 2 ^ 17 then (0x200000, f) else (0, f)), FreePool = (\<lambda>p f. f),
     gEfiGlobalVariableGuid = global_guid, stack_guid = global_guid\<rparr>"

lemma list_store: "var_store list_firmware list_vars"
proof -
  have "\<exists>s. n = s @ [0] \<and> 0 \<notin> set s \<and> length s < 2048" if "(n, g) \<in> set (list_names f)" for n g f
  proof -
    have "n \<noteq> []" "last n = 0" "0 \<notin> set (butlast n)" "length n \<le> 2048"
      using that by (auto simp: list_names_def)
    moreover from this have "n = butlast n @ [0]" by (metis append_butlast_last_id)
    moreover from calculation have "length (butlast n) < 2048" by (cases n) auto
    ultimately show ?thesis by blast
  qed
  moreover have "k \<in> set (list_names f)"
    if "(if n = [0] then list_names f else tl (dropWhile (\<lambda>k. k \<noteq> (n, g)) (list_names f))) = k # ks" for f n g k ks
  proof (cases "n = [0]")
    case True
    then show ?thesis using that by simp
  next
    case False
    then have "k \<in> set (tl (dropWhile (\<lambda>k. k \<noteq> (n, g)) (list_names f)))" using that by simp
    then show ?thesis by (metis list.set_sel(2) set_dropWhileD tl_Nil)
  qed
  moreover have "GetNextVariableName list_firmware f n g = Inr k \<Longrightarrow>
      \<exists>ks. (if n = [0] then list_names f else tl (dropWhile (\<lambda>k. k \<noteq> (n, g)) (list_names f))) = k # ks" for f n g k
    by (auto simp: list_firmware_def split: list.splits)
  ultimately have "GetNextVariableName list_firmware f n g = Inr (n', g') \<Longrightarrow>
      \<exists>s. n' = s @ [0] \<and> 0 \<notin> set s \<and> length s < 2048" for f n g n' g'
    by metis
  moreover have "GetVariable list_firmware f n g k = Inr v \<Longrightarrow> list_vars f (n, g) = Some v" for f n g k v
    by (simp add: list_firmware_def split: option.splits)
  moreover have "\<not> EFI_ERROR (fst (SetVariable list_firmware n g a bs f)) \<Longrightarrow>
      list_vars (snd (SetVariable list_firmware n g a bs f)) = (list_vars f)((n, g) \<mapsto> (a, bs))" for n g a bs f
    by (cases "(n, g) = (wide ''BootCurrent'', global_guid)")
      (auto simp: list_firmware_def EFI_ERROR_def list_vars_def fun_eq_iff)
  moreover have "snd (page_service list_firmware t n f) = f" "FreePages list_firmware p f = f"
    "snd (AllocatePool list_firmware n f) = f" "FreePool list_firmware p f = f" for t n f p
    by (simp_all add: list_firmware_def)
  ultimately show ?thesis unfolding var_store_def by (intro conjI allI impI) simp_all
qed

lemma list_names_distinct: "distinct (list_names f)"
  by (simp add: list_names_def)

lemma list_chain:
  "list_names f = xs @ k # ys \<Longrightarrow> chain list_firmware f (fst k) (snd k) ys"
proof (induction ys arbitrary: xs k)
  case Nil
  have "fst k \<noteq> [0]"
  proof -
    have "k \<in> set (list_names f)" by (simp add: Nil)
    then show ?thesis by (auto simp: list_names_def)
  qed
  moreover have "dropWhile (\<lambda>x. x \<noteq> k) (list_names f) = [k]"
    using list_names_distinct[of f] unfolding Nil by (induction xs) auto
  ultimately show ?case by (simp add: list_firmware_def)
next
  case (Cons k' ys)
  have "fst k \<noteq> [0]"
  proof -
    have "k \<in> set (list_names f)" by (simp add: Cons.prems)
    then show ?thesis by (auto simp: list_names_def)
  qed
  moreover have "dropWhile (\<lambda>x. x \<noteq> k) (list_names f) = k # k' # ys"
    using list_names_distinct[of f] unfolding Cons.prems by (induction xs) auto
  ultimately have "GetNextVariableName list_firmware f (fst k) (snd k) = Inr k'"
    by (simp add: list_firmware_def)
  then show ?case using Cons.IH[of "xs @ [k]" k'] Cons.prems by simp
qed

lemma list_works: "services_work sample_lib list_firmware"
proof -
  have chain: "chain list_firmware f [0] (stack_guid list_firmware) (list_names f)" for f
  proof (cases "list_names f")
    case Nil
    then show ?thesis by (simp add: list_firmware_def)
  next
    case (Cons k ks)
    moreover from this have "GetNextVariableName list_firmware f [0] (stack_guid list_firmware) = Inr k"
      by (simp add: list_firmware_def)
    ultimately show ?thesis using list_chain[of f "[]"] by simp
  qed
  have get: "\<exists>v. GetVariable list_firmware f (fst k) (snd k) PAGE_SIZE = Inr v"
    if "k \<in> set (list_names f)" for f k
  proof -
    have "k \<in> fst ` set f" using that by (auto simp: list_names_def)
    then obtain v where "map_of f k = Some v" by (metis map_of_eq_None_iff option.exhaust)
    then show ?thesis by (simp add: list_firmware_def list_vars_def)
  qed
  have "wide ''Boot0004'' \<noteq> wide ''BootCurrent''" "wide ''BootOrder'' \<noteq> wide ''BootCurrent''"
    by (simp_all add: wide_def)
  moreover have "\<forall>f. \<exists>ks. chain list_firmware f [0] (stack_guid list_firmware) ks
      \<and> (\<forall>k \<in> set ks. \<exists>v. GetVariable list_firmware f (fst k) (snd k) PAGE_SIZE = Inr v)"
    using chain get by blast
  moreover have "\<forall>f. \<exists>page f'. page_service list_firmware EfiLoaderData 1 f = (Inr page, f')"
    "\<forall>n f. unat n < 2 ^ 17 \<longrightarrow> fst (AllocatePool list_firmware n f) \<noteq> 0"
    "\<forall>f. \<exists>a b. GetVariable list_firmware f (wide ''BootCurrent'') (gEfiGlobalVariableGuid list_firmware) 2 = Inr (a, b)
      \<and> length b = 2" "\<forall>bs. DevicePathToStr sample_lib bs \<noteq> None"
    by (simp_all add: list_firmware_def list_vars_def sample_lib_def)
  moreover have "\<not> EFI_ERROR (fst (SetVariable list_firmware name (gEfiGlobalVariableGuid list_firmware) a bs f))"
    if "name \<noteq> wide ''BootCurrent''" for name a bs f
    using that by (simp add: list_firmware_def EFI_ERROR_def)
  ultimately show ?thesis unfolding services_work_def by blast
qed

definition var_loader :: "var_list loader" where
  "var_loader = \<lparr>lmem = (\<lambda>_. 0), fw = []\<rparr>"


lemma list_spares: "spares list_firmware 0x300000 24"
proof -
  have "outside 0x200000 (unat n) 0x300000 24" if "unat n < 2 ^ 17" for n :: u64
    using that by (intro outside_le) simp_all
  then show ?thesis by (auto simp: spares_def list_firmware_def outside_le split: if_splits)
qed


theorem load_option_roundtrip_witness:
  "OptionalDataSize (parse_load_option sample_lib
     (load_bytes (lmem (snd (snd (projr (make_load_option (\<lambda>n f. (0x5000, f)) (StrSize sample_lib)
        \<lparr>Attributes = 1, FilePathListLength = 24\<rparr> (wide ''os'') 0x6000 24 var_loader))))) 0x5000 36) 36) = 0"
proof -
  obtain n s' where run: "make_load_option (\<lambda>n f. (0x5000, f)) (StrSize sample_lib)
      \<lparr>Attributes = 1, FilePathListLength = 24\<rparr> (wide ''os'') 0x6000 24 var_loader = Inr (0x5000, n, s')"
    by (simp add: make_load_option_def pool_alloc_def Let_def)
  have n: "n = 36"
    using make_load_option_run[OF run] by (simp add: sample_lib_def wide_def)
  have "outside 0x5000 (unat n) 0x6000 (unat (24 :: u16))" unfolding n by (intro outside_le) simp_all
  from load_option_roundtrip[OF sample_lib_ok _ _ run[unfolded wide_def] this _ refl refl, of "[]"]
  show ?thesis unfolding n by (simp add: run n)
qed

end
