(* ===== verification/EfiMain.thy ===== *)
theory EfiMain
  imports Boot EfiVars
begin

text \<open>
  \<open>efi_main\<close> of \<open>efi/opsys-loader.c\<close> as a whole: the loaded image, its device path, the
  installation of the boot option, the root directory, then the boot sequence \<open>efi_boot\<close>.
\<close>

section \<open>Operations\<close>

text \<open>
  \<open>LoadedImage\<close> gives the image's \<open>FilePath\<close>, \<open>DevicePath\<close> the path of its device;
  \<open>PathText\<close> is \<open>DevicePathToStr\<close>, which returns a pool buffer or 0.
\<close>

record 'f image_services =
  LoadedImage :: "'f \<Rightarrow> u64 + u64"
  DevicePath :: "'f \<Rightarrow> u64 + u64"
  PathText :: "mem \<Rightarrow> u64 \<Rightarrow> 'f \<Rightarrow> u64 \<times> 'f"
  LibOpenRoot :: "'f \<Rightarrow> bool"

text \<open>\<open>DevicePathToStr\<close>, the print and the \<open>FreePool\<close> after it.\<close>

definition show_path ::
  "'f image_services \<Rightarrow> 'f variables \<Rightarrow> u64 \<Rightarrow> 'f loader \<Rightarrow> 'f loader result" where
  "show_path img vs Devp s =
     (let (DevpText, f) = PathText img (lmem s) Devp (fw s) in
      if DevpText = 0 then Inl (Exited EFI_ABORTED)
      else Inr (s\<lparr>fw := FreePool vs DevpText f\<rparr>))"

definition efi_start ::
  "efilib \<Rightarrow> 'f image_services \<Rightarrow> 'f variables \<Rightarrow> 'f loader \<Rightarrow> 'f loader result option" where
  "efi_start lib img vs s =
     (case LoadedImage img (fw s) of Inl Status \<Rightarrow> Some (Inl (Exited Status)) | Inr FilePath \<Rightarrow>
     (case DevicePath img (fw s) of Inl Status \<Rightarrow> Some (Inl (Exited Status)) | Inr LoadedImageDevp \<Rightarrow>
     (case show_path img vs LoadedImageDevp s of Inl e \<Rightarrow> Some (Inl e) | Inr s \<Rightarrow>
     (case show_path img vs FilePath s of Inl e \<Rightarrow> Some (Inl e) | Inr s \<Rightarrow>
     (case AppendPath (AllocatePool vs) LoadedImageDevp FilePath s of
        None \<Rightarrow> None | Some (Inl e) \<Rightarrow> Some (Inl e) | Some (Inr (FullDevp, FullDevpSize, s)) \<Rightarrow>
     (case show_path img vs FullDevp s of Inl e \<Rightarrow> Some (Inl e) | Inr s \<Rightarrow>
     (case enumerate_efi_vars lib vs FullDevp FullDevpSize s of
        None \<Rightarrow> None | Some (Inl e) \<Rightarrow> Some (Inl e) | Some (Inr s) \<Rightarrow>
     let s = s\<lparr>fw := FreePool vs FullDevp (fw s)\<rparr> in
     if \<not> LibOpenRoot img (fw s) then Some (Inl (Exited EFI_ABORTED)) else Some (Inr s))))))))"

definition efi_main ::
  "efilib \<Rightarrow> 'f image_services \<Rightarrow> 'f variables \<Rightarrow> 'f services \<Rightarrow> bootloader_data \<Rightarrow> 'f loader
    \<Rightarrow> (u64 \<times> 'f handover) result option" where
  "efi_main lib img vs sv blank s =
     map_option (\<lambda>r. bind r (efi_boot sv blank)) (efi_start lib img (vs\<lparr>page_service := alloc sv\<rparr>) s)"

section \<open>The variable services of a small machine\<close>

text \<open>
  A firmware whose pages are counted as in \<open>bump_firmware\<close>: freeing takes back the last page.
  It lists no variable and was booted from option 4.
\<close>

definition k_image :: "nat image_services" where
  "k_image = \<lparr>LoadedImage = (\<lambda>_. Inr 0x2000), DevicePath = (\<lambda>_. Inr 0x1000),
     PathText = (\<lambda>_ _ f. (0x600, f)), LibOpenRoot = (\<lambda>_. True)\<rparr>"

definition k_variables :: "nat variables" where
  "k_variables = \<lparr>GetNextVariableName = (\<lambda>_ _ _. Inl EFI_NOT_FOUND),
     GetVariable = (\<lambda>_ _ _ _. Inr (6, [4, 0])), SetVariable = (\<lambda>_ _ _ _ f. (0, f)),
     page_service = bump_firmware, FreePages = (\<lambda>_ f. f - 1),
     AllocatePool = (\<lambda>_ f. (0x500, f)), FreePool = (\<lambda>_ f. f),
     gEfiGlobalVariableGuid = global_guid, stack_guid = global_guid\<rparr>"

definition k_memory :: "nat loader" where "k_memory = \<lparr>lmem = lmem sample_paths, fw = 0\<rparr>"

lemma k_scan:
  "scan_variables sample_lib k_variables f ex st = Some (Inr (ex, st))"
  by (subst scan_variables.simps) (simp add: print_next_efi_variable_def k_variables_def)

lemma k_two_pages:
  assumes "fw s = 0"
  obtains p1 t1 p2 t2 where "allocate_pages bump_firmware 1 s = Inr (p1, t1)"
    and "allocate_pages bump_firmware 1 t1 = Inr (p2, t2)" and "fw t2 = 2"
proof -
  obtain t1 where 1: "allocate_pages bump_firmware 1 s = Inr (0x100000 + PAGE_SIZE * of_nat (fw s), t1)" "fw t1 = 1"
    using bump_allocate[of s 1] assms by auto
  obtain t2 where 2: "allocate_pages bump_firmware 1 t1 = Inr (0x100000 + PAGE_SIZE * of_nat (fw t1), t2)" "fw t2 = 2"
    using bump_allocate[of t1 1] 1(2) by auto
  show thesis by (rule that[OF 1(1) 2])
qed

lemma k_set:
  "\<exists>s'. set_boot_variables sample_lib k_variables devp sz s = Inr s' \<and> fw s' = fw s"
  by (auto simp: set_boot_variables_def make_load_option_def pool_alloc_def k_variables_def EFI_ERROR_def Let_def)

lemma k_enumerate_again:
  assumes "fw s = 0"
  shows "\<exists>s'. enumerate_efi_vars sample_lib k_variables 0 0 s = Some (Inr s') \<and> fw s' = 0"
proof -
  obtain p1 t1 p2 t2 where "allocate_pages bump_firmware 1 s = Inr (p1, t1)"
    "allocate_pages bump_firmware 1 t1 = Inr (p2, t2)" "fw t2 = 2" by (rule k_two_pages[OF assms])
  moreover have "page_service k_variables = bump_firmware" "FreePages k_variables = (\<lambda>_ f. f - 1)"
    "GetVariable k_variables = (\<lambda>_ _ _ _. Inr (6, [4, 0]))" by (simp_all add: k_variables_def)
  ultimately show ?thesis
    by (subst enumerate_efi_vars.simps) (simp add: k_scan Let_def)
qed

lemma k_enumerate:
  assumes "fw s = 0"
  shows "\<exists>s'. enumerate_efi_vars sample_lib k_variables devp sz s = Some (Inr s') \<and> fw s' = 0"
proof -
  obtain p1 t1 p2 t2 where a: "allocate_pages bump_firmware 1 s = Inr (p1, t1)"
    "allocate_pages bump_firmware 1 t1 = Inr (p2, t2)" "fw t2 = 2" by (rule k_two_pages[OF assms])
  obtain s2 where set: "set_boot_variables sample_lib k_variables devp sz (t2\<lparr>fw := 0\<rparr>) = Inr s2" "fw s2 = 0"
    using k_set[of devp sz "t2\<lparr>fw := 0\<rparr>"] by auto
  have sv: "page_service k_variables = bump_firmware" "FreePages k_variables = (\<lambda>_ f. f - 1)"
    "GetVariable k_variables = (\<lambda>_ _ _ _. Inr (6, [4, 0]))" by (simp_all add: k_variables_def)
  show ?thesis
    using k_enumerate_again[OF set(2)]
    by (subst enumerate_efi_vars.simps) (auto simp: k_scan Let_def a set sv)
qed

lemma k_append:
  "\<exists>s'. AppendPath (\<lambda>_ f. (0x500, f)) 0x1000 0x2000 k_memory = Some (Inr (0x500, 24, s')) \<and> fw s' = 0"
proof -
  have at: "devp_at (lmem k_memory) 0x1000 sample_disk" "devp_at (lmem k_memory) 0x2000 sample_path"
    using sample_paths_at by (simp_all add: k_memory_def)
  have n: "length (devp_bytes (sample_disk @ sample_path)) = 20" "length (devp_bytes sample_disk) = 12"
    "length (devp_bytes sample_path) = 8"
    by (simp_all add: sample_disk_def sample_path_def devp_bytes_def)
  from AppendPath_correct[OF at, of 24 "\<lambda>_ f. (0x500, f)" "0x500" 0]
  show ?thesis by (simp add: n outside_le k_memory_def)
qed

lemma k_efi_start:
  "\<exists>s'. efi_start sample_lib k_image (k_variables\<lparr>page_service := alloc k_services\<rparr>) k_memory = Some (Inr s')
    \<and> fw s' = 0"
proof -
  have vs: "k_variables\<lparr>page_service := alloc k_services\<rparr> = k_variables"
    by (simp add: k_variables_def k_services_def)
  have shown: "show_path k_image k_variables p s = Inr s" for p s
    by (simp add: show_path_def k_image_def k_variables_def)
  obtain s1 where 1: "AppendPath (AllocatePool k_variables) 0x1000 0x2000 k_memory = Some (Inr (0x500, 24, s1))"
    "fw s1 = 0" using k_append by (auto simp: k_variables_def)
  obtain s2 where 2: "enumerate_efi_vars sample_lib k_variables 0x500 24 s1 = Some (Inr s2)" "fw s2 = 0"
    using k_enumerate[OF 1(2)] by blast
  have img: "LoadedImage k_image = (\<lambda>_. Inr 0x2000)" "DevicePath k_image = (\<lambda>_. Inr 0x1000)"
    "LibOpenRoot k_image = (\<lambda>_. True)" "FreePool k_variables = (\<lambda>_ f. f)"
    by (simp_all add: k_image_def k_variables_def)
  show ?thesis unfolding vs efi_start_def using 2(2) by (simp add: img shown 1 2 Let_def)
qed

section \<open>Properties\<close>



end
