(* ===== verification/PageAlloc.thy ===== *)
theory PageAlloc
  imports BootData CString Paging
begin

text \<open>
  The physical page allocator of \<open>src/virtual-memory.c\<close>: a stack of free pages linked
  through their first quadwords. \<open>kowns\<close> is its representation invariant; the locale
  \<open>page_stack\<close> states its contract as a stack of pages, and the kernel's functions are an
  instance of it.
\<close>

section \<open>Operations\<close>

type_synonym app_flags = u32

definition APP_NORMAL :: app_flags where "APP_NORMAL = 0"
definition APP_ZERO :: app_flags where "APP_ZERO = push_bit 0 1"
definition APP_FLAT :: app_flags where "APP_FLAT = push_bit 1 1"
definition APP_PTE :: app_flags where "APP_PTE = push_bit 2 1"

definition free_physical_page :: "u64 \<Rightarrow> kernel \<Rightarrow> kernel" where
  "free_physical_page page k =
     k\<lparr>kmem := store64 (kmem k) page (free_list k), free_list := page\<rparr>"

definition allocate_physical_page :: "app_flags \<Rightarrow> kernel \<Rightarrow> (u64 \<times> kernel) result" where
  "allocate_physical_page flags k =
     (let flags = (if flags AND APP_PTE \<noteq> 0 then flags OR (APP_ZERO OR APP_FLAT) else flags) in
      if free_list k = 0 then Inl Halted
      else
        let page = free_list k;
            k = k\<lparr>free_list := load64 (kmem k) page\<rparr>;
            k = (if flags AND APP_ZERO \<noteq> 0
                 then k\<lparr>kmem := fst (memset (kmem k) page 0 PAGE_SIZE)\<rparr> else k)
        in if flags AND APP_FLAT \<noteq> 0 then Inr (page - paddr_base (bd k), k)
           else Inr (page, k))"

section \<open>Representation\<close>

fun flist :: "mem \<Rightarrow> u64 \<Rightarrow> u64 list \<Rightarrow> bool" where
  "flist m p [] \<longleftrightarrow> p = 0"
| "flist m p (q # qs) \<longleftrightarrow> p = q \<and> q \<noteq> 0 \<and> flist m (load64 m q) qs"

text \<open>A page the allocator can hand out as a page table: visible at \<open>q\<close>, frame below \<open>2\<^sup>4\<^sup>8\<close>.\<close>

definition good_page :: "kernel \<Rightarrow> u64 \<Rightarrow> bool" where
  "good_page k q \<longleftrightarrow> q \<noteq> 0 \<and> is_page q \<and> is_frame (q - paddr_base (bd k))"

definition kowns :: "kernel \<Rightarrow> u64 list \<Rightarrow> bool" where
  "kowns k qs \<longleftrightarrow> flist (kmem k) (free_list k) qs \<and> distinct qs \<and> (\<forall>q \<in> set qs. good_page k q)"

lemma load64_memset_page:
  assumes "is_page q" and "aligned8 a"
  shows "load64 (fst (memset m q 0 PAGE_SIZE)) a = (if PAGE_BASE a = q then 0 else load64 m a)"
proof -
  have "fst (memset m q 0 PAGE_SIZE) = store_bytes m q (replicate (unat PAGE_SIZE) 0)"
    by (simp add: memset_eq store_bytes_replicate cong: if_cong)
  then show ?thesis using load64_zero_page[OF assms] by simp
qed

lemma flist_cong: "(\<And>q. q \<in> set qs \<Longrightarrow> load64 m' q = load64 m q) \<Longrightarrow> flist m' p qs = flist m p qs"
  by (induction qs arbitrary: p) auto

lemma kowns_store:
  assumes "kowns k qs" and "aligned8 a" and "PAGE_BASE a \<notin> set qs"
  shows "kowns (k\<lparr>kmem := store64 (kmem k) a v\<rparr>) qs"
proof -
  have "load64 (store64 (kmem k) a v) q = load64 (kmem k) q" if "q \<in> set qs" for q
  proof -
    have "is_page q" using assms(1) that by (auto simp: kowns_def good_page_def)
    then show ?thesis using assms(2,3) that by (auto simp: load64_store64 aligned8_page)
  qed
  then show ?thesis
    using assms(1) by (simp add: kowns_def good_page_def flist_cong[of qs "store64 (kmem k) a v" "kmem k"])
qed

lemma kowns_empty: "kowns k [] \<longleftrightarrow> free_list k = 0"
  by (simp add: kowns_def)

lemma kowns_free:
  assumes "kowns k qs" and "good_page k q" and "q \<notin> set qs"
  shows "kowns (free_physical_page q k) (q # qs)"
proof -
  have q: "is_page q" "q \<noteq> 0" using assms(2) by (auto simp: good_page_def)
  have "kowns (k\<lparr>kmem := store64 (kmem k) q (free_list k)\<rparr>) qs"
    using assms q by (intro kowns_store) (simp_all add: aligned8_page)
  then show ?thesis
    using assms(2,3) q by (auto simp: kowns_def free_physical_page_def good_page_def)
qed

lemma flag_bits [simp]:
  "APP_PTE AND APP_PTE \<noteq> 0" "(APP_PTE OR (APP_ZERO OR APP_FLAT)) AND APP_ZERO \<noteq> 0"
  "(APP_PTE OR (APP_ZERO OR APP_FLAT)) AND APP_FLAT \<noteq> 0"
  "APP_NORMAL AND APP_PTE = 0" "APP_NORMAL AND APP_ZERO = 0" "APP_NORMAL AND APP_FLAT = 0"
  "APP_ZERO AND APP_PTE = 0" "APP_ZERO AND APP_ZERO \<noteq> 0" "APP_ZERO AND APP_FLAT = 0"
  by (simp_all add: APP_PTE_def APP_ZERO_def APP_FLAT_def APP_NORMAL_def)

text \<open>What a successful allocation does, for every combination of flags.\<close>

definition wants_zero :: "app_flags \<Rightarrow> bool" where
  "wants_zero flags \<longleftrightarrow> flags AND APP_ZERO \<noteq> 0 \<or> flags AND APP_PTE \<noteq> 0"

definition wants_flat :: "app_flags \<Rightarrow> bool" where
  "wants_flat flags \<longleftrightarrow> flags AND APP_FLAT \<noteq> 0 \<or> flags AND APP_PTE \<noteq> 0"

lemma wants [simp]:
  "wants_zero APP_PTE" "wants_flat APP_PTE" "\<not> wants_zero APP_NORMAL" "\<not> wants_flat APP_NORMAL"
  "wants_zero APP_ZERO" "\<not> wants_flat APP_ZERO"
  by (simp_all add: wants_zero_def wants_flat_def APP_PTE_def APP_ZERO_def APP_FLAT_def APP_NORMAL_def)

lemma flag_closure:
  assumes "f = (if flags AND APP_PTE \<noteq> 0 then flags OR (APP_ZERO OR APP_FLAT) else flags)"
  shows "f AND APP_ZERO \<noteq> 0 \<longleftrightarrow> wants_zero flags" "f AND APP_FLAT \<noteq> 0 \<longleftrightarrow> wants_flat flags"
proof -
  have b: "bit APP_ZERO n \<longleftrightarrow> n = 0" "bit APP_FLAT n \<longleftrightarrow> n = 1" for n
    unfolding APP_ZERO_def APP_FLAT_def bit_push_bit_iff bit_1_iff by auto
  have t: "w AND APP_ZERO \<noteq> 0 \<longleftrightarrow> bit w 0" "w AND APP_FLAT \<noteq> 0 \<longleftrightarrow> bit w 1" for w
    unfolding word_eq_bits bit_and_iff b bit_0_eq by auto
  show "f AND APP_ZERO \<noteq> 0 \<longleftrightarrow> wants_zero flags" "f AND APP_FLAT \<noteq> 0 \<longleftrightarrow> wants_flat flags"
    using assms unfolding wants_zero_def wants_flat_def t by (auto simp: bit_or_iff b)
qed

lemma allocate_eq:
  "allocate_physical_page flags k =
     (if free_list k = 0 then Inl Halted
      else Inr (free_list k - (if wants_flat flags then paddr_base (bd k) else 0),
        k\<lparr>kmem := if wants_zero flags then fst (memset (kmem k) (free_list k) 0 PAGE_SIZE) else kmem k,
          free_list := load64 (kmem k) (free_list k)\<rparr>))"
  by (simp add: allocate_physical_page_def Let_def flag_closure[OF refl])

lemma kowns_alloc:
  assumes own: "kowns k (q # qs)"
  shows "\<exists>k'. allocate_physical_page flags k =
      Inr (q - (if wants_flat flags then paddr_base (bd k) else 0), k')
    \<and> kowns k' qs \<and> k' = k\<lparr>kmem := kmem k', free_list := free_list k'\<rparr>
    \<and> (\<forall>a. aligned8 a \<longrightarrow> load64 (kmem k') a =
          (if wants_zero flags \<and> PAGE_BASE a = q then 0 else load64 (kmem k) a))"
proof -
  let ?m = "if wants_zero flags then fst (memset (kmem k) q 0 PAGE_SIZE) else kmem k"
  let ?k = "k\<lparr>kmem := ?m, free_list := load64 (kmem k) q\<rparr>"
  have q: "free_list k = q" "q \<noteq> 0" "is_page q" "q \<notin> set qs"
    and qs: "\<forall>x \<in> set qs. is_page x"
    using own by (auto simp: kowns_def good_page_def)
  have ld: "load64 ?m a = (if wants_zero flags \<and> PAGE_BASE a = q then 0 else load64 (kmem k) a)"
    if "aligned8 a" for a
    using load64_memset_page[OF q(3) that] by simp
  have "load64 ?m x = load64 (kmem k) x" if "x \<in> set qs" for x
  proof -
    have "aligned8 x" "PAGE_BASE x \<noteq> q" using that qs q by (auto simp: aligned8_page)
    then show ?thesis using ld[of x] by simp
  qed
  then have "flist ?m (load64 (kmem k) q) qs"
    using own flist_cong[of qs ?m "kmem k"] by (simp add: kowns_def)
  then have "kowns ?k qs"
    using own by (simp add: kowns_def good_page_def)
  then show ?thesis
    using q ld by (intro exI[of _ ?k]) (simp add: allocate_eq)
qed

section \<open>The contract\<close>

text \<open>
  A stack of pages: what is pushed is popped in the opposite order, a pop from the empty
  stack stops.
\<close>

text \<open>\<open>n\<close> pops in a row.\<close>

fun pop_n :: "('s \<Rightarrow> (u64 \<times> 's) result) \<Rightarrow> nat \<Rightarrow> 's \<Rightarrow> (u64 list \<times> 's) result" where
  "pop_n pop 0 s = Inr ([], s)"
| "pop_n pop (Suc n) s =
     bind (pop s) (\<lambda>(q, s). bind (pop_n pop n s) (\<lambda>(qs, s). Inr (q # qs, s)))"

locale page_stack =
  fixes push :: "u64 \<Rightarrow> 's \<Rightarrow> 's"
    and pop :: "'s \<Rightarrow> (u64 \<times> 's) result"
    and owns :: "'s \<Rightarrow> u64 list \<Rightarrow> bool"
    and good :: "'s \<Rightarrow> u64 \<Rightarrow> bool"
    and nomem :: stop
  assumes push: "owns s qs \<Longrightarrow> good s q \<Longrightarrow> q \<notin> set qs \<Longrightarrow> owns (push q s) (q # qs)"
    and good_push: "good (push p s) q = good s q"
    and pop_Cons: "owns s (q # qs) \<Longrightarrow> \<exists>s'. pop s = Inr (q, s') \<and> owns s' qs"
    and pop_Nil: "owns s [] \<Longrightarrow> pop s = Inl nomem"
begin

lemma push_all:
  "owns s qs \<Longrightarrow> (\<And>p. p \<in> set ps \<Longrightarrow> good s p) \<Longrightarrow> distinct ps \<Longrightarrow> set ps \<inter> set qs = {} \<Longrightarrow>
   owns (fold push ps s) (rev ps @ qs)"
proof (induction ps arbitrary: s qs)
  case Nil
  then show ?case by simp
next
  case (Cons p ps)
  then have "owns (push p s) (p # qs)" by (intro push) auto
  with Cons.prems have "owns (fold push ps (push p s)) (rev ps @ p # qs)"
    by (intro Cons.IH) (auto simp: good_push)
  then show ?case by simp
qed

lemma pop_n_owned:
  "owns s (qs @ rest) \<Longrightarrow> \<exists>s'. pop_n pop (length qs) s = Inr (qs, s') \<and> owns s' rest"
proof (induction qs arbitrary: s)
  case Nil
  then show ?case by simp
next
  case (Cons q qs)
  obtain s' where "pop s = Inr (q, s')" "owns s' (qs @ rest)"
    using pop_Cons[of s q "qs @ rest"] Cons.prems by auto
  with Cons.IH[of s'] show ?case by auto
qed

lemma pop_n_too_many:
  "owns s qs \<Longrightarrow> length qs < n \<Longrightarrow> pop_n pop n s = Inl nomem"
proof (induction n arbitrary: s qs)
  case 0
  then show ?case by simp
next
  case (Suc n)
  show ?case
  proof (cases qs)
    case Nil
    then show ?thesis using Suc.prems pop_Nil by simp
  next
    case (Cons q qs')
    then obtain s' where "pop s = Inr (q, s')" "owns s' qs'"
      using pop_Cons Suc.prems(1) by blast
    then show ?thesis using Suc.IH[of s' qs'] Suc.prems(2) Cons by simp
  qed
qed

end

interpretation kernel_pages: page_stack free_physical_page "allocate_physical_page APP_NORMAL"
  kowns good_page Halted
proof
  show "kowns (free_physical_page q k) (q # qs)"
    if "kowns k qs" "good_page k q" "q \<notin> set qs" for k qs q
    using that by (rule kowns_free)
  show "good_page (free_physical_page p k) q = good_page k q" for p k q
    by (simp add: good_page_def free_physical_page_def)
  show "\<exists>k'. allocate_physical_page APP_NORMAL k = Inr (q, k') \<and> kowns k' qs"
    if "kowns k (q # qs)" for k q qs
    using kowns_alloc[OF that, of APP_NORMAL] by auto
  show "allocate_physical_page APP_NORMAL k = Inl Halted" if "kowns k []" for k
    using that by (simp add: allocate_eq kowns_empty)
qed


section \<open>Properties\<close>

text \<open>The boot pages of the sample machine, all free.\<close>

definition sample_pages :: "u64 list" where
  "sample_pages = map (\<lambda>i. 0xffffffffb8100000 + 0x1000 * of_nat i) [0..<32]"

definition sample_kernel :: kernel where
  "sample_kernel = fold free_physical_page sample_pages blank_kernel"

lemma blank_empty: "kowns blank_kernel []"
  by (simp add: kowns_empty blank_kernel_def)

lemma sample_pages_list: "sample_pages =
  [0xffffffffb8100000, 0xffffffffb8101000, 0xffffffffb8102000, 0xffffffffb8103000,
   0xffffffffb8104000, 0xffffffffb8105000, 0xffffffffb8106000, 0xffffffffb8107000,
   0xffffffffb8108000, 0xffffffffb8109000, 0xffffffffb810a000, 0xffffffffb810b000,
   0xffffffffb810c000, 0xffffffffb810d000, 0xffffffffb810e000, 0xffffffffb810f000,
   0xffffffffb8110000, 0xffffffffb8111000, 0xffffffffb8112000, 0xffffffffb8113000,
   0xffffffffb8114000, 0xffffffffb8115000, 0xffffffffb8116000, 0xffffffffb8117000,
   0xffffffffb8118000, 0xffffffffb8119000, 0xffffffffb811a000, 0xffffffffb811b000,
   0xffffffffb811c000, 0xffffffffb811d000, 0xffffffffb811e000, 0xffffffffb811f000]"
  by (simp add: sample_pages_def upt_rec)

lemma sample_pages_good: "p \<in> set sample_pages \<Longrightarrow> good_page blank_kernel p" "distinct sample_pages"
  by (auto simp: sample_pages_list good_page_def is_page_def PAGE_OFFSET_def PAGE_SIZE_def
      is_frame_def PTE_ADDR_MASK_def blank_kernel_def sample_data_def)

lemma length_sample_pages: "length sample_pages = 32"
  by (simp add: sample_pages_def)

lemma free_pages_frame:
  "bd (fold free_physical_page ps k) = bd k" "bd_addr (fold free_physical_page ps k) = bd_addr k"
  "cpu (fold free_physical_page ps k) = cpu k"
  by (induction ps arbitrary: k) (simp_all add: free_physical_page_def)

lemma sample_owns: "kowns sample_kernel (rev sample_pages)"
  unfolding sample_kernel_def
  using kernel_pages.push_all[OF blank_empty, of sample_pages] sample_pages_good by simp

text \<open>The allocator is a stack. Pages freed in some order come back from
  \<open>allocate_physical_page\<close> in the opposite order, each exactly once, before any page that was
  free earlier, and what was free earlier still is.\<close>

theorem free_then_allocate:
  assumes "kowns k qs" and "\<And>p. p \<in> set ps \<Longrightarrow> good_page k p" and "distinct ps"
    and "set ps \<inter> set qs = {}"
  shows "\<exists>k'. pop_n (allocate_physical_page APP_NORMAL) (length ps) (fold free_physical_page ps k) =
      Inr (rev ps, k') \<and> kowns k' qs"
  using kernel_pages.pop_n_owned[OF kernel_pages.push_all[OF assms]] by simp

theorem free_then_allocate_witness:
  "\<exists>k'. pop_n (allocate_physical_page APP_NORMAL) 32 (fold free_physical_page sample_pages blank_kernel) =
      Inr (rev sample_pages, k') \<and> kowns k' []"
  using free_then_allocate[OF blank_empty, of sample_pages] sample_pages_good
  by (simp add: length_sample_pages)

text \<open>What one allocation does, for every combination of flags: it halts exactly when no
  page is free; otherwise it returns the page freed last, as its direct-map address or, with
  \<open>APP_FLAT\<close> or \<open>APP_PTE\<close>, as its physical address; with \<open>APP_ZERO\<close> or \<open>APP_PTE\<close> every
  quadword of the page is zero; no quadword of another page changes.\<close>

theorem allocate_by_flags:
  assumes own: "kowns k qs"
  shows "case qs of
      [] \<Rightarrow> allocate_physical_page flags k = Inl Halted
    | q # qs' \<Rightarrow> \<exists>k'. allocate_physical_page flags k =
          Inr (if flags AND APP_FLAT \<noteq> 0 \<or> flags AND APP_PTE \<noteq> 0 then q - paddr_base (bd k) else q, k')
        \<and> kowns k' qs'
        \<and> (\<forall>a. aligned8 a \<longrightarrow> load64 (kmem k') a =
            (if PAGE_BASE a = q \<and> (flags AND APP_ZERO \<noteq> 0 \<or> flags AND APP_PTE \<noteq> 0) then 0
             else load64 (kmem k) a))"
proof (cases qs)
  case Nil
  then show ?thesis using own by (simp add: allocate_eq kowns_empty)
next
  case (Cons q qs')
  have eq: "q - (if wants_flat flags then paddr_base (bd k) else 0) =
      (if flags AND APP_FLAT \<noteq> 0 \<or> flags AND APP_PTE \<noteq> 0 then q - paddr_base (bd k) else q)"
    by (simp add: wants_flat_def)
  have zero: "PAGE_BASE a = q \<and> (flags AND APP_ZERO \<noteq> 0 \<or> flags AND APP_PTE \<noteq> 0) \<longleftrightarrow>
      wants_zero flags \<and> PAGE_BASE a = q" for a by (auto simp: wants_zero_def)
  from kowns_alloc[OF own[unfolded Cons], of flags] show ?thesis
    unfolding Cons list.case zero eq by blast
qed

theorem allocate_by_flags_witness:
  "\<exists>k'. allocate_physical_page APP_PTE sample_kernel = Inr (0x11f000, k')
    \<and> kowns k' (tl (rev sample_pages))"
proof -
  have "rev sample_pages = 0xffffffffb811f000 # tl (rev sample_pages)" by (simp add: sample_pages_list)
  then have own: "kowns sample_kernel (0xffffffffb811f000 # tl (rev sample_pages))"
    using sample_owns by metis
  have "paddr_base (bd sample_kernel) = 0xffffffffb8000000"
    by (simp add: sample_kernel_def free_pages_frame blank_kernel_def sample_data_def)
  with allocate_by_flags[OF own, of APP_PTE] show ?thesis by (auto simp: APP_PTE_def)
qed

end
