(* ===== verification/AddressSpace.thy ===== *)
theory AddressSpace
  imports PageAlloc Spaces
begin

text \<open>
  The address spaces of \<open>src/virtual-memory.c\<close>: \<open>map_page\<close>, \<open>map_range\<close>, \<open>set_vpage_ro\<close> and
  \<open>new_address_space\<close>, over the page tables in the kernel's memory. The abstract view of an
  address space is a partial function from addresses to leaf entries; \<open>spec_maps\<close> adds
  mappings to it, and the operations refine it.
\<close>

section \<open>Operations\<close>

definition NEXT_PAGE_LEVEL :: "u64 \<Rightarrow> kernel \<Rightarrow> u64" where
  "NEXT_PAGE_LEVEL entry k = paddr_base (bd k) + (load64 (kmem k) entry AND PTE_ADDR_MASK)"

text \<open>\<open>if (!(*e & PTE_P)) *e = (uint64_t)allocate_physical_page(APP_PTE) | PTE_P | PTE_RW;\<close>\<close>

definition fill_entry :: "u64 \<Rightarrow> kernel \<Rightarrow> kernel result" where
  "fill_entry e k =
     (if load64 (kmem k) e AND PTE_P = 0
      then bind (allocate_physical_page APP_PTE k) (\<lambda>(p, k).
             Inr (k\<lparr>kmem := store64 (kmem k) e (p OR PTE_P OR PTE_RW)\<rparr>))
      else Inr k)"

definition map_page :: "u64 \<Rightarrow> u64 \<Rightarrow> u64 \<Rightarrow> u64 \<Rightarrow> kernel \<Rightarrow> kernel result" where
  "map_page address_space ppage vpage flags k =
     (let level_4_e = pte_slot address_space (PAGE_LEVEL_INDEX vpage 4) in
      bind (fill_entry level_4_e k) (\<lambda>k.
      let level_3 = NEXT_PAGE_LEVEL level_4_e k;
          level_3_e = pte_slot level_3 (PAGE_LEVEL_INDEX vpage 3) in
      bind (fill_entry level_3_e k) (\<lambda>k.
      let level_2 = NEXT_PAGE_LEVEL level_3_e k;
          level_2_e = pte_slot level_2 (PAGE_LEVEL_INDEX vpage 2) in
      bind (fill_entry level_2_e k) (\<lambda>k.
      let level_1 = NEXT_PAGE_LEVEL level_2_e k;
          level_1_e = pte_slot level_1 (PAGE_LEVEL_INDEX vpage 1) in
      if load64 (kmem k) level_1_e AND PTE_P \<noteq> 0 then Inl Halted
      else Inr (k\<lparr>kmem := store64 (kmem k) level_1_e (ppage OR PTE_P OR flags)\<rparr>)))))"

definition map_range :: "u64 \<Rightarrow> u64 \<Rightarrow> u64 \<Rightarrow> u64 \<Rightarrow> u64 \<Rightarrow> kernel \<Rightarrow> kernel result" where
  "map_range address_space paddr_start vaddr_start n flags k =
     for_each (\<lambda>i. map_page address_space (paddr_start + PAGE_SIZE * of_nat i)
                     (vaddr_start + PAGE_SIZE * of_nat i) flags) [0..<unat n] k"

definition set_vpage_ro :: "u64 \<Rightarrow> u64 \<Rightarrow> kernel \<Rightarrow> kernel result" where
  "set_vpage_ro address_space vpage k =
     (let level_4_e = pte_slot address_space (PAGE_LEVEL_INDEX vpage 4) in
      if load64 (kmem k) level_4_e AND PTE_P = 0 then Inl Halted else
      let level_3 = NEXT_PAGE_LEVEL level_4_e k;
          level_3_e = pte_slot level_3 (PAGE_LEVEL_INDEX vpage 3) in
      if load64 (kmem k) level_3_e AND PTE_P = 0 then Inl Halted else
      let level_2 = NEXT_PAGE_LEVEL level_3_e k;
          level_2_e = pte_slot level_2 (PAGE_LEVEL_INDEX vpage 2) in
      if load64 (kmem k) level_2_e AND PTE_P = 0 then Inl Halted else
      let level_1 = NEXT_PAGE_LEVEL level_2_e k;
          level_1_e = pte_slot level_1 (PAGE_LEVEL_INDEX vpage 1) in
      if load64 (kmem k) level_1_e AND PTE_P = 0 then Inl Halted
      else Inr (k\<lparr>kmem := store64 (kmem k) level_1_e (load64 (kmem k) level_1_e AND NOT PTE_RW)\<rparr>))"

text \<open>The bodies of the three loops of \<open>new_address_space\<close>.\<close>

definition map_runtime_segment :: "u64 \<Rightarrow> nat \<Rightarrow> kernel \<Rightarrow> kernel result" where
  "map_runtime_segment address_space i k =
     (let Memory = MemoryMap (bd k) ! i in
      if Attribute Memory AND EFI_MEMORY_RUNTIME = 0 then Inr k
      else
        let flags = 0;
            flags = (if Type Memory = EfiRuntimeServicesData \<or> Type Memory = EfiMemoryMappedIO
                        \<or> Type Memory = EfiMemoryMappedIOPortSpace
                     then flags OR PTE_RW else flags);
            flags = (if Type Memory = EfiRuntimeServicesCode then flags OR PTE_RW else flags)
        in map_range address_space (PhysicalStart Memory) (VirtualStart Memory)
             (NumberOfPages Memory) flags k)"

definition map_kernel_segment ::
  "u64 \<Rightarrow> nat \<Rightarrow> Elf64_Phdr option \<times> kernel \<Rightarrow> (Elf64_Phdr option \<times> kernel) result" where
  "map_kernel_segment address_space i = (\<lambda>(relro, k).
     (let phdr = phdrs (bd k) ! i;
          relro = (if p_type phdr = PT_GNU_RELRO then Some phdr else relro) in
      if p_type phdr \<noteq> PT_LOAD then Inr (relro, k)
      else bind (map_range address_space (PAGE_BASE (p_paddr phdr)) (PAGE_BASE (p_vaddr phdr))
             (NUM_PAGES (p_vaddr phdr) (p_memsz phdr))
             (if p_flags phdr AND PF_W \<noteq> 0 then PTE_RW else 0) k)
             (\<lambda>k. Inr (relro, k))))"

definition protect_relro :: "u64 \<Rightarrow> Elf64_Phdr option \<Rightarrow> kernel \<Rightarrow> kernel result" where
  "protect_relro address_space relro k =
     (case relro of None \<Rightarrow> Inr k
      | Some relro \<Rightarrow>
          for_each (\<lambda>i. set_vpage_ro address_space (PAGE_BASE (p_vaddr relro) + PAGE_SIZE * of_nat i))
            [0..<unat (NUM_PAGES (p_vaddr relro) (p_memsz relro))] k)"

definition new_address_space :: "kernel \<Rightarrow> (u64 \<times> kernel) result" where
  "new_address_space k =
     bind (allocate_physical_page APP_ZERO k) (\<lambda>(address_space, k).
     if address_space = 0 then Inl Halted else
     bind (map_range address_space (bd_addr k - paddr_base (bd k)) (bd_addr k) 1 PTE_RW k) (\<lambda>k.
     bind (map_range address_space (free_memory (bd k) - paddr_base (bd k)) (free_memory (bd k))
             (n_pages (bd k)) PTE_RW k) (\<lambda>k.
     bind (map_range address_space (apic_paddr (cpu k)) (apic_vaddr (cpu k)) 1 PTE_RW k) (\<lambda>k.
     bind (for_each (map_runtime_segment address_space) [0..<unat (NumEntries (bd k))] k) (\<lambda>k.
     bind (for_each (map_kernel_segment address_space) [0..<unat (e_phnum (ehdr (bd k)))]
             (None, k)) (\<lambda>(relro, k).
     bind (protect_relro address_space relro k) (\<lambda>k.
     Inr (address_space, k))))))))"

section \<open>The kernel's memory as a page store\<close>

definition krd :: "kernel \<Rightarrow> u64 \<Rightarrow> u64" where "krd k a = load64 (kmem k) a"

definition kwr :: "kernel \<Rightarrow> u64 \<Rightarrow> u64 \<Rightarrow> kernel" where
  "kwr k a v = k\<lparr>kmem := store64 (kmem k) a v\<rparr>"

definition kbase :: "kernel \<Rightarrow> u64" where "kbase k = paddr_base (bd k)"

lemmas kstore = krd_def kwr_def kbase_def

interpretation kernel_tables: page_store krd kwr kbase "allocate_physical_page APP_PTE" kowns Halted
proof
  show "krd (kwr k a v) b = (if a = b then v else krd k b)" if "aligned8 a" "aligned8 b" for k a b v
    using that by (simp add: kstore load64_store64)
  show "kbase (kwr k a v) = kbase k" for k a v
    by (simp add: kstore)
  show "kowns (kwr k a v) free" if "kowns k free" "aligned8 a" "PAGE_BASE a \<notin> set free"
    for k free a v
    using that by (simp add: kwr_def kowns_store)
  show "\<exists>k'. allocate_physical_page APP_PTE k = Inr (q - kbase k, k') \<and> kowns k' free
      \<and> kbase k' = kbase k \<and> is_frame (q - kbase k) \<and> is_page q
      \<and> (\<forall>a. aligned8 a \<longrightarrow> krd k' a = (if PAGE_BASE a = q then 0 else krd k a))"
    if own: "kowns k (q # free)" for k q free
  proof -
    obtain k' where "allocate_physical_page APP_PTE k = Inr (q - kbase k, k')" "kowns k' free"
      and k': "k' = k\<lparr>kmem := kmem k', free_list := free_list k'\<rparr>"
      and "\<forall>a. aligned8 a \<longrightarrow> krd k' a = (if PAGE_BASE a = q then 0 else krd k a)"
      using kowns_alloc[OF own, of APP_PTE] by (auto simp: kstore)
    moreover have "kbase k' = kbase k" by (subst k') (simp add: kbase_def)
    moreover have "is_frame (q - kbase k)" "is_page q"
      using own by (auto simp: kowns_def good_page_def kbase_def)
    ultimately show ?thesis by blast
  qed
  show "allocate_physical_page APP_PTE k = Inl Halted" if "kowns k []" for k
    using that by (simp add: allocate_eq kowns_empty)
qed

lemma enter_level_kernel:
  "enter_level krd kwr kbase (allocate_physical_page APP_PTE) lvl t v k =
     (let e = pte_slot t (PAGE_LEVEL_INDEX v lvl) in
      bind (fill_entry e k) (\<lambda>k. Inr (NEXT_PAGE_LEVEL e k, k)))"
  by (simp add: enter_level_def fill_entry_def NEXT_PAGE_LEVEL_def Let_def kstore)

lemma map_page_levels:
  "map_page address_space ppage vpage flags k =
     map_level krd kwr kbase (allocate_physical_page APP_PTE) Halted 3 address_space vpage
       (ppage OR PTE_P OR flags) k"
proof -
  have l3: "(3 :: nat) = Suc (Suc (Suc 0))" by simp
  have "Suc (Suc (Suc (Suc 0))) = 4" "Suc (Suc (Suc 0)) = 3" "Suc (Suc 0) = 2" by simp_all
  note nums = this
  show ?thesis
    unfolding l3 map_level.simps unfolding nums
    by (simp add: map_page_def enter_level_kernel Let_def bind_assoc)
      (simp add: krd_def kwr_def cong: if_cong)
qed

lemma set_vpage_ro_levels:
  "set_vpage_ro address_space vpage k =
     update_level krd kwr kbase Halted (\<lambda>e. e AND NOT PTE_RW) 3 address_space vpage k"
  by (simp add: set_vpage_ro_def NEXT_PAGE_LEVEL_def Let_def kstore eval_nat_numeral)

section \<open>Address spaces\<close>

definition translate :: "kernel \<Rightarrow> u64 \<Rightarrow> space" where
  "translate k address_space v = walk (krd k) (kbase k) 3 address_space v"

definition tables :: "kernel \<Rightarrow> u64 \<Rightarrow> u64 list" where
  "tables k address_space = tabs (krd k) (kbase k) 3 address_space"

text \<open>How many tables \<open>map_page\<close> would have to add on the way to an address.\<close>

definition tables_lacking :: "kernel \<Rightarrow> u64 \<Rightarrow> u64 \<Rightarrow> nat" where
  "tables_lacking k address_space v = lacking (krd k) (kbase k) 3 address_space v"

definition space_ok :: "kernel \<Rightarrow> u64 \<Rightarrow> u64 list \<Rightarrow> bool" where
  "space_ok k address_space free \<longleftrightarrow>
     kowns k free \<and> tree_ok (krd k) (kbase k) 3 address_space free"

section \<open>One step\<close>

definition same_rest :: "kernel \<Rightarrow> kernel \<Rightarrow> bool" where
  "same_rest k k' \<longleftrightarrow> bd_addr k' = bd_addr k \<and> bd k' = bd k \<and> cpu k' = cpu k \<and> idt k' = idt k
     \<and> gdtr k' = gdtr k \<and> idtr k' = idtr k \<and> cr3 k' = cr3 k \<and> data_selectors k' = data_selectors k
     \<and> stack_selector k' = stack_selector k \<and> code_selector k' = code_selector k"

lemma same_rest_trans: "same_rest k k1 \<Longrightarrow> same_rest k1 k2 \<Longrightarrow> same_rest k k2"
  by (simp add: same_rest_def)

lemma same_rest_simps [simp]: "same_rest k k"
  "same_rest k (k'\<lparr>kmem := m\<rparr>) \<longleftrightarrow> same_rest k k'"
  "same_rest k (k'\<lparr>free_list := p\<rparr>) \<longleftrightarrow> same_rest k k'"
  by (simp_all add: same_rest_def)

lemma same_rest_frame:
  assumes "same_rest k k'"
  shows "bd k' = bd k" "bd_addr k' = bd_addr k" "cpu k' = cpu k" "kbase k' = kbase k"
  using assms by (simp_all add: same_rest_def kbase_def)

text \<open>
  \<open>extends c\<close>: \<open>k'\<close> comes from \<open>k\<close> by changing the tables of one address space: the first \<open>c\<close>
  pages moved from the free list into the tree, no other page was written and no other
  variable of the kernel changed.
\<close>

definition extends :: "nat \<Rightarrow> kernel \<Rightarrow> u64 \<Rightarrow> u64 list \<Rightarrow> kernel \<Rightarrow> u64 list \<Rightarrow> bool" where
  "extends c k as free k' free' \<longleftrightarrow> space_ok k' as free'
     \<and> c \<le> length free \<and> free' = drop c free
     \<and> mset (tables k' as @ free') = mset (tables k as @ free)
     \<and> agree_on (\<lambda>x. x \<notin> set (tables k as @ free)) (krd k) (krd k')
     \<and> same_rest k k'"

lemma extendsD:
  assumes "extends c k as free k' free'"
  shows "space_ok k' as free'" and "mset (tables k' as @ free') = mset (tables k as @ free)"
    and "c \<le> length free" and "free' = drop c free" and "same_rest k k'"
    and "agree_on (\<lambda>x. x \<notin> set (tables k as @ free)) (krd k) (krd k')"
  using assms unfolding extends_def by blast+

lemma extends_refl: "space_ok k as free \<Longrightarrow> extends 0 k as free k free"
  by (simp add: extends_def agree_on_def)

lemma extends_trans:
  assumes "extends c k as free k1 free1" and "extends d k1 as free1 k2 free2"
  shows "extends (c + d) k as free k2 free2"
proof -
  have "set (tables k1 as @ free1) = set (tables k as @ free)"
    using extendsD(2)[OF assms(1)] by (rule mset_eq_setD)
  then have "agree_on (\<lambda>x. x \<notin> set (tables k as @ free)) (krd k) (krd k2)"
    using assms by (auto simp: extends_def agree_on_def)
  moreover have "c + d \<le> length free \<and> free2 = drop (c + d) free"
    using assms by (auto simp: extends_def add.commute)
  ultimately show ?thesis using assms by (auto simp: extends_def intro: same_rest_trans)
qed

lemma allocate_rest: "allocate_physical_page flags k = Inr (p, k') \<Longrightarrow> same_rest k k'"
  by (auto simp: allocate_eq split: if_splits)

lemma fill_entry_rest: "fill_entry e k = Inr k' \<Longrightarrow> same_rest k k'"
  by (auto simp: fill_entry_def bind_eq_Inr split: if_splits
      dest!: allocate_rest intro: same_rest_trans)

lemma map_page_rest: "map_page as p v flags k = Inr k' \<Longrightarrow> same_rest k k'"
  unfolding map_page_def Let_def bind_eq_Inr
  by (auto split: if_splits dest!: fill_entry_rest) (blast intro: same_rest_trans)

lemma set_vpage_ro_rest: "set_vpage_ro as v k = Inr k' \<Longrightarrow> same_rest k k'"
  by (auto simp: set_vpage_ro_def Let_def split: if_splits)


section \<open>The operations refine the specification\<close>

lemma map_page_halts:
  "translate k as v \<noteq> None \<Longrightarrow> map_page as p v flags k = Inl Halted"
  using kernel_tables.map_level_remap[where remap = Halted]
  by (auto simp: map_page_levels translate_def)

text \<open>\<open>map_page\<close> on the kernel's state is the generic step of the page-table library.\<close>

definition map_request :: "u64 \<Rightarrow> request \<Rightarrow> kernel \<Rightarrow> kernel result" where
  "map_request as = (\<lambda>(v, p, flags). map_page as p v flags)"

lemma map_request_leaf:
  "map_request as = map_leaf krd kwr kbase (allocate_physical_page APP_PTE) Halted as"
  by (auto simp: fun_eq_iff map_request_def map_leaf_def map_page_levels leaf_def)

lemma grown_extends:
  "grown krd kbase kowns c as free k k' \<Longrightarrow> same_rest k k' \<Longrightarrow> extends c k as free k' (drop c free)"
  by (auto simp: grown_def extends_def space_ok_def tables_def)

lemma map_page_refines:
  assumes ok: "space_ok k as free" and run: "map_page as p v flags k = Inr k'"
  shows "\<exists>free'. extends (tables_lacking k as v) k as free k' free' \<and> translate k as v = None
    \<and> translate k' as = space_map (translate k as) v (leaf p flags)
    \<and> tables_lacking k' as = (\<lambda>w. min (tables_lacking k as w) (level_gap 3 w v))"
proof -
  have own: "kowns k free" and tree: "tree_ok (krd k) (kbase k) 3 as free"
    using ok by (auto simp: space_ok_def)
  have run': "map_leaf krd kwr kbase (allocate_physical_page APP_PTE) Halted as (v, p, flags) k = Inr k'"
    using run by (simp add: map_request_leaf[symmetric] map_request_def)
  note res = kernel_tables.map_leaf_correct[OF own tree run']
  from res have "extends (tables_lacking k as v) k as free k' (drop (tables_lacking k as v) free)"
    unfolding tables_lacking_def by (intro grown_extends map_page_rest[OF run]) blast
  with res show ?thesis by (auto simp: translate_def[abs_def] tables_lacking_def[abs_def])
qed

lemma map_page_total:
  assumes "space_ok k as free" and "translate k as v = None" and "tables_lacking k as v \<le> length free"
  shows "\<exists>k'. map_page as p v flags k = Inr k'"
  using kernel_tables.map_level_succeeds[of k free 3 as v] assms
  by (simp add: space_ok_def translate_def map_page_levels tables_lacking_def)

lemma set_vpage_ro_halts:
  "translate k as v = None \<Longrightarrow> set_vpage_ro as v k = Inl Halted"
  using kernel_tables.update_level_missing[where missing = Halted]
  by (simp add: set_vpage_ro_levels translate_def)

lemma set_vpage_ro_total:
  "translate k as v = Some e \<Longrightarrow> \<exists>k'. set_vpage_ro as v k = Inr k'"
  using kernel_tables.update_level_total[where missing = Halted]
  by (simp add: set_vpage_ro_levels translate_def)

lemma set_vpage_ro_refines:
  assumes ok: "space_ok k as free" and run: "set_vpage_ro as v k = Inr k'"
  shows "extends 0 k as free k' free \<and> (\<exists>e. translate k as v = Some e
    \<and> translate k' as = space_map (translate k as) v (read_only e))"
proof -
  have own: "kowns k free" and tree: "tree_ok (krd k) (kbase k) 3 as free"
    using ok by (auto simp: space_ok_def)
  note run' = run[unfolded set_vpage_ro_levels]
  have keep: "(e AND NOT PTE_RW) AND PTE_P = e AND PTE_P" for e
    unfolding word_eq_bits by (auto simp: bit_and_iff bit_not_iff bit_PTE_P bit_PTE_RW)
  from kernel_tables.update_level_correct[OF tree keep run']
  have tabs: "tabs (krd k') (kbase k) 3 as = tabs (krd k) (kbase k) 3 as" "kbase k' = kbase k"
    and some: "walk (krd k) (kbase k) 3 as v \<noteq> None"
    and wk: "\<And>w. walk (krd k') (kbase k) 3 as w =
        (if same_slot 3 w v then map_option (\<lambda>e. e AND NOT PTE_RW) (walk (krd k) (kbase k) 3 as v)
         else walk (krd k) (kbase k) 3 as w)"
    and ag: "agree_on (\<lambda>x. x \<notin> set (tabs (krd k) (kbase k) 3 as)) (krd k) (krd k')"
    by auto
  have "kowns k' free" by (rule kernel_tables.update_level_owns[OF own tree run'])
  then have "extends 0 k as free k' free"
    using tree tabs set_vpage_ro_rest[OF run] ag
    by (auto simp: extends_def space_ok_def tables_def tree_ok_def elim!: agree_mono)
  moreover obtain e where e: "translate k as v = Some e" using some by (auto simp: translate_def)
  moreover have "translate k' as = space_map (translate k as) v (read_only e)"
    using e by (intro ext) (simp add: translate_def space_map_def read_only_def tabs wk same_slot_VPAGE)
  ultimately show ?thesis by blast
qed


section \<open>Sequences of requests\<close>

lemma map_requests_rest: "for_each (map_request as) rs k = Inr k' \<Longrightarrow> same_rest k k'"
proof (induction rs arbitrary: k)
  case Nil
  then show ?case by simp
next
  case (Cons r rs)
  then obtain k1 where "map_request as r k = Inr k1" "same_rest k1 k'"
    by (auto simp: bind_eq_Inr)
  moreover have "same_rest k k1"
    using \<open>map_request as r k = Inr k1\<close> map_page_rest by (cases r) (auto simp: map_request_def)
  ultimately show ?case by (blast intro: same_rest_trans)
qed

lemma map_requests_refine:
  assumes ok: "space_ok k as free" and run: "for_each (map_request as) rs k = Inr k'"
  shows "\<exists>free'. extends (demand (map fst rs) (tables_lacking k as)) k as free k' free'
     \<and> spec_maps rs (translate k as) = Some (translate k' as)"
proof -
  have own: "kowns k free" and tree: "tree_ok (krd k) (kbase k) 3 as free"
    using ok by (auto simp: space_ok_def)
  from kernel_tables.map_leafs_correct[OF own tree run[unfolded map_request_leaf]]
    map_requests_rest[OF run]
  show ?thesis
    by (auto simp: translate_def[abs_def] tables_lacking_def[abs_def] intro!: exI dest: grown_extends)
qed

lemma map_requests_total:
  "space_ok k as free \<Longrightarrow> spec_maps rs (translate k as) = Some sp \<Longrightarrow>
   demand (map fst rs) (tables_lacking k as) \<le> length free \<Longrightarrow>
   \<exists>k'. for_each (map_request as) rs k = Inr k'"
  using kernel_tables.map_leafs_total[of k free as rs sp Halted]
  by (simp add: space_ok_def translate_def[abs_def] tables_lacking_def[abs_def] map_request_leaf)

text \<open>Every stop of the mapping code is a halt.\<close>

lemma map_page_stop: "map_page as p v flags k = Inl e \<Longrightarrow> e = Halted"
  by (auto simp: map_page_def fill_entry_def allocate_eq Let_def bind_eq_Inl split: if_splits)

lemma map_requests_stop: "for_each (map_request as) rs k = Inl e \<Longrightarrow> e = Halted"
  by (induction rs arbitrary: k) (auto simp: bind_eq_Inl map_request_def dest: map_page_stop)

lemma map_requests_halt:
  "space_ok k as free \<Longrightarrow> spec_maps rs (translate k as) = None \<Longrightarrow>
   for_each (map_request as) rs k = Inl Halted"
  using map_requests_refine[of k as free rs] map_requests_stop[of as rs k]
  by (cases "for_each (map_request as) rs k") auto

lemma protect_refines:
  "space_ok k as free \<Longrightarrow> for_each (set_vpage_ro as) vs k = Inr k' \<Longrightarrow>
   extends 0 k as free k' free \<and> spec_ros vs (translate k as) = Some (translate k' as)"
proof (induction vs arbitrary: k)
  case Nil
  then show ?case by (auto intro: extends_refl)
next
  case (Cons v vs)
  obtain k1 where k1: "set_vpage_ro as v k = Inr k1" and vs: "for_each (set_vpage_ro as) vs k1 = Inr k'"
    using Cons.prems(2) by (auto simp: bind_eq_Inr)
  obtain e where 1: "extends 0 k as free k1 free" "translate k as v = Some e"
    "translate k1 as = space_map (translate k as) v (read_only e)"
    using set_vpage_ro_refines[OF Cons.prems(1) k1] by auto
  then have "space_ok k1 as free" by (simp add: extends_def)
  from Cons.IH[OF this vs] show ?case using 1 extends_trans[OF 1(1)] by auto
qed

lemma protect_total:
  "space_ok k as free \<Longrightarrow> spec_ros vs (translate k as) = Some sp \<Longrightarrow>
   \<exists>k'. for_each (set_vpage_ro as) vs k = Inr k'"
proof (induction vs arbitrary: k)
  case Nil
  then show ?case by simp
next
  case (Cons v vs)
  obtain e where e: "translate k as v = Some e"
    and vs: "spec_ros vs (space_map (translate k as) v (read_only e)) = Some sp"
    using Cons.prems(2) by (auto split: option.splits)
  obtain k1 where k1: "set_vpage_ro as v k = Inr k1" using set_vpage_ro_total[OF e] by auto
  from set_vpage_ro_refines[OF Cons.prems(1) k1] e
  have "space_ok k1 as free" "translate k1 as = space_map (translate k as) v (read_only e)"
    by (auto simp: extends_def)
  then show ?case using Cons.IH[of k1] vs k1 by auto
qed

section \<open>The requests of a new address space\<close>

lemma map_range_requests:
  "map_range as paddr vaddr n flags k = for_each (map_request as) (range_requests paddr vaddr n flags) k"
  by (simp add: map_range_def range_requests_def for_each_map map_request_def)


definition runtime_requests :: "bootloader_data \<Rightarrow> nat \<Rightarrow> request list" where
  "runtime_requests b i =
     (let m = MemoryMap b ! i in
      if Attribute m AND EFI_MEMORY_RUNTIME = 0 then []
      else range_requests (PhysicalStart m) (VirtualStart m) (NumberOfPages m)
        (if Type m \<in> {EfiRuntimeServicesCode, EfiRuntimeServicesData, EfiMemoryMappedIO,
            EfiMemoryMappedIOPortSpace} then PTE_RW else 0))"

definition segment_requests :: "bootloader_data \<Rightarrow> nat \<Rightarrow> request list" where
  "segment_requests b i =
     (let ph = phdrs b ! i in
      if p_type ph = PT_LOAD
      then range_requests (PAGE_BASE (p_paddr ph)) (PAGE_BASE (p_vaddr ph))
        (NUM_PAGES (p_vaddr ph) (p_memsz ph)) (if p_flags ph AND PF_W \<noteq> 0 then PTE_RW else 0)
      else [])"

definition space_requests :: "kernel \<Rightarrow> request list" where
  "space_requests k =
     range_requests (bd_addr k - paddr_base (bd k)) (bd_addr k) 1 PTE_RW
   @ range_requests (free_memory (bd k) - paddr_base (bd k)) (free_memory (bd k)) (n_pages (bd k)) PTE_RW
   @ range_requests (apic_paddr (cpu k)) (apic_vaddr (cpu k)) 1 PTE_RW
   @ concat (map (runtime_requests (bd k)) [0..<unat (NumEntries (bd k))])
   @ concat (map (segment_requests (bd k)) [0..<unat (e_phnum (ehdr (bd k)))])"

text \<open>The last \<open>PT_GNU_RELRO\<close> header, and the pages it covers.\<close>

definition relro_of :: "bootloader_data \<Rightarrow> Elf64_Phdr option" where
  "relro_of b = find (\<lambda>ph. p_type ph = PT_GNU_RELRO)
     (rev (map (\<lambda>i. phdrs b ! i) [0..<unat (e_phnum (ehdr b))]))"

definition relro_pages :: "bootloader_data \<Rightarrow> u64 list" where
  "relro_pages b =
     (case relro_of b of None \<Rightarrow> []
      | Some ph \<Rightarrow> map (\<lambda>i. PAGE_BASE (p_vaddr ph) + PAGE_SIZE * of_nat i)
                    [0..<unat (NUM_PAGES (p_vaddr ph) (p_memsz ph))])"

lemma runtime_segment_requests:
  "map_runtime_segment as i k = for_each (map_request as) (runtime_requests (bd k) i) k"
  by (auto simp: map_runtime_segment_def runtime_requests_def Let_def map_range_requests)

lemma runtime_loop_requests:
  "for_each (map_runtime_segment as) is k =
     for_each (map_request as) (concat (map (runtime_requests (bd k)) is)) k"
proof (induction "is" arbitrary: k)
  case Nil
  then show ?case by simp
next
  case (Cons i "is")
  show ?case
  proof (cases "for_each (map_request as) (runtime_requests (bd k) i) k")
    case (Inl e)
    then show ?thesis by (simp add: runtime_segment_requests for_each_append)
  next
    case (Inr k1)
    have "bd k1 = bd k" by (rule same_rest_frame[OF map_requests_rest[OF Inr]])
    then show ?thesis using Inr Cons.IH[of k1] by (simp add: runtime_segment_requests for_each_append)
  qed
qed

lemma kernel_segment_requests:
  "map_kernel_segment as i (r, k) =
     bind (for_each (map_request as) (segment_requests (bd k) i) k)
       (\<lambda>k'. Inr (if p_type (phdrs (bd k) ! i) = PT_GNU_RELRO then Some (phdrs (bd k) ! i) else r, k'))"
  by (auto simp: map_kernel_segment_def segment_requests_def Let_def map_range_requests
      elf_consts)

lemma kernel_loop_requests:
  "for_each (map_kernel_segment as) is (r, k) =
     bind (for_each (map_request as) (concat (map (segment_requests (bd k)) is)) k)
       (\<lambda>k'. Inr (case find (\<lambda>ph. p_type ph = PT_GNU_RELRO) (rev (map (\<lambda>i. phdrs (bd k) ! i) is)) of
            None \<Rightarrow> r | Some ph \<Rightarrow> Some ph, k'))"
proof (induction "is" arbitrary: r k)
  case Nil
  then show ?case by simp
next
  case (Cons i "is")
  show ?case
  proof (cases "for_each (map_request as) (segment_requests (bd k) i) k")
    case (Inl e)
    then show ?thesis by (simp add: kernel_segment_requests for_each_append)
  next
    case (Inr k1)
    have "bd k1 = bd k" by (rule same_rest_frame[OF map_requests_rest[OF Inr]])
    then show ?thesis
      using Inr Cons.IH[of _ k1]
      by (auto simp: kernel_segment_requests for_each_append find_append split: option.splits)
  qed
qed

lemma protect_relro_pages:
  "protect_relro as (relro_of b) k = for_each (set_vpage_ro as) (relro_pages b) k"
  by (auto simp: protect_relro_def relro_pages_def for_each_map split: option.split)

lemma bind_requests_cong:
  "rs = rs' \<Longrightarrow> (\<And>k'. same_rest k k' \<Longrightarrow> f k' = g k') \<Longrightarrow>
   bind (for_each (map_request as) rs k) f = bind (for_each (map_request as) rs' k) g"
  by (simp, rule bind_cong) (simp add: map_requests_rest)

lemma new_address_space_requests:
  "new_address_space k =
     bind (allocate_physical_page APP_ZERO k) (\<lambda>(as, k1).
       if as = 0 then Inl Halted
       else bind (for_each (map_request as) (space_requests k) k1) (\<lambda>k2.
         bind (for_each (set_vpage_ro as) (relro_pages (bd k)) k2) (\<lambda>k3. Inr (as, k3))))"
proof -
  have "(\<lambda>(as, k1).
     bind (map_range as (bd_addr k1 - paddr_base (bd k1)) (bd_addr k1) 1 PTE_RW k1) (\<lambda>k.
     bind (map_range as (free_memory (bd k) - paddr_base (bd k)) (free_memory (bd k))
             (n_pages (bd k)) PTE_RW k) (\<lambda>k.
     bind (map_range as (apic_paddr (cpu k)) (apic_vaddr (cpu k)) 1 PTE_RW k) (\<lambda>k.
     bind (for_each (map_runtime_segment as) [0..<unat (NumEntries (bd k))] k) (\<lambda>k.
     bind (for_each (map_kernel_segment as) [0..<unat (e_phnum (ehdr (bd k)))] (None, k)) (\<lambda>(relro, k).
     bind (protect_relro as relro k) (\<lambda>k. Inr (as, k)))))))) (as, k1) =
     bind (for_each (map_request as) (space_requests k) k1) (\<lambda>k2.
         bind (for_each (set_vpage_ro as) (relro_pages (bd k)) k2) (\<lambda>k3. Inr (as, k3)))"
    if "same_rest k k1" for as k1
    unfolding space_requests_def for_each_append bind_assoc map_range_requests
      runtime_loop_requests kernel_loop_requests prod.case
    using that
    by (intro bind_requests_cong)
      (auto simp: same_rest_def relro_of_def[symmetric] protect_relro_pages)
  then show ?thesis
    unfolding new_address_space_def
    by (intro bind_cong) (auto dest: allocate_rest)
qed


text \<open>The root table is a zeroed page: an address space that maps nothing.\<close>

lemma alloc_root:
  assumes own: "kowns k (q # free)"
  shows "\<exists>k1. allocate_physical_page APP_ZERO k = Inr (q, k1) \<and> space_ok k1 q free
    \<and> translate k1 q = (\<lambda>_. None) \<and> tables_lacking k1 q = (\<lambda>_. 3) \<and> tables k1 q = [q] \<and> same_rest k k1 \<and> q \<noteq> 0
    \<and> agree_on (\<lambda>x. x \<noteq> q) (krd k) (krd k1)"
proof -
  obtain k1 where k1: "allocate_physical_page APP_ZERO k = Inr (q, k1)" "kowns k1 free"
    and rd: "\<And>a. aligned8 a \<Longrightarrow> krd k1 a = (if PAGE_BASE a = q then 0 else krd k a)"
    using kowns_alloc[OF own, of APP_ZERO] by (auto simp: krd_def)
  have q: "is_page q" "q \<noteq> 0" "q \<notin> set free" "distinct free"
    using own by (auto simp: kowns_def good_page_def)
  note fresh = fresh_root[of q "krd k1" free "kbase k1", OF _ q(1,3,4)]
  have "space_ok k1 q free" using fresh k1(2) rd by (simp add: space_ok_def)
  moreover have "agree_on (\<lambda>x. x \<noteq> q) (krd k) (krd k1)" using rd by (simp add: agree_on_def)
  ultimately show ?thesis
    using k1 q rd fresh allocate_rest[OF k1(1)]
    by (intro exI[of _ k1]) (auto simp: translate_def[abs_def] tables_def tables_lacking_def[abs_def])
qed

lemma page_like_translate: "page_like (translate k as)"
  using page_like_walk by (simp add: translate_def[abs_def])

text \<open>Tables below the root that the requests of a new address space need.\<close>

definition space_demand :: "kernel \<Rightarrow> nat" where
  "space_demand k = n_tables (set (map fst (space_requests k)))"

text \<open>What \<open>new_address_space\<close> promises, as a function of the boot data.\<close>

definition spec_new_space :: "kernel \<Rightarrow> space option" where
  "spec_new_space k =
     Option.bind (spec_maps (space_requests k) (\<lambda>_. None)) (spec_ros (relro_pages (bd k)))"

lemma new_address_space_refines:
  assumes own: "kowns k (q # free)" and run: "new_address_space k = Inr (as, k')"
  shows "\<exists>free'. as = q \<and> space_ok k' q free' \<and> space_demand k \<le> length free \<and> free' = drop (space_demand k) free
    \<and> mset (tables k' q @ free') = mset (q # free) \<and> same_rest k k'
    \<and> agree_on (\<lambda>x. x \<notin> set (q # free)) (krd k) (krd k')
    \<and> spec_new_space k = Some (translate k' q)"
proof -
  obtain k1 where 1: "allocate_physical_page APP_ZERO k = Inr (q, k1)" "space_ok k1 q free"
    "translate k1 q = (\<lambda>_. None)" "tables k1 q = [q]" "tables_lacking k1 q = (\<lambda>_. 3)" and rest1: "same_rest k k1" "q \<noteq> 0"
    "agree_on (\<lambda>x. x \<noteq> q) (krd k) (krd k1)"
    using alloc_root[OF own] by auto
  obtain k2 where as: "as = q" and 2: "for_each (map_request q) (space_requests k) k1 = Inr k2"
    and 3: "for_each (set_vpage_ro q) (relro_pages (bd k)) k2 = Inr k'"
    using run 1 rest1 by (auto simp: new_address_space_requests bind_eq_Inr)
  obtain free' where ext2: "extends (space_demand k) k1 q free k2 free'"
    and maps: "spec_maps (space_requests k) (\<lambda>_. None) = Some (translate k2 q)"
    using map_requests_refine[OF 1(2) 2] 1(3,5) by (auto simp: space_demand_def demand_tables)
  have "space_ok k2 q free'" using ext2 by (rule extendsD)
  note ro = protect_refines[OF this 3]
  have ext: "extends (space_demand k) k1 q free k' free'"
    using extends_trans[OF ext2] ro by force
  have "spec_new_space k = Some (translate k' q)" using maps ro by (simp add: spec_new_space_def)
  moreover have "agree_on (\<lambda>x. x \<notin> set (q # free)) (krd k) (krd k')"
    using 1(4) rest1(3) ext by (auto simp: extends_def agree_on_def)
  ultimately show ?thesis
    using ext 1(4) rest1(1) as by (auto simp: extends_def intro: same_rest_trans)
qed

lemma new_address_space_total:
  assumes own: "kowns k (q # free)" and spec: "spec_new_space k = Some sp"
    and mem: "space_demand k \<le> length free"
  shows "\<exists>k'. new_address_space k = Inr (q, k')"
proof -
  obtain k1 where 1: "allocate_physical_page APP_ZERO k = Inr (q, k1)" "space_ok k1 q free"
    "translate k1 q = (\<lambda>_. None)" "q \<noteq> 0" "tables_lacking k1 q = (\<lambda>_. 3)"
    using alloc_root[OF own] by auto
  obtain sp1 where maps: "spec_maps (space_requests k) (\<lambda>_. None) = Some sp1"
    and ros: "spec_ros (relro_pages (bd k)) sp1 = Some sp"
    using spec by (auto simp: spec_new_space_def Option.bind_eq_Some_conv)
  obtain k2 where 2: "for_each (map_request q) (space_requests k) k1 = Inr k2"
    using map_requests_total[OF 1(2)] mem maps 1(3,5) by (auto simp: space_demand_def demand_tables)
  obtain free' where "extends (space_demand k) k1 q free k2 free'"
    and "translate k2 q = sp1"
    using map_requests_refine[OF 1(2) 2] 1(3,5) maps by (auto simp: space_demand_def demand_tables)
  then have "space_ok k2 q free'" by (auto dest: extendsD)
  then obtain k3 where "for_each (set_vpage_ro q) (relro_pages (bd k)) k2 = Inr k3"
    using protect_total ros \<open>translate k2 q = sp1\<close> by blast
  then show ?thesis using 1 2 by (auto simp: new_address_space_requests)
qed

lemma spec_new_space_result:
  assumes "spec_new_space k = Some sp"
  shows "distinct (vpages (space_requests k))"
    and "(v, p, flags) \<in> set (space_requests k) \<Longrightarrow>
      sp v = Some (if VPAGE v \<in> VPAGE ` set (relro_pages (bd k)) then read_only (leaf p flags)
                   else leaf p flags)"
    and "VPAGE w \<notin> set (vpages (space_requests k)) \<Longrightarrow> sp w = None"
proof -
  have none: "page_like (\<lambda>_. None)" by (simp add: page_like_def)
  obtain sp1 where maps: "spec_maps (space_requests k) (\<lambda>_. None) = Some sp1"
    and ros: "spec_ros (relro_pages (bd k)) sp1 = Some sp"
    using assms by (auto simp: spec_new_space_def Option.bind_eq_Some_conv)
  note m = spec_maps_result[OF none maps]
  note r = spec_ros_result[OF spec_maps_page_like[OF none maps] ros]
  show "distinct (vpages (space_requests k))" using m by blast
  show "sp v = Some (if VPAGE v \<in> VPAGE ` set (relro_pages (bd k)) then read_only (leaf p flags)
      else leaf p flags)" if "(v, p, flags) \<in> set (space_requests k)"
    using m r[of v] that by auto
  show "sp w = None" if "VPAGE w \<notin> set (vpages (space_requests k))"
    using m r[of w] that by auto
qed


lemma spec_new_space_some:
  "(\<exists>sp. spec_new_space k = Some sp) \<longleftrightarrow> distinct (vpages (space_requests k))
     \<and> (\<forall>v \<in> set (relro_pages (bd k)). VPAGE v \<in> set (vpages (space_requests k)))"
proof -
  let ?rs = "space_requests k" and ?none = "\<lambda>_ :: u64. None :: u64 option"
  have none: "page_like ?none" by (simp add: page_like_def)
  have maps: "(\<exists>sp1. spec_maps ?rs ?none = Some sp1) \<longleftrightarrow> distinct (vpages ?rs)"
    using spec_maps_some[OF none, of ?rs] spec_maps_result[OF none, of ?rs] by auto
  have dom: "sp1 v \<noteq> None \<longleftrightarrow> VPAGE v \<in> set (vpages ?rs)" if sp1: "spec_maps ?rs ?none = Some sp1" for sp1 v
  proof
    show "VPAGE v \<in> set (vpages ?rs)" if "sp1 v \<noteq> None"
      using that spec_maps_result[OF none sp1] by auto
    assume "VPAGE v \<in> set (vpages ?rs)"
    then obtain w p flags where r: "(w, p, flags) \<in> set ?rs" "VPAGE v = VPAGE w"
      by (auto simp: vpages_def)
    then have "sp1 w = Some (leaf p flags)" using spec_maps_result[OF none sp1] by auto
    moreover have "sp1 v = sp1 w"
      using spec_maps_page_like[OF none sp1] r(2) unfolding page_like_def by blast
    ultimately show "sp1 v \<noteq> None" by simp
  qed
  show ?thesis
  proof (cases "spec_maps ?rs ?none")
    case None
    then show ?thesis using maps by (auto simp: spec_new_space_def)
  next
    case (Some sp1)
    then show ?thesis
      using maps dom[OF Some] spec_ros_some[OF spec_maps_page_like[OF none Some]]
      by (auto simp: spec_new_space_def)
  qed
qed

section \<open>Properties of one address space\<close>

text \<open>The sample machine with an empty address space, rooted in the page freed last.\<close>

definition sample_root :: u64 where "sample_root = 0xffffffffb811f000"

definition sample_space :: kernel where
  "sample_space = (case allocate_physical_page APP_ZERO sample_kernel of
     Inl _ \<Rightarrow> sample_kernel | Inr (_, k) \<Rightarrow> k)"

lemma sample_free: "rev sample_pages = sample_root # tl (rev sample_pages)"
  by (simp add: sample_pages_list sample_root_def)

lemma sample_kernel_owns: "kowns sample_kernel (sample_root # tl (rev sample_pages))"
  using sample_owns sample_free by metis

lemma sample_space_ok:
  "space_ok sample_space sample_root (tl (rev sample_pages))"
  "translate sample_space sample_root = (\<lambda>_. None)"
  "tables_lacking sample_space sample_root = (\<lambda>_. 3)"
  using alloc_root[OF sample_kernel_owns] by (auto simp: sample_space_def)

lemma sample_map:
  "\<exists>k'. map_page sample_root 0xfee00000 0xffffffffb6fff000 PTE_RW sample_space = Inr k'"
  by (rule map_page_total[OF sample_space_ok(1)])
    (simp_all add: sample_space_ok length_sample_pages)

text \<open>C21: When \<open>map_page\<close> returns, the page was not mapped before, and now every address of
  the page translates to the requested frame and flags; no other address translates
  differently.\<close>

theorem map_page_maps:
  assumes "space_ok k as free" and "map_page as ppage vpage flags k = Inr k'"
  shows "translate k as vpage = None
    \<and> (\<forall>w. translate k' as w =
          (if w AND PTE_ADDR_MASK = vpage AND PTE_ADDR_MASK then Some (ppage OR PTE_P OR flags)
           else translate k as w))"
  using map_page_refines[OF assms] by (auto simp: space_map_def VPAGE_def leaf_def)

theorem map_page_maps_witness:
  "\<exists>k'. map_page sample_root 0xfee00000 0xffffffffb6fff000 PTE_RW sample_space = Inr k'
    \<and> translate k' sample_root 0xffffffffb6fff008 = Some (0xfee00000 OR PTE_P OR PTE_RW)"
proof -
  obtain k' where k': "map_page sample_root 0xfee00000 0xffffffffb6fff000 PTE_RW sample_space = Inr k'"
    using sample_map by blast
  have "(0xffffffffb6fff008 :: u64) AND PTE_ADDR_MASK = 0xffffffffb6fff000 AND PTE_ADDR_MASK"
    by (simp add: PTE_ADDR_MASK_def)
  with map_page_maps[OF sample_space_ok(1) k'] k' show ?thesis by auto
qed

text \<open>\<open>map_page\<close> returns exactly when the page is not mapped and the allocator has a page
  for every table that is missing on the way; in every other case it halts.\<close>

theorem map_page_returns_iff:
  assumes "space_ok k as free"
  shows "(if translate k as vpage = None \<and> tables_lacking k as vpage \<le> length free
     then \<exists>k'. map_page as ppage vpage flags k = Inr k'
     else map_page as ppage vpage flags k = Inl Halted)"
proof (cases "map_page as ppage vpage flags k")
  case (Inl e)
  then show ?thesis using map_page_total[OF assms, of vpage ppage flags] map_page_stop[OF Inl] by auto
next
  case (Inr k')
  then show ?thesis using map_page_refines[OF assms Inr] by (auto dest: extendsD)
qed

theorem map_page_returns_iff_witness:
  "\<exists>k'. map_page sample_root 0x1000 0x2000 0 sample_space = Inr k'"
  using map_page_returns_iff[OF sample_space_ok(1), of "0x2000" "0x1000" 0]
  by (simp add: sample_space_ok length_sample_pages)

text \<open>C16: No page is lost, duplicated or shared by \<open>map_page\<close>: the tables of the address space
  and the free pages stay pairwise different and are together the same pages as before, the
  free list is still a list of those pages, and no quadword outside them is written.\<close>

theorem map_page_conserves_pages:
  assumes "space_ok k as free" and "map_page as ppage vpage flags k = Inr k'"
  shows "\<exists>free'. space_ok k' as free'
    \<and> mset (tables k' as @ free') = mset (tables k as @ free)
    \<and> (\<forall>a. aligned8 a \<longrightarrow> PAGE_BASE a \<notin> set (tables k as @ free) \<longrightarrow>
          load64 (kmem k') a = load64 (kmem k) a)"
proof -
  obtain free' where ext: "extends (tables_lacking k as vpage) k as free k' free'"
    using map_page_refines[OF assms] by blast
  have "\<forall>a. aligned8 a \<longrightarrow> PAGE_BASE a \<notin> set (tables k as @ free) \<longrightarrow>
      load64 (kmem k') a = load64 (kmem k) a"
    using extendsD(6)[OF ext] by (simp add: agree_on_def krd_def)
  then show ?thesis using extendsD(1,2)[OF ext] by blast
qed

theorem map_page_conserves_pages_witness:
  "\<exists>k' free'. map_page sample_root 0xfee00000 0xffffffffb6fff000 PTE_RW sample_space = Inr k'
    \<and> space_ok k' sample_root free'"
proof -
  obtain k' where k': "map_page sample_root 0xfee00000 0xffffffffb6fff000 PTE_RW sample_space = Inr k'"
    using sample_map by blast
  from map_page_conserves_pages[OF sample_space_ok(1) k'] k' show ?thesis by blast
qed

text \<open>When \<open>map_range\<close> returns, the \<open>n\<close> pages from \<open>vaddr\<close> were unmapped and pairwise
  different, page \<open>i\<close> now translates to frame \<open>i\<close> of the range, and no other address translates
  differently.\<close>

theorem map_range_maps:
  assumes "space_ok k as free" and "map_range as paddr vaddr n flags k = Inr k'"
  shows "(\<forall>i < unat n. translate k as (vaddr + PAGE_SIZE * of_nat i) = None
      \<and> translate k' as (vaddr + PAGE_SIZE * of_nat i) =
          Some ((paddr + PAGE_SIZE * of_nat i) OR PTE_P OR flags))
    \<and> distinct (map (\<lambda>i. VPAGE (vaddr + PAGE_SIZE * of_nat i)) [0..<unat n])
    \<and> (\<forall>w. (\<forall>i < unat n. VPAGE w \<noteq> VPAGE (vaddr + PAGE_SIZE * of_nat i)) \<longrightarrow>
          translate k' as w = translate k as w)"
proof -
  let ?rs = "range_requests paddr vaddr n flags"
  have "spec_maps ?rs (translate k as) = Some (translate k' as)"
    using map_requests_refine[OF assms(1)] assms(2) by (auto simp: map_range_requests)
  note res = spec_maps_result[OF page_like_translate this]
  have vp: "vpages ?rs = map (\<lambda>i. VPAGE (vaddr + PAGE_SIZE * of_nat i)) [0..<unat n]"
    by (simp add: vpages_def range_requests_def comp_def)
  have "\<forall>w. (\<forall>i < unat n. VPAGE w \<noteq> VPAGE (vaddr + PAGE_SIZE * of_nat i)) \<longrightarrow>
      translate k' as w = translate k as w"
    using res[unfolded vp] by fastforce
  then show ?thesis using res[unfolded vp] by (auto simp: range_requests_def leaf_def)
qed

text \<open>Two pages of the sample machine.\<close>

theorem map_range_maps_witness:
  "\<exists>k'. map_range sample_root 0x200000 0x400000 2 0 sample_space = Inr k'
    \<and> translate k' sample_root 0x401000 = Some (0x201000 OR PTE_P)"
proof -
  have "VPAGE 0x401000 \<noteq> VPAGE 0x400000" by (simp add: VPAGE_def PTE_ADDR_MASK_def)
  moreover have rs: "range_requests 0x200000 0x400000 2 0 = [(0x400000, 0x200000, 0), (0x401000, 0x201000, 0)]"
    by (simp add: range_requests_def PAGE_SIZE_def upt_rec)
  ultimately obtain sp where spec: "spec_maps (range_requests 0x200000 0x400000 2 0)
      (translate sample_space sample_root) = Some sp"
    by (simp add: sample_space_ok space_map_def)
  have "demand (map fst (range_requests 0x200000 0x400000 2 0)) (tables_lacking sample_space sample_root) \<le> 31"
    by (simp add: rs sample_space_ok)
  then obtain k' where k': "map_range sample_root 0x200000 0x400000 2 0 sample_space = Inr k'"
    using map_requests_total[OF sample_space_ok(1) spec]
    by (auto simp: map_range_requests length_sample_pages)
  have "1 < unat (2 :: u64)" by simp
  with map_range_maps[OF sample_space_ok(1) k'] have
    "translate k' sample_root (0x400000 + PAGE_SIZE * of_nat 1) =
      Some ((0x200000 + PAGE_SIZE * of_nat 1) OR PTE_P OR 0)" by blast
  then have "translate k' sample_root 0x401000 = Some (0x201000 OR PTE_P)" by (simp add: PAGE_SIZE_def)
  with k' show ?thesis by blast
qed

text \<open>\<open>set_vpage_ro\<close> halts when the page is not mapped; otherwise it clears the write bit of
  exactly that page's entry, allocates nothing and leaves every other translation alone.\<close>

theorem set_vpage_ro_clears:
  assumes "space_ok k as free"
  shows "case translate k as vpage of
      None \<Rightarrow> set_vpage_ro as vpage k = Inl Halted
    | Some e \<Rightarrow> \<exists>k'. set_vpage_ro as vpage k = Inr k' \<and> space_ok k' as free
        \<and> (\<forall>w. translate k' as w =
            (if VPAGE w = VPAGE vpage then Some (e AND NOT PTE_RW) else translate k as w))"
proof (cases "translate k as vpage")
  case None
  then show ?thesis by (simp add: set_vpage_ro_halts)
next
  case (Some e)
  obtain k' where k': "set_vpage_ro as vpage k = Inr k'" using set_vpage_ro_total[OF Some] by auto
  from set_vpage_ro_refines[OF assms k'] Some k' show ?thesis
    by (auto simp: space_map_def read_only_def dest: extendsD)
qed

theorem set_vpage_ro_clears_witness:
  "\<exists>k1 k2. map_page sample_root 0xfee00000 0xffffffffb6fff000 PTE_RW sample_space = Inr k1
    \<and> set_vpage_ro sample_root 0xffffffffb6fff000 k1 = Inr k2
    \<and> translate k2 sample_root 0xffffffffb6fff000 = Some ((0xfee00000 OR PTE_P OR PTE_RW) AND NOT PTE_RW)"
proof -
  obtain k1 where k1: "map_page sample_root 0xfee00000 0xffffffffb6fff000 PTE_RW sample_space = Inr k1"
    using sample_map by blast
  then obtain free1 where "space_ok k1 sample_root free1"
    and "translate k1 sample_root 0xffffffffb6fff000 = Some (0xfee00000 OR PTE_P OR PTE_RW)"
    using map_page_refines[OF sample_space_ok(1) k1] by (auto simp: space_map_def leaf_def dest: extendsD(1))
  with set_vpage_ro_clears[of k1 sample_root free1 "0xffffffffb6fff000"] k1 show ?thesis by auto
qed


section \<open>Properties of a new address space\<close>

lemma sample_env: "bd sample_kernel = sample_data" "bd_addr sample_kernel = sample_bd_addr"
  "cpu sample_kernel = cpu blank_kernel"
  by (simp_all add: sample_kernel_def free_pages_frame blank_kernel_def)

lemma sample_requests: "space_requests sample_kernel =
    (sample_bd_addr, 0xfe000, PTE_RW)
    # map (\<lambda>p. (p, p - 0xffffffffb8000000, PTE_RW)) sample_pages
    @ [(0xffffffffb6fff000, 0xfee00000, PTE_RW),
       (0xffffffffbf000000, 0x7000000, PTE_RW), (0xffffffffbf001000, 0x7001000, PTE_RW),
       (0xffffffffc0000000, 0x200000, 0), (0xffffffffc0001000, 0x201000, 0),
       (0xffffffffc0002000, 0x202000, 0),
       (0xffffffffc0003000, 0x204000, PTE_RW), (0xffffffffc0004000, 0x205000, PTE_RW)]"
proof -
  have "runtime_requests sample_data 0 = []"
    by (simp add: runtime_requests_def sample_data_def EFI_MEMORY_RUNTIME_def)
  moreover have "runtime_requests sample_data 1 =
      [(0xffffffffbf000000, 0x7000000, PTE_RW), (0xffffffffbf001000, 0x7001000, PTE_RW)]"
    by (simp add: runtime_requests_def sample_data_def EFI_MEMORY_RUNTIME_def range_requests_def
        PAGE_SIZE_def upt_rec)
  moreover have "segment_requests sample_data 0 =
      [(0xffffffffc0000000, 0x200000, 0), (0xffffffffc0001000, 0x201000, 0),
       (0xffffffffc0002000, 0x202000, 0)]"
    by (simp add: segment_requests_def sample_data_def sample_phdrs_def range_requests_def elf_consts
        NUM_PAGES_def NEXT_PAGE_def PAGE_BASE_def PAGE_SIZE_def upt_rec)
  moreover have "segment_requests sample_data 1 =
      [(0xffffffffc0003000, 0x204000, PTE_RW), (0xffffffffc0004000, 0x205000, PTE_RW)]"
    by (simp add: segment_requests_def sample_data_def sample_phdrs_def range_requests_def elf_consts
        NUM_PAGES_def NEXT_PAGE_def PAGE_BASE_def PAGE_SIZE_def upt_rec)
  moreover have "segment_requests sample_data 2 = []"
    by (simp add: segment_requests_def sample_data_def sample_phdrs_def elf_consts)
  moreover have "[0..<unat (NumEntries sample_data)] = [0, 1]"
    "[0..<unat (e_phnum (ehdr sample_data))] = [0, 1, 2]"
    by (simp_all add: sample_data_def upt_rec)
  moreover have "range_requests (free_memory sample_data - paddr_base sample_data)
      (free_memory sample_data) (n_pages sample_data) PTE_RW =
      map (\<lambda>p. (p, p - 0xffffffffb8000000, PTE_RW)) sample_pages"
    by (simp add: range_requests_def sample_data_def sample_pages_def PAGE_SIZE_def)
  moreover have "range_requests (sample_bd_addr - paddr_base sample_data) sample_bd_addr 1 PTE_RW =
      [(sample_bd_addr, 0xfe000, PTE_RW)]"
    by (simp add: range_requests_def sample_data_def sample_bd_addr_def)
  moreover have "range_requests (apic_paddr (cpu blank_kernel)) (apic_vaddr (cpu blank_kernel)) 1 PTE_RW =
      [(0xffffffffb6fff000, 0xfee00000, PTE_RW)]"
    by (simp add: range_requests_def blank_kernel_def)
  ultimately show ?thesis
    by (simp add: space_requests_def sample_env)
qed

lemma sample_vpages: "distinct (vpages (space_requests sample_kernel))"
  by (simp add: sample_requests sample_pages_list sample_bd_addr_def VPAGE_def PTE_ADDR_MASK_def)

lemma sample_relro: "relro_pages sample_data = [0xffffffffc0003000]"
  by (simp add: relro_pages_def relro_of_def sample_data_def sample_phdrs_def elf_consts upt_rec
      NUM_PAGES_def NEXT_PAGE_def PAGE_BASE_def PAGE_SIZE_def)

lemma sample_demand: "space_demand sample_kernel = 7"
  unfolding space_demand_def n_tables_list sample_requests sample_pages_list
  by (simp add: sample_bd_addr_def table_of_def VPAGE_def PTE_ADDR_MASK_def)

lemma sample_new_space: "\<exists>k'. new_address_space sample_kernel = Inr (sample_root, k')"
proof -
  have "VPAGE 0xffffffffc0003000 \<in> set (vpages (space_requests sample_kernel))"
    using vpages_mem[of "0xffffffffc0003000" "(0x204000, PTE_RW)" "space_requests sample_kernel"]
    by (simp add: sample_requests)
  then obtain sp where "spec_new_space sample_kernel = Some sp"
    using spec_new_space_some[of sample_kernel] sample_vpages by (auto simp: sample_env sample_relro)
  from new_address_space_total[OF sample_kernel_owns this] show ?thesis
    by (simp add: sample_demand length_sample_pages)
qed



lemma set_vpage_ro_stop: "for_each (set_vpage_ro as) vs k = Inl e \<Longrightarrow> e = Halted"
  by (induction vs arbitrary: k)
    (auto simp: bind_eq_Inl set_vpage_ro_def Let_def split: if_splits)

lemma new_address_space_stop:
  assumes own: "kowns k (q # free)" and run: "new_address_space k = Inl e"
  shows "e = Halted"
proof -
  obtain k1 where "allocate_physical_page APP_ZERO k = Inr (q, k1)" "q \<noteq> 0"
    using alloc_root[OF own] by auto
  then show ?thesis
    using run by (auto simp: new_address_space_requests bind_eq_Inl
        dest: map_requests_stop set_vpage_ro_stop)
qed

text \<open>C6: \<open>new_address_space\<close> returns exactly when no page is requested twice, every
  \<open>PT_GNU_RELRO\<close> page is among the requested ones, and there is a free page for the root and
  for each table the requests need, counted as the different level-3, level-2 and level-1
  prefixes of their addresses. In every other case it halts.\<close>

theorem new_address_space_returns_iff:
  assumes "kowns k (q # free)"
  shows "(if distinct (vpages (space_requests k))
       \<and> (\<forall>v \<in> set (relro_pages (bd k)). VPAGE v \<in> set (vpages (space_requests k)))
       \<and> n_tables (set (map fst (space_requests k))) \<le> length free
     then \<exists>k'. new_address_space k = Inr (q, k')
     else new_address_space k = Inl Halted)"
proof (cases "new_address_space k")
  case (Inl e)
  have "e = Halted" by (rule new_address_space_stop[OF assms Inl])
  then show ?thesis
    using new_address_space_total[OF assms] spec_new_space_some[of k] Inl
    unfolding space_demand_def by (metis Inl_Inr_False)
next
  case (Inr r)
  obtain as k' where r: "r = (as, k')" by (cases r)
  note ref = new_address_space_refines[OF assms Inr[unfolded r]]
  then show ?thesis
    using spec_new_space_some[of k] Inr unfolding r space_demand_def by auto
qed

theorem new_address_space_returns_iff_witness:
  "\<exists>k'. new_address_space sample_kernel = Inr (sample_root, k')"
proof -
  have "VPAGE 0xffffffffc0003000 \<in> set (vpages (space_requests sample_kernel))"
    using vpages_mem[of "0xffffffffc0003000" "(0x204000, PTE_RW)" "space_requests sample_kernel"]
    by (simp add: sample_requests)
  then show ?thesis
    using new_address_space_returns_iff[OF sample_kernel_owns] sample_vpages sample_demand
    by (simp add: sample_env sample_relro space_demand_def length_sample_pages)
qed

lemma leaf_bits:
  assumes "is_frame p" and "flags = PTE_RW \<or> flags = 0"
  shows "leaf p flags AND PTE_ADDR_MASK = p" "read_only (leaf p flags) AND PTE_ADDR_MASK = p"
    "leaf p flags AND PTE_RW \<noteq> 0 \<longleftrightarrow> flags = PTE_RW" "read_only (leaf p flags) AND PTE_RW = 0"
proof -
  have p: "bit p n \<Longrightarrow> 12 \<le> n \<and> n < 48" for n using assms(1) by (simp add: is_frame_bits)
  have b: "bit (leaf p flags) n \<longleftrightarrow> bit p n \<or> n = 0 \<or> n = 1 \<and> flags = PTE_RW" for n
    using assms(2) p[of n] by (auto simp: leaf_def bit_or_iff bit_PTE_P bit_PTE_RW)
  show "leaf p flags AND PTE_ADDR_MASK = p" "read_only (leaf p flags) AND PTE_ADDR_MASK = p"
    "read_only (leaf p flags) AND PTE_RW = 0"
    unfolding word_eq_bits read_only_def bit_and_iff bit_not_iff b bit_addr_mask bit_PTE_RW
    using p by (auto dest: bit_imp_le_length) (metis numeral_le_one_iff semiring_norm(69) One_nat_def)+
  have "w AND PTE_RW \<noteq> 0 \<longleftrightarrow> bit w 1" for w
    unfolding word_eq_bits bit_and_iff bit_PTE_RW by auto
  then show "leaf p flags AND PTE_RW \<noteq> 0 \<longleftrightarrow> flags = PTE_RW"
    using p[of 1] by (auto simp: b)
qed

lemma segment_request_mem:
  assumes "i < unat (e_phnum (ehdr (bd k)))" and "p_type (phdrs (bd k) ! i) = PT_LOAD"
    and "ph = phdrs (bd k) ! i" and "j < unat (NUM_PAGES (p_vaddr ph) (p_memsz ph))"
  shows "(PAGE_BASE (p_vaddr ph) + PAGE_SIZE * of_nat j, PAGE_BASE (p_paddr ph) + PAGE_SIZE * of_nat j,
      if p_flags ph AND PF_W \<noteq> 0 then PTE_RW else 0) \<in> set (space_requests k)"
proof -
  have "(PAGE_BASE (p_vaddr ph) + PAGE_SIZE * of_nat j, PAGE_BASE (p_paddr ph) + PAGE_SIZE * of_nat j,
      if p_flags ph AND PF_W \<noteq> 0 then PTE_RW else 0) \<in> set (segment_requests (bd k) i)"
    using assms by (auto simp: segment_requests_def range_requests_def Let_def)
  then show ?thesis using assms(1) unfolding space_requests_def set_append by fastforce
qed

text \<open>C20: After \<open>new_address_space\<close> the kernel image is write-protected as its headers ask:
  page \<open>j\<close> of a loadable segment translates to page \<open>j\<close> of the segment in memory, and it is
  writable exactly when the segment has \<open>PF_W\<close> and no \<open>PT_GNU_RELRO\<close> page covers it.\<close>

theorem kernel_segments_protected:
  assumes "kowns k (q # free)" and "new_address_space k = Inr (as, k')"
    and "i < unat (e_phnum (ehdr (bd k)))" and "ph = phdrs (bd k) ! i" and "p_type ph = PT_LOAD"
    and "j < unat (NUM_PAGES (p_vaddr ph) (p_memsz ph))"
    and "v = PAGE_BASE (p_vaddr ph) + PAGE_SIZE * of_nat j"
    and "is_frame (PAGE_BASE (p_paddr ph) + PAGE_SIZE * of_nat j)"
  shows "\<exists>e. translate k' as v = Some e
    \<and> e AND PTE_ADDR_MASK = PAGE_BASE (p_paddr ph) + PAGE_SIZE * of_nat j
    \<and> (e AND PTE_RW \<noteq> 0 \<longleftrightarrow> p_flags ph AND PF_W \<noteq> 0 \<and> VPAGE v \<notin> VPAGE ` set (relro_pages (bd k)))"
proof -
  let ?p = "PAGE_BASE (p_paddr ph) + PAGE_SIZE * of_nat j"
  let ?flags = "if p_flags ph AND PF_W \<noteq> 0 then PTE_RW else 0"
  have mem: "(v, ?p, ?flags) \<in> set (space_requests k)"
    using segment_request_mem[OF assms(3) _ assms(4) assms(6)] assms(4,5,7) by simp
  from new_address_space_refines[OF assms(1,2)]
  have spec: "spec_new_space k = Some (translate k' q)" and as: "as = q" by blast+
  note tr = spec_new_space_result(2)[OF spec mem]
  have "?flags = PTE_RW \<or> ?flags = 0" by simp
  note bits = leaf_bits[OF assms(8) this]
  have "PTE_RW \<noteq> 0" by (simp add: PTE_RW_def)
  then show ?thesis
    unfolding as tr using bits by (cases "VPAGE v \<in> VPAGE ` set (relro_pages (bd k))") auto
qed

text \<open>The second data page of the sample kernel stays writable.\<close>

theorem kernel_segments_protected_witness:
  "\<exists>k' e. new_address_space sample_kernel = Inr (sample_root, k')
    \<and> translate k' sample_root 0xffffffffc0004000 = Some e \<and> e AND PTE_RW \<noteq> 0"
proof -
  obtain k' where k': "new_address_space sample_kernel = Inr (sample_root, k')"
    using sample_new_space by blast
  have "VPAGE 0xffffffffc0004000 \<noteq> VPAGE 0xffffffffc0003000"
    by (simp add: VPAGE_def PTE_ADDR_MASK_def)
  then have "\<exists>e. translate k' sample_root 0xffffffffc0004000 = Some e
      \<and> e AND PTE_ADDR_MASK = PAGE_BASE 0x204000 + PAGE_SIZE * of_nat 1
      \<and> (e AND PTE_RW \<noteq> 0 \<longleftrightarrow> (6 :: u32) AND PF_W \<noteq> 0 \<and>
          VPAGE 0xffffffffc0004000 \<notin> VPAGE ` set (relro_pages (bd sample_kernel)))"
    using kernel_segments_protected[OF sample_kernel_owns k', of 1 "sample_phdrs ! 1" 1
        "0xffffffffc0004000"]
    by (simp add: sample_env sample_data_def sample_phdrs_def elf_consts NUM_PAGES_def NEXT_PAGE_def
        PAGE_BASE_def PAGE_SIZE_def is_frame_def PTE_ADDR_MASK_def)
  with k' \<open>VPAGE 0xffffffffc0004000 \<noteq> VPAGE 0xffffffffc0003000\<close> show ?thesis
    by (auto simp: sample_env sample_relro elf_consts)
qed

end
