(* ===== verification/Entry.thy ===== *)
theory Entry
  imports AddressSpace
begin

text \<open>
  The kernel from its entry point to its own address space: \<open>init_cpu\<close> of \<open>src/x86.c\<close>,
  \<open>kernel_main\<close> and \<open>main2\<close> of \<open>src/entry.c\<close>, up to the switch of \<open>cr3\<close>, with the assembly they
  rely on in \<open>src/stubs.S\<close>; \<open>KernelRun\<close> has the rest. What the hardware, the linker script and the generated vector table supply
  is a parameter, \<open>boot_env\<close>.
\<close>

section \<open>Operations\<close>

record boot_env =
  rdmsr :: "u32 \<Rightarrow> u32 \<times> u32"                 \<comment> \<open>\<open>eax\<close> and \<open>edx\<close> of the instruction\<close>
  cpuid_insn :: "u32 \<Rightarrow> u32 \<Rightarrow> cpuid_regs"      \<comment> \<open>by \<open>eax\<close> and \<open>ecx\<close>\<close>
  vector_table :: "u64 list"                  \<comment> \<open>generated: addresses of the vector functions\<close>
  gdt_addr :: u64
  idt_addr :: u64
  bss_start :: u64
  bss_end :: u64

definition init_apic :: "boot_env \<Rightarrow> kernel \<Rightarrow> kernel" where
  "init_apic env k =
     (let apic_base = read_msr (rdmsr env) IA32_APIC_BASE;
          base_addr = apic_base AND APIC_BASE_MASK;
          version = cpuid (cpuid_insn env) CPUID_VERSION
      in k\<lparr>cpu := \<lparr>apic_paddr = base_addr, apic_vaddr = mmio_base (bd k) - PAGE_SIZE,
             apic_id = ucast (drop_bit 24 (reg_b version))\<rparr>\<rparr>)"

definition init_segment_selectors :: "u16 \<Rightarrow> u16 \<Rightarrow> kernel \<Rightarrow> kernel" where
  "init_segment_selectors kdata kcode k =
     k\<lparr>data_selectors := 0, stack_selector := push_bit 3 kdata, code_selector := push_bit 3 kcode\<rparr>"

definition init_cpu :: "boot_env \<Rightarrow> kernel \<Rightarrow> kernel" where
  "init_cpu env k =
     (let k = k\<lparr>gdtr := set_gdt (gdt_addr env) gdt_length\<rparr>;
          k = init_segment_selectors (gdti GDTI_KERNEL_DATA) (gdti GDTI_KERNEL_CODE) k;
          k = k\<lparr>idt := init_idt (vector_table env) (idt k)\<rparr>;
          k = k\<lparr>idtr := set_idt (idt_addr env)\<rparr>
      in init_apic env k)"

text \<open>
  The variables in \<open>.bss\<close> are \<open>free_list\<close>, \<open>cpu\<close> and \<open>idt\<close>; \<open>memset\<close> clears them with the
  rest of the section.
\<close>

definition clear_bss :: "boot_env \<Rightarrow> kernel \<Rightarrow> kernel" where
  "clear_bss env k =
     k\<lparr>kmem := fst (memset (kmem k) (bss_start env) 0 (bss_end env - bss_start env)),
       free_list := 0, cpu := \<lparr>apic_paddr = 0, apic_vaddr = 0, apic_id = 0\<rparr>,
       idt := replicate N_INTERRUPTS (0, 0)\<rparr>"

text \<open>\<open>setup_new_stack(func, new_stack)\<close> jumps to \<open>func\<close> with the stack pointer returned here.\<close>

definition setup_new_stack :: "u64 \<Rightarrow> kernel \<Rightarrow> u64 \<times> kernel" where
  "setup_new_stack new_stack k =
     (let sp = new_stack + PAGE_SIZE - 8 in (sp, k\<lparr>kmem := store64 (kmem k) sp 0\<rparr>))"

definition kernel_main :: "boot_env \<Rightarrow> u64 \<Rightarrow> bootloader_data \<Rightarrow> kernel \<Rightarrow> (u64 \<times> kernel) result" where
  "kernel_main env bootloader_data_in data k =
     (let k = clear_bss env k;
          k = k\<lparr>bd_addr := bootloader_data_in, bd := data\<rparr>;
          k = init_cpu env k;
          k = fold (\<lambda>i k. free_physical_page (free_memory (bd k) + PAGE_SIZE * of_nat i) k)
                [0..<unat (n_pages (bd k))] k
      in bind (allocate_physical_page APP_NORMAL k) (\<lambda>(new_stack, k).
           if new_stack = 0 then Inl Halted else Inr (setup_new_stack new_stack k)))"

text \<open>\<open>main2\<close> up to the switch to the kernel's own address space.\<close>

definition main2 :: "kernel \<Rightarrow> kernel result" where
  "main2 k =
     bind (new_address_space k) (\<lambda>(kernel_address_space, k).
       Inr (k\<lparr>cr3 := kernel_address_space - paddr_base (bd k)\<rparr>))"

section \<open>The machine tables\<close>

lemma init_cpu_state:
  "kmem (init_cpu env k) = kmem k" "free_list (init_cpu env k) = free_list k"
  "bd (init_cpu env k) = bd k" "bd_addr (init_cpu env k) = bd_addr k"
  by (simp_all add: init_cpu_def Let_def init_segment_selectors_def init_apic_def)

lemma init_cpu_idt:
  "length (idt k) = N_INTERRUPTS \<Longrightarrow> idt (init_cpu env k) =
     map (\<lambda>i. idt_entry_of (vector_table env ! i)) [0..<N_INTERRUPTS]"
  by (simp add: init_cpu_def Let_def init_segment_selectors_def init_apic_def init_idt_eq)

section \<open>The first free pages\<close>

text \<open>The pages the loader leaves for the kernel, by the address they are visible at.\<close>

definition boot_pages :: "bootloader_data \<Rightarrow> u64 list" where
  "boot_pages b = map (\<lambda>i. free_memory b + PAGE_SIZE * of_nat i) [0..<unat (n_pages b)]"

lemma free_boot_pages:
  "fold (\<lambda>i k. free_physical_page (free_memory (bd k) + PAGE_SIZE * of_nat i) k) is k =
   fold free_physical_page (map (\<lambda>i. free_memory (bd k) + PAGE_SIZE * of_nat i) is) k"
proof (induction "is" arbitrary: k)
  case Nil
  then show ?case by simp
next
  case (Cons i "is")
  have "bd (free_physical_page p k) = bd k" for p by (simp add: free_physical_page_def)
  then show ?case by (simp add: Cons.IH)
qed

lemma free_pages_rest: "same_rest k (fold free_physical_page ps k)"
proof (induction ps arbitrary: k)
  case Nil
  then show ?case by simp
next
  case (Cons p ps)
  have "same_rest k (free_physical_page p k)" by (simp add: free_physical_page_def)
  with Cons show ?case by (auto intro: same_rest_trans)
qed

definition boot_data_ok :: "bootloader_data \<Rightarrow> bool" where
  "boot_data_ok b \<longleftrightarrow> distinct (boot_pages b) \<and> 0 < unat (n_pages b)
     \<and> (\<forall>p \<in> set (boot_pages b). p \<noteq> 0 \<and> is_page p \<and> is_frame (p - paddr_base b))"

lemma kernel_main_result:
  assumes "boot_data_ok b"
  shows "\<exists>k'. kernel_main env addr b k = Inr (last (boot_pages b) + PAGE_SIZE - 8, k')
    \<and> kowns k' (rev (butlast (boot_pages b))) \<and> bd k' = b \<and> bd_addr k' = addr
    \<and> cpu k' = cpu (init_apic env (k\<lparr>bd := b\<rparr>))
    \<and> idt k' = map (\<lambda>i. idt_entry_of (vector_table env ! i)) [0..<N_INTERRUPTS]
    \<and> gdtr k' = set_gdt (gdt_addr env) gdt_length \<and> idtr k' = set_idt (idt_addr env)
    \<and> stack_selector k' = 16 \<and> code_selector k' = 8"
proof -
  let ?k1 = "init_cpu env ((clear_bss env k)\<lparr>bd_addr := addr, bd := b\<rparr>)"
  let ?ps = "boot_pages b"
  have ne: "?ps \<noteq> []" using assms by (auto simp: boot_data_ok_def boot_pages_def)
  have "kowns ?k1 []" by (simp add: kowns_empty init_cpu_state clear_bss_def)
  then have "kowns (fold free_physical_page ?ps ?k1) (rev ?ps @ [])"
    using assms by (intro kernel_pages.push_all) (auto simp: boot_data_ok_def good_page_def init_cpu_state)
  moreover have "rev ?ps = last ?ps # rev (butlast ?ps)"
    using ne by (metis append_butlast_last_id rev.simps(2) rev_rev_ident)
  ultimately have own: "kowns (fold free_physical_page ?ps ?k1) (last ?ps # rev (butlast ?ps))"
    by simp
  then obtain k3 where alloc: "allocate_physical_page APP_NORMAL (fold free_physical_page ?ps ?k1) = Inr (last ?ps, k3)"
    and own3: "kowns k3 (rev (butlast ?ps))"
    using kernel_pages.pop_Cons by blast
  have rest: "same_rest ?k1 k3"
    using free_pages_rest allocate_rest[OF alloc] by (rule same_rest_trans)
  have last: "last ?ps \<noteq> 0" "is_page (last ?ps)" "last ?ps \<notin> set (butlast ?ps)"
    using own by (auto simp: kowns_def good_page_def)
  have slot: "last ?ps + PAGE_SIZE - 8 = pte_slot (last ?ps) 511"
    by (simp add: pte_slot_def PAGE_SIZE_def algebra_simps)
  have "kowns (snd (setup_new_stack (last ?ps) k3)) (rev (butlast ?ps))"
    unfolding setup_new_stack_def Let_def snd_conv slot
    using own3 last by (intro kowns_store) (simp_all add: word_layout)
  moreover have "kernel_main env addr b k = Inr (setup_new_stack (last ?ps) k3)"
    using alloc last by (simp add: kernel_main_def Let_def free_boot_pages boot_pages_def init_cpu_state)
  moreover have "idt ?k1 = map (\<lambda>i. idt_entry_of (vector_table env ! i)) [0..<N_INTERRUPTS]"
    by (rule init_cpu_idt) (simp add: clear_bss_def)
  moreover have "cpu ?k1 = cpu (init_apic env (k\<lparr>bd := b\<rparr>))" "gdtr ?k1 = set_gdt (gdt_addr env) gdt_length"
    "idtr ?k1 = set_idt (idt_addr env)" "stack_selector ?k1 = 16" "code_selector ?k1 = 8"
    "bd ?k1 = b" "bd_addr ?k1 = addr"
    by (simp_all add: init_cpu_def Let_def init_apic_def init_segment_selectors_def)
  ultimately show ?thesis
    using rest by (simp add: setup_new_stack_def Let_def same_rest_def)
qed


section \<open>Properties\<close>

definition sample_boot_env :: boot_env where
  "sample_boot_env =
    \<lparr>rdmsr = (\<lambda>_. (0xfee00900, 0)), cpuid_insn = (\<lambda>_ _. \<lparr>reg_a = 0, reg_b = 0x03000800, reg_c = 0, reg_d = 0\<rparr>),
     vector_table = map (\<lambda>i. 0xffffffffc0001000 + 16 * of_nat i) [0..<256],
     gdt_addr = 0xffffffffc0003000, idt_addr = 0xffffffffc0004000,
     bss_start = 0xffffffffc0003100, bss_end = 0xffffffffc0004800\<rparr>"

lemma sample_boot_pages: "boot_pages sample_data = sample_pages"
  by (simp add: boot_pages_def sample_pages_def sample_data_def PAGE_SIZE_def)

lemma sample_boot_ok: "boot_data_ok sample_data"
proof -
  have "paddr_base sample_data = paddr_base (bd blank_kernel)" by (simp add: blank_kernel_def)
  then show ?thesis
    using sample_pages_good
    by (auto simp: boot_data_ok_def sample_boot_pages good_page_def) (simp add: sample_data_def)
qed

lemma sample_apic: "read_msr (rdmsr sample_boot_env) IA32_APIC_BASE AND APIC_BASE_MASK = 0xfee00000"
  by (simp add: read_msr_def sample_boot_env_def APIC_BASE_MASK_def)

lemma translate_cr3 [simp]: "translate (k\<lparr>cr3 := x\<rparr>) = translate k"
proof -
  have "krd (k\<lparr>cr3 := x\<rparr>) = krd k" by (rule ext) (simp add: krd_def)
  then show ?thesis by (intro ext) (simp add: translate_def kbase_def)
qed

lemma space_requests_cong:
  "bd k = bd k' \<Longrightarrow> bd_addr k = bd_addr k' \<Longrightarrow> apic_paddr (cpu k) = apic_paddr (cpu k') \<Longrightarrow>
   apic_vaddr (cpu k) = apic_vaddr (cpu k') \<Longrightarrow> space_requests k = space_requests k'"
  by (simp add: space_requests_def)

lemma boot_page_request:
  "p \<in> set (boot_pages (bd k)) \<Longrightarrow> (p, p - paddr_base (bd k), PTE_RW) \<in> set (space_requests k)"
  by (auto simp: boot_pages_def space_requests_def range_requests_def algebra_simps)

text \<open>C14: \<open>kernel_main\<close> brings the machine to \<open>main2\<close> in a defined state, whatever was in memory
  before: the stack is the last free page (its pointer 8 below the page's end), the other
  pages the loader left are on the free list, the boot data are installed, the APIC is where
  the processor reports it and mapped one page below the MMIO region, the descriptor tables
  are loaded and every interrupt gate leads to its vector function.\<close>

theorem kernel_main_hands_over:
  assumes "boot_data_ok b"
  shows "\<exists>k'. kernel_main env addr b k = Inr (last (boot_pages b) + PAGE_SIZE - 8, k')
    \<and> kowns k' (rev (butlast (boot_pages b))) \<and> bd k' = b \<and> bd_addr k' = addr
    \<and> apic_paddr (cpu k') = read_msr (rdmsr env) IA32_APIC_BASE AND APIC_BASE_MASK
    \<and> apic_vaddr (cpu k') = mmio_base b - PAGE_SIZE
    \<and> idt k' = map (\<lambda>i. idt_entry_of (vector_table env ! i)) [0..<N_INTERRUPTS]
    \<and> gdtr k' = set_gdt (gdt_addr env) gdt_length \<and> idtr k' = set_idt (idt_addr env)
    \<and> stack_selector k' = 16 \<and> code_selector k' = 8"
  using kernel_main_result[OF assms, of env addr k] by (auto simp: init_apic_def Let_def)

theorem kernel_main_hands_over_witness:
  "\<exists>k'. kernel_main sample_boot_env sample_bd_addr sample_data blank_kernel = Inr (0xffffffffb811fff8, k')
    \<and> apic_paddr (cpu k') = 0xfee00000"
  using kernel_main_hands_over[OF sample_boot_ok, of sample_boot_env sample_bd_addr blank_kernel]
  by (auto simp: sample_boot_pages sample_pages_list PAGE_SIZE_def sample_apic)

lemma main2_correct:
  assumes ok: "boot_data_ok b" and pages: "rev (butlast (boot_pages b)) = q # free"
    and run: "kernel_main env addr b k = Inr (sp, k1)"
    and dist: "distinct (vpages (space_requests k1))"
    and relro: "\<And>v. v \<in> set (relro_pages b) \<Longrightarrow> VPAGE v \<in> set (vpages (space_requests k1))"
    and mem: "n_tables (set (map fst (space_requests k1))) \<le> length free"
    and stack: "VPAGE (last (boot_pages b)) \<notin> VPAGE ` set (relro_pages b)"
  shows "\<exists>k2. main2 k1 = Inr k2 \<and> idt k2 = idt k1 \<and> idtr k2 = idtr k1 \<and> bd k2 = b
    \<and> cr3 k2 + paddr_base b = q \<and> is_frame (cr3 k2)
    \<and> translate k2 q (last (boot_pages b)) =
        Some ((last (boot_pages b) - paddr_base b) OR PTE_P OR PTE_RW)
    \<and> (\<forall>i < unat (e_phnum (ehdr b)). let ph = phdrs b ! i in p_type ph = PT_LOAD \<longrightarrow>
        (\<forall>j < unat (NUM_PAGES (p_vaddr ph) (p_memsz ph)).
          translate k2 q (PAGE_BASE (p_vaddr ph) + PAGE_SIZE * of_nat j) \<noteq> None))"
proof -
  have own: "kowns k1 (q # free)" and bd1: "bd k1 = b"
    using kernel_main_result[OF ok, of env addr k] run pages by auto
  obtain sp where "spec_new_space k1 = Some sp"
    using spec_new_space_some[of k1] dist relro bd1 by auto
  then obtain k' where k': "new_address_space k1 = Inr (q, k')"
    using new_address_space_total[OF own] mem by (auto simp: space_demand_def)
  note ref = new_address_space_refines[OF own k']
  then have spec: "spec_new_space k1 = Some (translate k' q)" and rest: "same_rest k1 k'" by blast+
  note tr = spec_new_space_result(2)[OF spec]
  have m: "main2 k1 = Inr (k'\<lparr>cr3 := q - paddr_base b\<rparr>)"
    using k' same_rest_frame(1)[OF rest] bd1 by (simp add: main2_def)
  have "boot_pages b \<noteq> []" using ok by (auto simp: boot_data_ok_def boot_pages_def)
  then have "(last (boot_pages b), last (boot_pages b) - paddr_base b, PTE_RW) \<in> set (space_requests k1)"
    using boot_page_request[of "last (boot_pages b)" k1] bd1 by simp
  from tr[OF this] have "translate k' q (last (boot_pages b)) =
      Some ((last (boot_pages b) - paddr_base b) OR PTE_P OR PTE_RW)"
    using stack by (simp add: bd1 leaf_def)
  moreover have "is_frame (q - paddr_base b)" using own bd1 by (simp add: kowns_def good_page_def)
  moreover have "translate k' q (PAGE_BASE (p_vaddr ph) + PAGE_SIZE * of_nat j) \<noteq> None"
    if "i < unat (e_phnum (ehdr b))" "ph = phdrs b ! i" "p_type ph = PT_LOAD"
      "j < unat (NUM_PAGES (p_vaddr ph) (p_memsz ph))" for i j ph
    using tr[OF segment_request_mem[of i k1 ph j]] that bd1 by simp
  ultimately show ?thesis
    unfolding m using rest bd1
    by (intro exI[of _ "k'\<lparr>cr3 := q - paddr_base b\<rparr>"]) (simp add: Let_def same_rest_def)
qed

text \<open>The sample machine boots with 32 pages, of which it needs nine.\<close>

lemma sample_switch:
  obtains sp k1 where
    "rev (butlast (boot_pages sample_data)) = 0xffffffffb811e000 # tl (rev (butlast sample_pages))"
    and "kernel_main sample_boot_env sample_bd_addr sample_data blank_kernel = Inr (sp, k1)"
    and "distinct (vpages (space_requests k1))"
    and "\<And>v. v \<in> set (relro_pages sample_data) \<Longrightarrow> VPAGE v \<in> set (vpages (space_requests k1))"
    and "n_tables (set (map fst (space_requests k1))) \<le> length (tl (rev (butlast sample_pages)))"
    and "VPAGE (last (boot_pages sample_data)) \<notin> VPAGE ` set (relro_pages sample_data)"
proof -
  have pages: "rev (butlast (boot_pages sample_data)) = 0xffffffffb811e000 # tl (rev (butlast sample_pages))"
    by (simp add: sample_boot_pages sample_pages_list)
  obtain sp k1 where run: "kernel_main sample_boot_env sample_bd_addr sample_data blank_kernel = Inr (sp, k1)"
    and env: "bd k1 = sample_data" "bd_addr k1 = sample_bd_addr"
      "cpu k1 = cpu (init_apic sample_boot_env (blank_kernel\<lparr>bd := sample_data\<rparr>))"
    using kernel_main_result[OF sample_boot_ok, of sample_boot_env sample_bd_addr blank_kernel] by auto
  have "apic_paddr (cpu k1) = 0xfee00000" "apic_vaddr (cpu k1) = 0xffffffffb6fff000"
    using sample_apic by (simp_all add: env init_apic_def Let_def) (simp add: sample_data_def PAGE_SIZE_def)
  then have req: "space_requests k1 = space_requests sample_kernel"
    by (intro space_requests_cong) (simp_all add: env sample_env blank_kernel_def)
  have relro: "VPAGE v \<in> set (vpages (space_requests k1))" if "v \<in> set (relro_pages sample_data)" for v
    using that vpages_mem[of "0xffffffffc0003000" "(0x204000, PTE_RW)" "space_requests sample_kernel"]
    by (simp add: req sample_relro sample_requests)
  have "length (tl (rev (butlast sample_pages))) = 30" by (simp add: length_sample_pages)
  then have mem: "n_tables (set (map fst (space_requests k1))) \<le> length (tl (rev (butlast sample_pages)))"
    using sample_demand by (simp add: req space_demand_def)
  have stack: "VPAGE (last (boot_pages sample_data)) \<notin> VPAGE ` set (relro_pages sample_data)"
    by (simp add: sample_boot_pages sample_pages_list sample_relro VPAGE_def PTE_ADDR_MASK_def)
  have "distinct (vpages (space_requests k1))" using sample_vpages by (simp add: req)
  then show thesis using that pages run relro mem stack by blast
qed



end
