(* ===== verification/Interrupts.thy ===== *)
theory Interrupts
  imports X86
begin

text \<open>
  The path of an interrupt: the processor pushes its frame, the generated vector function
  (\<open>test/gen-vectors.c\<close>) adds an error code and the number, \<open>interrupt_handler_stub\<close> of
  \<open>src/stubs.S\<close> saves the registers with the macros of \<open>src/asm-util.h\<close> and calls
  \<open>interrupt_handler\<close> of \<open>src/interrupts.c\<close>, then everything is undone. The state is the
  general registers and the memory; the stack grows down from \<open>rsp\<close>.
\<close>

type_synonym machine = "x86_64_registers \<times> mem"

section \<open>Operations\<close>

definition interrupt_magic :: u64 where "interrupt_magic = 0xD1D1D1D1D1D1D1D1"

text \<open>\<open>BREAK()\<close> is a debugging hook without effect, so both cases of the switch return.\<close>

definition interrupt_handler :: "interrupt_frame \<Rightarrow> u64 \<Rightarrow> unit result" where
  "interrupt_handler frame magic =
     (if magic \<noteq> interrupt_magic then Inl Halted
      else if interrupt_number frame = exc EXC_BP then Inr () else Inr ())"

definition push :: "u64 \<Rightarrow> machine \<Rightarrow> machine" where
  "push v = (\<lambda>(r, m). (r\<lparr>rsp := rsp r - 8\<rparr>, store64 m (rsp r - 8) v))"

definition pop :: "machine \<Rightarrow> u64 \<times> machine" where
  "pop = (\<lambda>(r, m). (load64 m (rsp r), (r\<lparr>rsp := rsp r + 8\<rparr>, m)))"

text \<open>
  What the processor pushes on the (16-byte aligned) stack of the handler: \<open>ss\<close>, the
  interrupted \<open>rsp\<close>, \<open>rflags\<close>, \<open>cs\<close>, \<open>rip\<close>, and for some exceptions an error code.
\<close>

record cpu_context =
  ctx_rip :: u64
  ctx_cs :: u64
  ctx_rflags :: u64
  ctx_ss :: u64

definition cpu_interrupt :: "cpu_context \<Rightarrow> u64 option \<Rightarrow> u64 \<Rightarrow> machine \<Rightarrow> machine" where
  "cpu_interrupt ctx err stack = (\<lambda>(r, m).
     (let s = (r\<lparr>rsp := stack\<rparr>, m);
          s = push (ctx_rip ctx) (push (ctx_cs ctx) (push (ctx_rflags ctx)
                (push (rsp r) (push (ctx_ss ctx) s))))
      in case err of None \<Rightarrow> s | Some e \<Rightarrow> push e s))"

text \<open>The vector function generated for interrupt \<open>num\<close>.\<close>

definition vector_function :: "u64 \<Rightarrow> machine \<Rightarrow> machine" where
  "vector_function num s =
     (let s = (if EXC_HAS_ERROR_CODE num then s else push 0 s) in push num s)"

definition push_reg :: "(x86_64_registers \<Rightarrow> u64) \<Rightarrow> machine \<Rightarrow> machine" where
  "push_reg f = (\<lambda>(r, m). push (f r) (r, m))"

definition pop_reg :: "(u64 \<Rightarrow> x86_64_registers \<Rightarrow> x86_64_registers) \<Rightarrow> machine \<Rightarrow> machine" where
  "pop_reg upd s = (let (v, r, m) = pop s in (upd v r, m))"

definition pushaq :: "machine \<Rightarrow> machine" where
  "pushaq s =
     (let s = push_reg r15 s;
          s = (\<lambda>(r, m). (r\<lparr>r15 := rsp r + 8\<rparr>, m)) s;
          s = push_reg r14 s;
          s = push_reg r13 s;
          s = push_reg r12 s;
          s = push_reg r11 s;
          s = push_reg r10 s;
          s = push_reg r9 s;
          s = push_reg r8 s;
          s = push_reg rax s;
          s = push_reg rcx s;
          s = push_reg rdx s;
          s = push_reg rbx s;
          s = push_reg r15 s;
          s = push_reg rbp s;
          s = push_reg rsi s
      in push_reg rdi s)"

definition popaq :: "machine \<Rightarrow> machine" where
  "popaq s =
     (let s = pop_reg (\<lambda>v r. r\<lparr>rdi := v\<rparr>) s;
          s = pop_reg (\<lambda>v r. r\<lparr>rsi := v\<rparr>) s;
          s = pop_reg (\<lambda>v r. r\<lparr>rbp := v\<rparr>) s;
          s = (\<lambda>(r, m). (r\<lparr>rsp := rsp r + 8\<rparr>, m)) s;
          s = pop_reg (\<lambda>v r. r\<lparr>rbx := v\<rparr>) s;
          s = pop_reg (\<lambda>v r. r\<lparr>rdx := v\<rparr>) s;
          s = pop_reg (\<lambda>v r. r\<lparr>rcx := v\<rparr>) s;
          s = pop_reg (\<lambda>v r. r\<lparr>rax := v\<rparr>) s;
          s = pop_reg (\<lambda>v r. r\<lparr>r8 := v\<rparr>) s;
          s = pop_reg (\<lambda>v r. r\<lparr>r9 := v\<rparr>) s;
          s = pop_reg (\<lambda>v r. r\<lparr>r10 := v\<rparr>) s;
          s = pop_reg (\<lambda>v r. r\<lparr>r11 := v\<rparr>) s;
          s = pop_reg (\<lambda>v r. r\<lparr>r12 := v\<rparr>) s;
          s = pop_reg (\<lambda>v r. r\<lparr>r13 := v\<rparr>) s;
          s = pop_reg (\<lambda>v r. r\<lparr>r14 := v\<rparr>) s
      in pop_reg (\<lambda>v r. r\<lparr>r15 := v\<rparr>) s)"

text \<open>\<open>struct interrupt_frame\<close> as it lies at address \<open>a\<close>.\<close>

definition frame_at :: "mem \<Rightarrow> u64 \<Rightarrow> interrupt_frame" where
  "frame_at m a =
     (let q = (\<lambda>i. load64 m (a + 8 * i)) in
      \<lparr>reg = \<lparr>rdi = q 0, rsi = q 1, rbp = q 2, rsp = q 3, rbx = q 4, rdx = q 5, rcx = q 6,
              rax = q 7, r8 = q 8, r9 = q 9, r10 = q 10, r11 = q 11, r12 = q 12, r13 = q 13,
              r14 = q 14, r15 = q 15\<rparr>,
       interrupt_number = q 16, error_code = q 17, frame_rip = q 18, frame_cs = q 19,
       frame_rflags = q 20, frame_rsp = q 21, frame_ss = q 22\<rparr>)"

text \<open>
  The stub up to its \<open>iretq\<close>. The call runs compiled C code, which the ABI lets change the
  caller-saved registers and the stack below \<open>rsp\<close>: \<open>after_call\<close> is the machine on return.
\<close>

definition interrupt_handler_stub :: "(machine \<Rightarrow> machine) \<Rightarrow> machine \<Rightarrow> machine result" where
  "interrupt_handler_stub after_call s =
     (let (r, m) = pushaq s;
          r = r\<lparr>rsi := interrupt_magic\<rparr>;
          r = r\<lparr>rdi := rsp r\<rparr>
      in bind (interrupt_handler (frame_at m (rdi r)) (rsi r)) (\<lambda>_.
         let (r, m) = popaq (after_call (r, m))
         in Inr (r\<lparr>rsp := rsp r + 16\<rparr>, m)))"

definition iretq :: "machine \<Rightarrow> cpu_context \<times> machine" where
  "iretq s =
     (let (rip, s) = pop s; (cs, s) = pop s; (flags, s) = pop s; (sp, s) = pop s; (ss, s) = pop s
      in (\<lparr>ctx_rip = rip, ctx_cs = cs, ctx_rflags = flags, ctx_ss = ss\<rparr>, ((fst s)\<lparr>rsp := sp\<rparr>, snd s)))"

section \<open>Pushed quadwords stay where they are\<close>

definition push_list :: "u64 list \<Rightarrow> machine \<Rightarrow> machine" where
  "push_list vs s = fold push vs s"

lemma push_list_regs: "fst (push_list vs (r, m)) = r\<lparr>rsp := rsp r - 8 * of_nat (length vs)\<rparr>"
  by (induction vs arbitrary: r m) (auto simp: push_list_def push_def algebra_simps)

lemma push_list_loads:
  assumes "aligned8 (rsp r)" and "length vs < 2 ^ 32"
  shows "i < length vs \<Longrightarrow> load64 (snd (push_list vs (r, m))) (rsp r - 8 * of_nat (Suc i)) = vs ! i"
  using assms(2)
proof (induction vs arbitrary: i rule: rev_induct)
  case Nil
  then show ?case by simp
next
  case (snoc v vs)
  let ?s = "push_list vs (r, m)" and ?a = "\<lambda>i. rsp r - 8 * of_nat (Suc i)"
  have last: "push_list (vs @ [v]) (r, m) = push v ?s" by (simp add: push_list_def)
  have mem: "snd (push_list (vs @ [v]) (r, m)) = store64 (snd ?s) (?a (length vs)) v"
    unfolding last push_def by (simp add: case_prod_beta push_list_regs algebra_simps)
  have al: "aligned8 (?a j)" for j
    using assms(1) aligned8_times by (rule aligned8_minus)
  show ?case
  proof (cases "i = length vs")
    case True
    then show ?thesis unfolding mem by simp
  next
    case False
    then have i: "i < length vs" using snoc.prems(1) by simp
    have len: "length vs < 2 ^ 32" using snoc.prems(2) by simp
    have "?a (length vs) \<noteq> ?a i"
    proof
      assume "?a (length vs) = ?a i"
      then have "8 * (of_nat (Suc (length vs)) :: u64) = 8 * of_nat (Suc i)"
        by (simp only: diff_left_imp_eq)
      then have "(of_nat (8 * Suc (length vs)) :: u64) = of_nat (8 * Suc i)"
        by (simp only: of_nat_mult of_nat_numeral)
      moreover have "8 * Suc (length vs) < 18446744073709551616" "8 * Suc i < 18446744073709551616"
        using len i by simp_all
      ultimately have "8 * Suc (length vs) = 8 * Suc i" by (simp only: of_nat64_inj)
      then show False using i by simp
    qed
    then show ?thesis
      unfolding mem using snoc.IH[OF i len] i by (simp only: load64_store64_other[OF al al] nth_append if_True not_False_eq_True)
  qed
qed

section \<open>The frame\<close>

definition saved :: "x86_64_registers \<Rightarrow> u64 list" where
  "saved r = [r15 r, r14 r, r13 r, r12 r, r11 r, r10 r, r9 r, r8 r, rax r, rcx r, rdx r, rbx r,
     rsp r, rbp r, rsi r, rdi r]"

lemma pushaq_list:
  "pushaq (r, m) = (r\<lparr>rsp := rsp r - 128, r15 := rsp r\<rparr>, snd (push_list (saved r) (r, m)))"
  by (simp add: pushaq_def push_list_def saved_def push_reg_def push_def Let_def)

lemma vector_list: "vector_function num s =
    push_list (if EXC_HAS_ERROR_CODE num then [num] else [0, num]) s"
  by (simp add: vector_function_def push_list_def)

lemma cpu_interrupt_list: "cpu_interrupt ctx err stack (r, m) =
    push_list ([ctx_ss ctx, rsp r, ctx_rflags ctx, ctx_cs ctx, ctx_rip ctx] @
      (case err of None \<Rightarrow> [] | Some e \<Rightarrow> [e])) (r\<lparr>rsp := stack\<rparr>, m)"
  by (simp add: cpu_interrupt_def push_list_def split: option.split)

text \<open>Everything on the stack when the handler runs, in the order it was pushed.\<close>

definition stacked :: "cpu_context \<Rightarrow> u64 \<Rightarrow> u64 \<Rightarrow> u64 \<Rightarrow> x86_64_registers \<Rightarrow> u64 list" where
  "stacked ctx err num stack r =
     [ctx_ss ctx, rsp r, ctx_rflags ctx, ctx_cs ctx, ctx_rip ctx, err, num]
     @ saved (r\<lparr>rsp := stack - 56\<rparr>)"

lemma push_list_append: "push_list (xs @ ys) s = push_list ys (push_list xs s)"
  by (simp add: push_list_def)

lemma push_list_snd_cong:
  "rsp r = rsp r' \<Longrightarrow> snd (push_list vs (r, m)) = snd (push_list vs (r', m))"
  by (induction vs arbitrary: r r' m) (simp_all add: push_list_def push_def)

lemma interrupted:
  assumes "(err \<noteq> None) = EXC_HAS_ERROR_CODE num"
  shows "pushaq (vector_function num (cpu_interrupt ctx err stack (r, m))) =
    (r\<lparr>rsp := stack - 184, r15 := stack - 56\<rparr>,
     snd (push_list (stacked ctx (case err of None \<Rightarrow> 0 | Some e \<Rightarrow> e) num stack r)
       (r\<lparr>rsp := stack\<rparr>, m)))"
proof -
  let ?vs = "[ctx_ss ctx, rsp r, ctx_rflags ctx, ctx_cs ctx, ctx_rip ctx,
    case err of None \<Rightarrow> 0 | Some e \<Rightarrow> e, num]"
  have "vector_function num (cpu_interrupt ctx err stack (r, m)) = push_list ?vs (r\<lparr>rsp := stack\<rparr>, m)"
    using assms unfolding vector_list cpu_interrupt_list push_list_append[symmetric]
    by (cases err) simp_all
  moreover obtain m7 where m7: "push_list ?vs (r\<lparr>rsp := stack\<rparr>, m) = (r\<lparr>rsp := stack - 56\<rparr>, m7)"
    by (cases "push_list ?vs (r\<lparr>rsp := stack\<rparr>, m)")
       (use push_list_regs[of ?vs "r\<lparr>rsp := stack\<rparr>" m] in simp)
  ultimately show ?thesis
    by (simp add: pushaq_list stacked_def push_list_append del: append.simps)
qed


lemma length_stacked [simp]: "length (stacked ctx err num stack r) = 23"
  by (simp add: stacked_def saved_def)

lemma stacked_loads:
  assumes "aligned8 stack" and "i < 23"
  shows "load64 (snd (push_list (stacked ctx err num stack r) (r\<lparr>rsp := stack\<rparr>, m)))
      (stack - 8 * of_nat (Suc i)) = stacked ctx err num stack r ! i"
  using push_list_loads[of "r\<lparr>rsp := stack\<rparr>" "stacked ctx err num stack r" i m] assms by simp

text \<open>The same loads, written as the offsets from the bottom of the frame.\<close>

lemma frame_loads:
  assumes "aligned8 stack"
    and "\<And>i. i < 23 \<Longrightarrow> load64 m' (stack - 8 * of_nat (Suc i)) =
      load64 (snd (push_list (stacked ctx err num stack r) (r\<lparr>rsp := stack\<rparr>, m))) (stack - 8 * of_nat (Suc i))"
  shows "i < 23 \<Longrightarrow> load64 m' (stack - 184 + 8 * of_nat i) = rev (stacked ctx err num stack r) ! i"
proof -
  assume i: "i < 23"
  have eq: "stack - 184 + 8 * of_nat i = stack - 8 * of_nat (Suc (22 - i))"
    using i by (simp add: of_nat_diff algebra_simps)
  have "22 - i < 23" by simp
  then have "load64 m' (stack - 8 * of_nat (Suc (22 - i))) = stacked ctx err num stack r ! (22 - i)"
    using assms(2) stacked_loads[OF assms(1)] by metis
  then show ?thesis using i unfolding eq by (simp add: rev_nth)
qed

lemma rev_stacked: "rev (stacked ctx err num stack r) =
    [rdi r, rsi r, rbp r, stack - 56, rbx r, rdx r, rcx r, rax r, r8 r, r9 r, r10 r, r11 r, r12 r,
     r13 r, r14 r, r15 r, num, err, ctx_rip ctx, ctx_cs ctx, ctx_rflags ctx, rsp r, ctx_ss ctx]"
  by (simp add: stacked_def saved_def)


lemma frame_at_eq:
  assumes "\<And>i. i < 23 \<Longrightarrow> load64 m (a + 8 * of_nat i) = xs ! i"
  shows "frame_at m a =
    \<lparr>reg = \<lparr>rdi = xs ! 0, rsi = xs ! 1, rbp = xs ! 2, rsp = xs ! 3, rbx = xs ! 4, rdx =
            xs ! 5, rcx = xs ! 6, rax = xs ! 7, r8 = xs ! 8, r9 = xs ! 9, r10 = xs !
            10, r11 = xs ! 11, r12 = xs ! 12, r13 = xs ! 13, r14 = xs ! 14, r15 = xs !
            15\<rparr>,
     interrupt_number = xs ! 16, error_code = xs ! 17, frame_rip = xs ! 18, frame_cs
     = xs ! 19, frame_rflags = xs ! 20, frame_rsp = xs ! 21, frame_ss = xs ! 22\<rparr>"
  using assms[of 0] assms[of 1] assms[of 2] assms[of 3] assms[of 4] assms[of 5] assms[of 6] assms[of
    7] assms[of 8] assms[of 9] assms[of 10] assms[of 11] assms[of 12] assms[of 13] assms[of
    14] assms[of 15] assms[of 16] assms[of 17] assms[of 18] assms[of 19] assms[of 20] assms[of
    21] assms[of 22]
  by (simp add: frame_at_def)

lemma popaq_loads:
  "popaq (r, m) =
    (\<lparr>rdi = load64 m (rsp r + 0), rsi = load64 m (rsp r + 8), rbp = load64 m (rsp r + 16),
      rsp = rsp r + 128, rbx = load64 m (rsp r + 32), rdx = load64 m (rsp r + 40), rcx =
      load64 m (rsp r + 48), rax = load64 m (rsp r + 56), r8 = load64 m (rsp r + 64), r9 =
      load64 m (rsp r + 72), r10 = load64 m (rsp r + 80), r11 = load64 m (rsp r + 88), r12
      = load64 m (rsp r + 96), r13 = load64 m (rsp r + 104), r14 = load64 m (rsp r + 112),
      r15 = load64 m (rsp r + 120)\<rparr>, m)"
  by (simp add: popaq_def pop_reg_def pop_def Let_def add.assoc)

lemma popaq_frame:
  assumes "\<And>i. i < 23 \<Longrightarrow> load64 m (a + 8 * of_nat i) = xs ! i" and "rsp r = a"
  shows "popaq (r, m) =
    (\<lparr>rdi = xs ! 0, rsi = xs ! 1, rbp = xs ! 2, rsp = a + 128, rbx = xs ! 4, rdx = xs ! 5,
      rcx = xs ! 6, rax = xs ! 7, r8 = xs ! 8, r9 = xs ! 9, r10 = xs ! 10, r11 = xs ! 11,
      r12 = xs ! 12, r13 = xs ! 13, r14 = xs ! 14, r15 = xs ! 15\<rparr>, m)"
  using assms(1)[of 0] assms(1)[of 1] assms(1)[of 2] assms(1)[of 3] assms(1)[of 4] assms(1)[of 5] assms(1)[of 6] assms(1)[of
    7] assms(1)[of 8] assms(1)[of 9] assms(1)[of 10] assms(1)[of 11] assms(1)[of 12] assms(1)[of 13] assms(1)[of
    14] assms(1)[of 15] assms(1)[of 16] assms(1)[of 17] assms(1)[of 18] assms(1)[of 19] assms(1)[of 20] assms(1)[of
    21] assms(1)[of 22]
  by (simp add: popaq_loads assms(2))


section \<open>Properties\<close>

text \<open>The pointer the stub passes to \<open>interrupt_handler\<close> is a correct
  \<open>struct interrupt_frame\<close>: the saved registers, the interrupt number, the error code (0 when
  the processor pushes none) and the interrupted context, each in its own field. The field
  \<open>reg.rsp\<close> is the stack pointer on entry to the stub.\<close>

theorem interrupt_frame_layout:
  assumes "aligned8 stack" and "(err \<noteq> None) = EXC_HAS_ERROR_CODE num"
    and "s = pushaq (vector_function num (cpu_interrupt ctx err stack (r, m)))"
  shows "frame_at (snd s) (rsp (fst s)) =
    \<lparr>reg = r\<lparr>rsp := stack - 56\<rparr>, interrupt_number = num,
     error_code = (case err of None \<Rightarrow> 0 | Some e \<Rightarrow> e), frame_rip = ctx_rip ctx,
     frame_cs = ctx_cs ctx, frame_rflags = ctx_rflags ctx, frame_rsp = rsp r, frame_ss = ctx_ss ctx\<rparr>"
proof -
  have s: "rsp (fst s) = stack - 184" unfolding assms(3) interrupted[OF assms(2)] by simp
  have m: "snd s = snd (push_list (stacked ctx (case err of None \<Rightarrow> 0 | Some e \<Rightarrow> e) num stack r)
      (r\<lparr>rsp := stack\<rparr>, m))" unfolding assms(3) interrupted[OF assms(2)] by simp
  show ?thesis
    unfolding s m by (subst frame_at_eq[OF frame_loads[OF assms(1) refl]]) (simp_all add: rev_stacked)
qed

definition sample_regs :: x86_64_registers where
  "sample_regs = \<lparr>rdi = 1, rsi = 2, rbp = 3, rsp = 0x8000, rbx = 4, rdx = 5, rcx = 6, rax = 7, r8 = 8,
     r9 = 9, r10 = 10, r11 = 11, r12 = 12, r13 = 13, r14 = 14, r15 = 15\<rparr>"

definition sample_ctx :: cpu_context where
  "sample_ctx = \<lparr>ctx_rip = 0x1000, ctx_cs = 8, ctx_rflags = 2, ctx_ss = 16\<rparr>"

text \<open>Interrupt 40, as \<open>main2\<close> raises it.\<close>

theorem interrupt_frame_layout_witness:
  "interrupt_number (frame_at
     (snd (pushaq (vector_function 40 (cpu_interrupt sample_ctx None 0x7ff0 (sample_regs, \<lambda>_. 0)))))
     (rsp (fst (pushaq (vector_function 40 (cpu_interrupt sample_ctx None 0x7ff0 (sample_regs, \<lambda>_. 0)))))))
   = 40"
  by (subst interrupt_frame_layout[OF _ _ refl]) (simp_all add: aligned8_def EXC_HAS_ERROR_CODE_def)

text \<open>The whole path of an interrupt, from the processor's pushes to \<open>iretq\<close>.\<close>

lemma interrupt_returns:
  assumes "aligned8 stack" and "(err \<noteq> None) = EXC_HAS_ERROR_CODE num"
    and abi: "\<And>r m. rsp (fst (after_call (r, m))) = rsp r"
    and frame: "\<And>r m i. i < 23 \<Longrightarrow>
      load64 (snd (after_call (r, m))) (rsp r + 8 * of_nat i) = load64 m (rsp r + 8 * of_nat i)"
  shows "\<exists>m'. bind (interrupt_handler_stub after_call
      (vector_function num (cpu_interrupt ctx err stack (r, m)))) (\<lambda>s. Inr (iretq s)) =
    Inr (ctx, (r, m'))"
proof -
  let ?vs = "stacked ctx (case err of None \<Rightarrow> 0 | Some e \<Rightarrow> e) num stack r"
  let ?m = "snd (push_list ?vs (r\<lparr>rsp := stack\<rparr>, m))"
  let ?r = "r\<lparr>rsp := stack - 184, r15 := stack - 56, rsi := interrupt_magic, rdi := stack - 184\<rparr>"
  obtain r' m' where call: "after_call (?r, ?m) = (r', m')" by (cases "after_call (?r, ?m)")
  have "load64 m' (stack - 184 + 8 * of_nat i) = rev ?vs ! i" if "i < 23" for i
    using frame[of i ?r ?m] frame_loads[OF assms(1) refl that] that call by simp
  note loads = this[unfolded rev_stacked]
  have rsp: "rsp r' = stack - 184" using abi[of ?r ?m] call by simp
  have "load64 m' (stack - 184 + 144) = ctx_rip ctx" "load64 m' (stack - 184 + 152) = ctx_cs ctx"
    "load64 m' (stack - 184 + 160) = ctx_rflags ctx" "load64 m' (stack - 184 + 168) = rsp r"
    "load64 m' (stack - 184 + 176) = ctx_ss ctx"
    using loads[of 18] loads[of 19] loads[of 20] loads[of 21] loads[of 22] by simp_all
  moreover have "interrupt_handler_stub after_call (vector_function num (cpu_interrupt ctx err stack (r, m)))
      = Inr ((fst (popaq (r', m')))\<lparr>rsp := rsp (fst (popaq (r', m'))) + 16\<rparr>, m')"
    unfolding interrupt_handler_stub_def interrupted[OF assms(2)]
    by (simp add: interrupt_handler_def call popaq_loads)
  moreover have "popaq (r', m') = (r\<lparr>rsp := stack - 56\<rparr>, m')"
    by (subst popaq_frame[OF loads rsp]) simp_all
  ultimately show ?thesis
    by (simp add: iretq_def pop_def Let_def add.assoc)
qed

text \<open>C15: An interrupt is invisible to the interrupted code: whatever the compiled handler
  does to the caller-saved registers and to the stack below the frame, the stub and \<open>iretq\<close>
  resume at the interrupted instruction with every general register, the flags, the segments
  and the stack pointer as they were.\<close>

theorem interrupt_transparent:
  assumes "aligned8 stack" and "(err \<noteq> None) = EXC_HAS_ERROR_CODE num"
    and abi: "\<And>r m. rsp (fst (after_call (r, m))) = rsp r"
    and frame: "\<And>r m i. i < 23 \<Longrightarrow>
      load64 (snd (after_call (r, m))) (rsp r + 8 * of_nat i) = load64 m (rsp r + 8 * of_nat i)"
  shows "\<exists>m'. bind (interrupt_handler_stub after_call
      (vector_function num (cpu_interrupt ctx err stack (r, m)))) (\<lambda>s. Inr (iretq s)) =
    Inr (ctx, (r, m'))"
  using assms by (rule interrupt_returns)

text \<open>A handler that clobbers every caller-saved register.\<close>

theorem interrupt_transparent_witness:
  "\<exists>m'. bind (interrupt_handler_stub
      (\<lambda>(r, m). (r\<lparr>rax := 0, rcx := 0, rdx := 0, rsi := 0, rdi := 0, r8 := 0, r9 := 0, r10 := 0, r11 := 0\<rparr>, m))
      (vector_function (exc EXC_PF) (cpu_interrupt sample_ctx (Some 2) 0x7ff0 (sample_regs, \<lambda>_. 0))))
      (\<lambda>s. Inr (iretq s)) = Inr (sample_ctx, (sample_regs, m'))"
  by (rule interrupt_transparent) (simp_all add: aligned8_def EXC_HAS_ERROR_CODE_def)

end
