(* ===== verification/KernelRun.thy ===== *)
theory KernelRun
  imports Entry Interrupts
begin

text \<open>
  \<open>kernel_main\<close> and \<open>main2\<close> of \<open>src/entry.c\<close> to their end: after the switch to its own address
  space the kernel raises interrupt 40 and a breakpoint, which go through the descriptor table
  \<open>init_idt\<close> built to the generated vector functions and \<open>interrupt_handler_stub\<close> and come back, and
  then asks the firmware to shut the machine down. \<open>None\<close> is a fault of the processor or control
  that ends up in code the model does not know.
\<close>

section \<open>Operations\<close>

text \<open>
  The instructions \<open>int num\<close> and \<open>int3\<close> (\<open>interrupt\<close> and \<open>int3\<close> of \<open>include/opsys/x86.h\<close>): the
  processor finds the gate within the limit of the table, checks that it is a present interrupt
  gate, and pushes its frame on the current stack, aligned to 16 bytes; a software interrupt has
  no error code. What lies at the gate's address is the vector function that the generated table
  places there.
\<close>

definition int_instruction ::
  "boot_env \<Rightarrow> (machine \<Rightarrow> machine) \<Rightarrow> u64 \<Rightarrow> cpu_context \<Rightarrow> x86_64_registers \<Rightarrow> kernel
    \<Rightarrow> (cpu_context \<times> x86_64_registers \<times> kernel) result option" where
  "int_instruction env after_call num ctx r k =
     (if unat (pd_limit (idtr k)) < 16 * unat num + 15 \<or> length (idt k) \<le> unat num then None
      else
        let gate = idt k ! unat num in
        if fst gate AND SEGDESC_P = 0 \<or> fst gate AND SDT_MASK \<noteq> SDT_INTR then None
        else case find (\<lambda>i. vector_table env ! i = gate_offset gate) [0..<length (vector_table env)] of
            None \<Rightarrow> None
          | Some i \<Rightarrow> Some (bind (interrupt_handler_stub after_call
                (vector_function (of_nat i) (cpu_interrupt ctx None (rsp r AND NOT 15) (r, kmem k))))
              (\<lambda>s. case iretq s of (ctx, r, m) \<Rightarrow> Inr (ctx, r, k\<lparr>kmem := m\<rparr>))))"

text \<open>The call of \<open>ResetSystem\<close>; \<open>EfiResetShutdown\<close> is 2 in the UEFI specification.\<close>

record reset_call =
  reset_services :: u64
  reset_type :: u32
  reset_status :: u64
  reset_size :: u64
  reset_data :: u64

definition EfiResetShutdown :: u32 where "EfiResetShutdown = 2"

text \<open>
  \<open>site i\<close> is the context and the registers that the compiled code has at its \<open>i\<close>-th interrupt
  instruction. It goes on only if it is resumed there.
\<close>

definition main2_run ::
  "boot_env \<Rightarrow> (machine \<Rightarrow> machine) \<Rightarrow> (nat \<Rightarrow> cpu_context \<times> x86_64_registers) \<Rightarrow> kernel
    \<Rightarrow> (reset_call \<times> kernel) result option" where
  "main2_run env after_call site k =
     (case main2 k of Inl e \<Rightarrow> Some (Inl e) | Inr k \<Rightarrow>
     (case int_instruction env after_call 40 (fst (site 0)) (snd (site 0)) k of
        None \<Rightarrow> None | Some (Inl e) \<Rightarrow> Some (Inl e) | Some (Inr (ctx, r, k)) \<Rightarrow>
     if (ctx, r) \<noteq> site 0 then None else
     (case int_instruction env after_call (exc EXC_BP) (fst (site 1)) (snd (site 1)) k of
        None \<Rightarrow> None | Some (Inl e) \<Rightarrow> Some (Inl e) | Some (Inr (ctx, r, k)) \<Rightarrow>
     if (ctx, r) \<noteq> site 1 then None else
     Some (Inr (\<lparr>reset_services = RT (bd k), reset_type = EfiResetShutdown, reset_status = 0,
       reset_size = 0, reset_data = 0\<rparr>, k)))))"

section \<open>Interrupts of the running kernel\<close>

text \<open>What the compiled handler may do: change caller-saved registers and the stack below it.\<close>

definition keeps_frame :: "(machine \<Rightarrow> machine) \<Rightarrow> bool" where
  "keeps_frame after_call \<longleftrightarrow>
     (\<forall>r m. rsp (fst (after_call (r, m))) = rsp r \<and>
       (\<forall>i < 23. load64 (snd (after_call (r, m))) (rsp r + 8 * of_nat i) = load64 m (rsp r + 8 * of_nat i)))"

text \<open>The tables as \<open>init_cpu\<close> leaves them.\<close>

definition idt_ready :: "boot_env \<Rightarrow> kernel \<Rightarrow> bool" where
  "idt_ready env k \<longleftrightarrow> idtr k = set_idt (idt_addr env) \<and>
     idt k = map (\<lambda>i. idt_entry_of (vector_table env ! i)) [0..<N_INTERRUPTS]"

lemma aligned_stack: "aligned8 ((sp :: u64) AND NOT 15)"
proof -
  have m: "(15 :: u64) = mask 4" "(7 :: u64) = mask 3" by code_simp+
  have "(sp AND NOT 15) AND 7 = 0" unfolding m by (auto simp: word_eq_bits bit_simps)
  then show ?thesis by (simp add: aligned8_def)
qed

lemma find_vector:
  assumes "distinct vs" and "i < length vs"
  shows "find (\<lambda>j. vs ! j = vs ! i) [0..<length vs] = Some i"
proof -
  have "[0..<length vs] = [0..<i] @ i # [Suc i..<length vs]"
    using assms(2) by (metis le_add_same_cancel1 less_imp_le upt_add_eq_append upt_conv_Cons zero_le
        add_0 le_add_diff_inverse)
  moreover have "find (\<lambda>j. vs ! j = vs ! i) [0..<i] = None"
    using assms by (auto simp: find_None_iff nth_eq_iff_index_eq)
  ultimately show ?thesis by (simp add: find_append)
qed

lemma int_instruction_returns:
  assumes ready: "idt_ready env k" and abi: "keeps_frame after_call"
    and table: "distinct (vector_table env)" "length (vector_table env) = N_INTERRUPTS"
    and num: "unat num < N_INTERRUPTS" "\<not> EXC_HAS_ERROR_CODE num"
  shows "\<exists>m. int_instruction env after_call num ctx r k = Some (Inr (ctx, r, k\<lparr>kmem := m\<rparr>))"
proof -
  let ?n = "unat num" and ?stack = "rsp r AND NOT 15"
  have idt: "idt k ! ?n = idt_entry_of (vector_table env ! ?n)" "length (idt k) = N_INTERRUPTS"
    using ready num(1) by (simp_all add: idt_ready_def)
  have limit: "unat (pd_limit (idtr k)) = 16 * N_INTERRUPTS - 1"
    using ready by (simp add: idt_ready_def set_idt_def N_INTERRUPTS_def)
  have p: "SEGDESC_P \<noteq> 0" unfolding word_eq_bits bit_segdesc by auto
  have f: "find (\<lambda>i. vector_table env ! i = gate_offset (idt k ! ?n)) [0..<length (vector_table env)] = Some ?n"
    using find_vector[OF table(1), of ?n] table(2) num(1) by (simp add: idt gate_offset_entry)
  obtain m where m: "bind (interrupt_handler_stub after_call
      (vector_function num (cpu_interrupt ctx None ?stack (r, kmem k)))) (\<lambda>s. Inr (iretq s)) =
    Inr (ctx, (r, m))"
    using interrupt_returns[OF aligned_stack[of "rsp r"], where err = None and num = num and after_call = after_call
        and ctx = ctx and r = r and m = "kmem k"] num(2) abi
    unfolding keeps_frame_def by auto
  have b: "bind x (\<lambda>s. case iretq s of (ctx, r, m) \<Rightarrow> Inr (ctx, r, k\<lparr>kmem := m\<rparr>)) =
      Inr (ctx, r, k\<lparr>kmem := m\<rparr>)" if "bind x (\<lambda>s. Inr (iretq s)) = Inr (ctx, (r, m))" for x :: "machine result"
    using that by (cases x) auto
  show ?thesis
    using num(1) idt(2) gate_present p b[OF m]
    by (intro exI[of _ m]) (simp add: int_instruction_def limit f Let_def, simp add: idt(1))
qed

lemma main2_run_result:
  assumes m: "main2 k1 = Inr k2" and ready: "idt_ready env k1" and idt: "idt k2 = idt k1" "idtr k2 = idtr k1"
    and abi: "keeps_frame after_call"
    and table: "distinct (vector_table env)" "length (vector_table env) = N_INTERRUPTS"
  shows "\<exists>m. main2_run env after_call site k1 =
    Some (Inr (\<lparr>reset_services = RT (bd k2), reset_type = EfiResetShutdown, reset_status = 0,
      reset_size = 0, reset_data = 0\<rparr>, k2\<lparr>kmem := m\<rparr>))"
proof -
  have n: "unat (40 :: u64) < N_INTERRUPTS" "\<not> EXC_HAS_ERROR_CODE 40"
    "unat (exc EXC_BP) < N_INTERRUPTS" "\<not> EXC_HAS_ERROR_CODE (exc EXC_BP)"
    by (simp_all add: N_INTERRUPTS_def EXC_HAS_ERROR_CODE_def)
  have r2: "idt_ready env k2" using ready idt by (simp add: idt_ready_def)
  obtain m1 where 1: "int_instruction env after_call 40 (fst (site 0)) (snd (site 0)) k2 =
      Some (Inr (fst (site 0), snd (site 0), k2\<lparr>kmem := m1\<rparr>))"
    using int_instruction_returns[OF r2 abi table n(1,2)] by blast
  have r3: "idt_ready env (k2\<lparr>kmem := m1\<rparr>)" using r2 by (simp add: idt_ready_def)
  obtain m2 where 2: "int_instruction env after_call (exc EXC_BP) (fst (site 1)) (snd (site 1)) (k2\<lparr>kmem := m1\<rparr>) =
      Some (Inr (fst (site 1), snd (site 1), k2\<lparr>kmem := m1\<rparr>\<lparr>kmem := m2\<rparr>))"
    using int_instruction_returns[OF r3 abi table n(3,4)] by blast
  show ?thesis by (intro exI[of _ m2]) (simp add: main2_run_def m 1 2[simplified])
qed

text \<open>From the entry point: the code and the interrupt sites of \<open>main2\<close> are run on the new stack.\<close>

definition kernel_run ::
  "boot_env \<Rightarrow> (machine \<Rightarrow> machine) \<Rightarrow> (u64 \<Rightarrow> nat \<Rightarrow> cpu_context \<times> x86_64_registers) \<Rightarrow> u64
    \<Rightarrow> bootloader_data \<Rightarrow> kernel \<Rightarrow> (reset_call \<times> kernel) result option" where
  "kernel_run env after_call site bootloader_data_in data k =
     (case kernel_main env bootloader_data_in data k of
        Inl e \<Rightarrow> Some (Inl e)
      | Inr (sp, k) \<Rightarrow> main2_run env after_call (site sp) k)"

lemma sample_vectors:
  "distinct (vector_table sample_boot_env) \<and> length (vector_table sample_boot_env) = N_INTERRUPTS"
proof -
  have "inj_on (\<lambda>i. 0xffffffffc0001000 + 16 * of_nat i :: u64) {0..<256}"
  proof (rule inj_onI)
    fix i j :: nat
    assume ij: "i \<in> {0..<256}" "j \<in> {0..<256}"
      and "0xffffffffc0001000 + 16 * of_nat i = (0xffffffffc0001000 + 16 * of_nat j :: u64)"
    then have "(of_nat (16 * i) :: u64) = of_nat (16 * j)" by simp
    then have "16 * i = 16 * j" using ij by (subst (asm) of_nat64_inj) auto
    then show "i = j" by simp
  qed
  then show ?thesis by (simp add: sample_boot_env_def distinct_map N_INTERRUPTS_def)
qed

section \<open>To the shut-down\<close>

text \<open>The kernel gets from its entry point to the shut-down request. It switches to its own
address space, whose root is then in \<open>cr3\<close>; interrupt 40 and the breakpoint find their gates in the
table it built, reach their vector functions, and each is resumed where it was raised with all
registers as they were, whatever the compiled handler does to the caller-saved registers and to the
stack below its frame; and \<open>ResetSystem\<close> of the firmware the loader handed over is asked to shut
down.\<close>

theorem kernel_reaches_shutdown:
  assumes "boot_data_ok b" and "rev (butlast (boot_pages b)) = q # free"
    and run: "kernel_main env addr b k = Inr (sp, k1)"
    and "distinct (vpages (space_requests k1))"
    and "\<And>v. v \<in> set (relro_pages b) \<Longrightarrow> VPAGE v \<in> set (vpages (space_requests k1))"
    and "n_tables (set (map fst (space_requests k1))) \<le> length free"
    and "VPAGE (last (boot_pages b)) \<notin> VPAGE ` set (relro_pages b)"
    and abi: "keeps_frame after_call"
    and table: "distinct (vector_table env)" "length (vector_table env) = N_INTERRUPTS"
  shows "\<exists>k'. kernel_run env after_call site addr b k =
      Some (Inr (\<lparr>reset_services = RT b, reset_type = EfiResetShutdown, reset_status = 0,
        reset_size = 0, reset_data = 0\<rparr>, k')) \<and>
    bd k' = b \<and> cr3 k' + paddr_base b = q \<and> is_frame (cr3 k')"
proof -
  obtain k2 where k2: "main2 k1 = Inr k2" "idt k2 = idt k1" "idtr k2 = idtr k1" "bd k2 = b"
    "cr3 k2 + paddr_base b = q" "is_frame (cr3 k2)"
    using main2_correct[OF assms(1-7)] by blast
  have "idt_ready env k1"
    using kernel_main_result[OF assms(1), of env addr k] run by (auto simp: idt_ready_def)
  from main2_run_result[OF k2(1) this k2(2,3) abi table, of "site sp"] show ?thesis
    using k2 by (auto simp: kernel_run_def run)
qed

text \<open>On the sample machine, with code that raises its interrupts on the new stack.\<close>

definition sample_site :: "u64 \<Rightarrow> nat \<Rightarrow> cpu_context \<times> x86_64_registers" where
  "sample_site sp i =
     (\<lparr>ctx_rip = 0xffffffffc0000800 + of_nat i, ctx_cs = 8, ctx_rflags = 2, ctx_ss = 16\<rparr>,
      sample_regs\<lparr>rsp := sp - 24\<rparr>)"

theorem kernel_reaches_shutdown_witness:
  "\<exists>r k'. kernel_run sample_boot_env (\<lambda>(r, m). (r\<lparr>rax := 0, rcx := 0, rdx := 0\<rparr>, m)) sample_site
      sample_bd_addr sample_data blank_kernel = Some (Inr (r, k')) \<and>
    reset_type r = 2 \<and> cr3 k' + 0xffffffffb8000000 = 0xffffffffb811e000"
proof -
  let ?call = "\<lambda>(r :: x86_64_registers, m :: mem). (r\<lparr>rax := 0, rcx := 0, rdx := 0\<rparr>, m)"
  have call: "keeps_frame ?call" by (simp add: keeps_frame_def)
  note table = sample_vectors[THEN conjunct1] sample_vectors[THEN conjunct2]
  obtain k' where
    "kernel_run sample_boot_env ?call sample_site sample_bd_addr sample_data blank_kernel =
      Some (Inr (\<lparr>reset_services = RT sample_data, reset_type = EfiResetShutdown, reset_status = 0,
        reset_size = 0, reset_data = 0\<rparr>, k'))"
    "cr3 k' + paddr_base sample_data = 0xffffffffb811e000"
  proof (rule sample_switch)
    fix sp k1
    assume s: "rev (butlast (boot_pages sample_data)) = 0xffffffffb811e000 # tl (rev (butlast sample_pages))"
      "kernel_main sample_boot_env sample_bd_addr sample_data blank_kernel = Inr (sp, k1)"
      "distinct (vpages (space_requests k1))"
      "\<And>v. v \<in> set (relro_pages sample_data) \<Longrightarrow> VPAGE v \<in> set (vpages (space_requests k1))"
      "n_tables (set (map fst (space_requests k1))) \<le> length (tl (rev (butlast sample_pages)))"
      "VPAGE (last (boot_pages sample_data)) \<notin> VPAGE ` set (relro_pages sample_data)"
    show thesis
      using kernel_reaches_shutdown[OF sample_boot_ok s call table, of sample_site] that by blast
  qed
  then show ?thesis by (simp add: EfiResetShutdown_def sample_data_def)
qed

end
