(* ===== verification/System.thy ===== *)
theory System
  imports EfiMain KernelRun
begin

text \<open>
  The loader and the kernel together: what \<open>efi_main\<close> and \<open>efi_main2\<close> leave is what \<open>kernel_main\<close>
  needs, and the memory the boot page tables show is the kernel image of the file.
\<close>

section \<open>The free pages\<close>

text \<open>
  The loader takes the end of the last descriptor but one of the memory map for the size of the
  physical memory. \<open>ram_below sv e\<close>: the firmware's map ends there, at a page boundary that an
  entry can reach, and all pages the firmware gives lie below it.
\<close>

definition ram_below :: "'f services \<Rightarrow> u64 \<Rightarrow> bool" where
  "ram_below sv e \<longleftrightarrow> is_page e \<and> unat e \<le> 2 ^ 48
     \<and> (\<forall>type n f page f1. alloc sv type n f = (Inr page, f1) \<longrightarrow> unat page + 4096 * unat n \<le> unat e)
     \<and> (\<forall>f mm size. LibMemoryMap sv f = Some (mm, size) \<longrightarrow>
          3 \<le> length mm \<and> length mm < 2 ^ 64 \<and> end_of (mm ! (length mm - 2)) = e)"

lemma is_frameI:
  assumes "is_page p" and "unat p < 2 ^ 48"
  shows "is_frame p"
proof -
  have "k < 48" if "bit p k" for k
  proof (rule ccontr)
    assume k: "\<not> k < 48"
    have "(2 :: nat) ^ 48 \<le> 2 ^ k" using k by (intro power_increasing) auto
    then have "unat p div 2 ^ k = 0" using assms(2) by (intro div_less) linarith
    moreover have "odd (unat p div 2 ^ k)" using that by (simp add: bit_unsigned_iff flip: bit_iff_odd)
    ultimately show False by simp
  qed
  then show ?thesis using assms(1) by (auto simp: is_frame_bits is_page_bits not_less[symmetric])
qed

lemma is_page_pages: "is_page (PAGE_SIZE * of_nat i)"
proof -
  have "is_page (0x100000 + PAGE_SIZE * of_nat i - 0x100000)"
    by (intro is_page_minus bump_page) (simp add: is_page_mod)
  then show ?thesis by simp
qed

lemma boot_data_good:
  assumes free: "free_memory b = paddr_base b + free" "is_page free" and n: "n_pages b = 32"
    and base: "paddr_base b + e = KERNEL_BASE" "is_page e" "unat e \<le> 2 ^ 48"
    and below: "unat free + 4096 * 32 \<le> unat e"
  shows "boot_data_ok b"
proof -
  let ?p = "\<lambda>i. free_memory b + PAGE_SIZE * of_nat i"
  have k: "unat KERNEL_BASE = 18446744072635809792" by (simp add: KERNEL_BASE_def)
  have pb: "paddr_base b = KERNEL_BASE - e" using base(1) by (simp add: eq_diff_eq)
  have ub: "unat (paddr_base b) = unat KERNEL_BASE - unat e"
    unfolding pb using base(3) k by (subst unat_sub) (simp_all add: word_le_nat_alt)
  have page: "is_page (paddr_base b)"
    unfolding pb using base(2) by (intro is_page_minus) (simp_all add: is_page_mod KERNEL_BASE_def)
  have off: "unat (free + PAGE_SIZE * of_nat i) = unat free + 4096 * i" if "i < 32" for i
  proof -
    have m: "unat (PAGE_SIZE * of_nat i) = 4096 * i"
      using that by (simp add: PAGE_SIZE_def unat_word_ariths)
    show ?thesis using that below base(3) by (subst unat_plus64) (simp_all add: m)
  qed
  have u: "unat (?p i) = unat (paddr_base b) + unat free + 4096 * i" if "i < 32" for i
  proof -
    have eq: "?p i = paddr_base b + (free + PAGE_SIZE * of_nat i)" by (simp add: free(1))
    have "unat (paddr_base b) + unat (free + PAGE_SIZE * of_nat i) < 2 ^ 64"
      using off[OF that] that below base(3) ub k by simp
    from unat_plus64[OF this] show ?thesis unfolding eq using off[OF that] by simp
  qed
  have 32: "unat (32 :: u64) = 32" by simp
  have "inj_on ?p {0..<32}"
  proof (rule inj_onI)
    fix i j :: nat
    assume i: "i \<in> {0..<32}" and j: "j \<in> {0..<32}" and eq: "?p i = ?p j"
    have "i < 32" "j < 32" using i j by simp_all
    then show "i = j" using u[of i] u[of j] arg_cong[OF eq, of unat] by linarith
  qed
  then have "distinct (boot_pages b)" by (simp add: boot_pages_def n distinct_map)
  moreover have "p \<noteq> 0 \<and> is_page p \<and> is_frame (p - paddr_base b)" if p: "p \<in> set (boot_pages b)" for p
  proof -
    obtain i where i: "i < 32" "p = ?p i" using p by (auto simp: boot_pages_def n)
    have "unat p \<noteq> 0" using u[OF i(1)] ub k base(3) by (simp add: i(2))
    moreover have fp: "is_page (free + PAGE_SIZE * of_nat i)"
      using free(2) is_page_pages by (rule is_page_plus)
    moreover have "p = paddr_base b + (free + PAGE_SIZE * of_nat i)" by (simp add: i(2) free(1))
    moreover have "unat (free + PAGE_SIZE * of_nat i) < 2 ^ 48"
      using off[OF i(1)] i(1) below base(3) by linarith
    ultimately show ?thesis using is_frameI[OF fp] is_page_plus[OF page fp] by auto
  qed
  ultimately show ?thesis by (simp add: boot_data_ok_def n)
qed

lemma boot_pages_cong:
  assumes "free_memory b' = free_memory b" and "n_pages b' = n_pages b" and "paddr_base b' = paddr_base b"
  shows "boot_pages b' = boot_pages b" and "boot_data_ok b' = boot_data_ok b"
  using assms by (simp_all add: boot_data_ok_def boot_pages_def)

text \<open>What \<open>efi_boot\<close> leaves for the kernel is good.\<close>

lemma efi_boot_data:
  assumes ram: "ram_below sv e" and pa: "page_aligned (alloc sv)"
    and fit: "map_fits sv" and run: "efi_boot sv blank s = Inr (sp, h)"
  shows "boot_data_ok (boot_data h)"
proof -
  obtain n h1 h2 where 1: "efi_prepare sv blank s = Inr (n, h1)" and 2: "efi_exit_boot sv n h1 = Inr h2"
    and h: "boot_data h = boot_data h2"
    using run by (auto simp: efi_boot_def bind_eq_Inr case_prod_beta Let_def)
  obtain stack s1 bd_at s2 free s3 mm size ehdr_at phdrs_at s4 root b s5
    where a3: "allocate_pages (alloc sv) 32 s2 = Inr (free, s3)"
    and mm: "LibMemoryMap sv (fw s3) = Some (mm, size)"
    and pr: "prepare_boot_page_tables (alloc sv) mm (of_nat (length mm)) bd_at
        (blank\<lparr>n_pages := 32, free_memory := free\<rparr>) (read_ehdr (lmem s4) ehdr_at)
        (read_phdrs_at (lmem s4) phdrs_at (unat (e_phnum (read_ehdr (lmem s4) ehdr_at)))) s4 = Inr (root, b, s5)"
    and h1: "h1 = \<lparr>boot_page_table = root, boot_data_at = bd_at, boot_data = b, new_stack = stack, machine = s5\<rparr>"
    by (rule efi_prepareE[OF 1])
  define b1 where b1: "b1 = compute_regions mm (of_nat (length mm)) (blank\<lparr>n_pages := 32, free_memory := free\<rparr>)"
  have b: "boot_data h1 = b1\<lparr>free_memory := paddr_base b1 + free_memory b1\<rparr>"
    using pr by (auto simp: h1 b1 prepare_boot_page_tables_def Let_def bind_eq_Inr)
  note give = allocate_pages_fw[OF a3]
  have map: "3 \<le> length mm" "length mm < 2 ^ 64" "end_of (mm ! (length mm - 2)) = e"
    and ends: "is_page e" "unat e \<le> 2 ^ 48"
    using ram mm unfolding ram_below_def by blast+
  have below: "unat free + 4096 * unat (32 :: u64) \<le> unat e"
    using ram give unfolding ram_below_def by blast
  have "unat (of_nat (length mm) :: u64) = length mm" using map(2) by simp
  then have size: "paddr_size b1 = e" using map(1,3) compute_regions_paddr[of "of_nat (length mm)" mm] by (simp add: b1)
  have "paddr_base b1 + e = KERNEL_BASE"
    using compute_regions_layout(1)[of mm "of_nat (length mm)"] by (simp add: b1 flip: size)
  moreover have "is_page free" using pa give unfolding page_aligned_def by (metis fst_conv)
  ultimately have ok: "boot_data_ok (boot_data h1)"
    using ends below by (intro boot_data_good[where free = free and e = e])
      (simp_all add: b b1 compute_regions_keeps)
  obtain b2 where b2: "h2 = h1\<lparr>boot_data := b2\<rparr>"
    "b2 = (boot_data h1)\<lparr>RT := paddr_base (boot_data h1) + RT_at sv, NumEntries := NumEntries b2,
      MemoryMap := MemoryMap b2\<rparr>" using efi_exit_boot_correct[OF 2 fit] by blast
  have "free_memory b2 = free_memory (boot_data h1)" "n_pages b2 = n_pages (boot_data h1)"
    "paddr_base b2 = paddr_base (boot_data h1)"
    by (subst b2(2), simp)+
  then have "boot_data_ok b2" using ok boot_pages_cong(2) by blast
  then show ?thesis by (simp add: h b2(1))
qed

section \<open>The jump to the kernel\<close>

lemma efi_main_boots:
  assumes "efi_main lib img vs sv blank s = Some (Inr (sp, h))"
  obtains s1 where "efi_boot sv blank s1 = Inr (sp, h)"
  using assms by (auto simp: efi_main_def bind_eq_Inr)

lemma efi_main2_data:
  assumes "efi_main2 b vm = Some (Inr (vm', b', entry))"
  shows "b' = b\<lparr>ehdr := ehdr b', phdrs := phdrs b'\<rparr>"
  using assms by (auto simp: efi_main2_def Let_def bind_eq_Inr split: if_splits)

text \<open>
  The memory that \<open>set_cr3\<close> with the boot page tables makes visible: an access to a mapped address
  goes to the frame of its entry.
\<close>

definition boot_view :: "'f handover \<Rightarrow> mem" where
  "boot_view h a = (case boot_translate (machine h) (boot_page_table h) a of
     None \<Rightarrow> 0 | Some e \<Rightarrow> lmem (machine h) ((e AND PTE_ADDR_MASK) + PAGE_OFFSET a))"

text \<open>
  The whole run: the loader, its jump into the page tables it built, and the kernel, whose
  \<open>kernel_main\<close> is at the address the loader jumps to and whose memory is what the loader left.
\<close>

definition system_run ::
  "efilib \<Rightarrow> 'f image_services \<Rightarrow> 'f variables \<Rightarrow> 'f services \<Rightarrow> bootloader_data \<Rightarrow> 'f loader \<Rightarrow> boot_env
    \<Rightarrow> (machine \<Rightarrow> machine) \<Rightarrow> (u64 \<Rightarrow> nat \<Rightarrow> cpu_context \<times> x86_64_registers) \<Rightarrow> kernel
    \<Rightarrow> (reset_call \<times> kernel) result option" where
  "system_run lib img vs sv blank s env after_call site k =
     (case efi_main lib img vs sv blank s of None \<Rightarrow> None | Some (Inl e) \<Rightarrow> Some (Inl e) | Some (Inr (sp, h)) \<Rightarrow>
     (case efi_main2 (boot_data h) (boot_view h) of
        None \<Rightarrow> None | Some (Inl e) \<Rightarrow> Some (Inl e) | Some (Inr (vm, b, entry)) \<Rightarrow>
     kernel_run env after_call site (paddr_base b + boot_data_at h) b (k\<lparr>kmem := vm\<rparr>)))"

text \<open>The boot data after \<open>efi_main2\<close>, with the runtime services where the kernel maps them.\<close>

lemma efi_main2_ready:
  assumes "ram_below sv e" and "page_aligned (alloc sv)" and "map_fits sv"
    and boot: "efi_boot sv blank s = Inr (sp, h)"
    and jump: "efi_main2 (boot_data h) vm = Some (Inr (vm', b, entry))"
  shows "boot_data_ok b" and "RT b = paddr_base b + RT_at sv"
    and "free_memory b = free_memory (boot_data h)" and "n_pages b = n_pages (boot_data h)"
    and "paddr_base b = paddr_base (boot_data h)"
proof -
  obtain n h1 h2 where 2: "efi_exit_boot sv n h1 = Inr h2" and h: "boot_data h = boot_data h2"
    using boot by (auto simp: efi_boot_def bind_eq_Inr case_prod_beta Let_def)
  obtain b2 where b2: "h2 = h1\<lparr>boot_data := b2\<rparr>"
    "b2 = (boot_data h1)\<lparr>RT := paddr_base (boot_data h1) + RT_at sv, NumEntries := NumEntries b2,
      MemoryMap := MemoryMap b2\<rparr>" using efi_exit_boot_correct[OF 2 assms(3)] by blast
  have rt: "RT (boot_data h) = paddr_base (boot_data h) + RT_at sv"
    unfolding h b2(1) by simp (subst (1 2) b2(2), simp)
  show same: "free_memory b = free_memory (boot_data h)" "n_pages b = n_pages (boot_data h)"
    "paddr_base b = paddr_base (boot_data h)"
    by (subst efi_main2_data[OF jump], simp)+
  then show "boot_data_ok b"
    using efi_boot_data[OF assms(1-3) boot] boot_pages_cong(2)[OF same] by simp
  have "RT b = RT (boot_data h)" by (subst efi_main2_data[OF jump]) simp
  then show "RT b = paddr_base b + RT_at sv" using rt same(3) by simp
qed

section \<open>The image in virtual memory\<close>

lemma quad_byte:
  assumes "load64 m' (a AND NOT 7) = load64 m (a AND NOT 7)"
  shows "m' a = m a"
proof -
  let ?b = "a AND NOT 7" and ?i = "unat (a AND 7)"
  have "\<not> bit ?b n \<or> \<not> bit (a AND 7) n" for n by (auto simp: bit_simps)
  then have "?b + (a AND 7) = ?b OR (a AND 7)" by (rule disjunctive_add)
  also have "\<dots> = a" unfolding word_eq_bits by (auto simp: bit_simps dest: bit_imp_le_length)
  finally have a: "a = ?b + of_nat ?i" by simp
  have "?i < 8"
  proof -
    have "a AND 7 = take_bit 3 a" by (simp add: seven_mask and_mask_take_bit)
    then have "?i = take_bit 3 (unat a)" by (simp add: unsigned_take_bit_eq)
    then show ?thesis using take_bit_nat_less_exp[of 3 "unat a"] by simp
  qed
  moreover have "load_bytes m' ?b 8 = load_bytes m ?b 8"
    using arg_cong[OF assms, of "le_bytes 8"] le_bytes_le_word[where ?'a = 64, of "load_bytes m' ?b 8"]
      le_bytes_le_word[where ?'a = 64, of "load_bytes m ?b 8"]
    by (simp add: load64_def del: load_bytes_numeral)
  ultimately have "m' (?b + of_nat ?i) = m (?b + of_nat ?i)"
    unfolding load_bytes_def map_eq_conv set_upt by (metis atLeastLessThan_iff zero_le)
  then show ?thesis unfolding a[symmetric] .
qed

lemma agree_byte:
  assumes "agree_on (\<lambda>x. x \<notin> Q) (lrd s) (lrd s')" and "PAGE_BASE x \<notin> Q"
  shows "lmem s' x = lmem s x"
proof (rule quad_byte)
  have m: "(7 :: u64) = mask 3" by (rule seven_mask)
  have "aligned8 (x AND NOT 7)" by (auto simp: aligned8_bits m bit_simps)
  moreover have "PAGE_BASE (x AND NOT 7) = PAGE_BASE x"
    unfolding word_eq_bits by (auto simp: bit_PAGE_BASE m bit_simps dest: bit_imp_le_length)
  ultimately show "load64 (lmem s') (x AND NOT 7) = load64 (lmem s) (x AND NOT 7)"
    using assms by (simp add: agree_on_def lrd_def)
qed

lemma VPAGE_PAGE_BASE: "VPAGE (PAGE_BASE a) = VPAGE a"
  unfolding VPAGE_def word_eq_bits by (auto simp: bit_and_iff bit_addr_mask bit_PAGE_BASE)

lemma page_offset_byte:
  assumes "is_page p" and "r < 4096"
  shows "PAGE_BASE (p + of_nat r) = p" and "PAGE_OFFSET (p + of_nat r) = of_nat r"
proof -
  have "unat (PAGE_OFFSET (of_nat r)) = r" using assms(2) by (simp add: unat_PAGE_OFFSET)
  from arg_cong[OF this, of "of_nat :: nat \<Rightarrow> u64"]
  have "PAGE_OFFSET (of_nat r) = of_nat r" by simp
  then show "PAGE_BASE (p + of_nat r) = p" "PAGE_OFFSET (p + of_nat r) = of_nat r"
    using page_plus_offset[OF assms(1), of "of_nat r"] by simp_all
qed

text \<open>An address of a segment, as a page of it and an offset.\<close>

lemma segment_byte:
  assumes "d < unat sz" and "unat sz < 2 ^ 63" and "j = (unat (PAGE_OFFSET v) + d) div 4096"
    and "r = (unat (PAGE_OFFSET v) + d) mod 4096"
  shows "j < unat (NUM_PAGES v sz)" and "r < 4096"
    and "PAGE_OFFSET a = PAGE_OFFSET v \<Longrightarrow> a + of_nat d = PAGE_BASE a + PAGE_SIZE * of_nat j + of_nat r"
proof -
  have "unat (PAGE_OFFSET v) + d < 4096 * unat (NUM_PAGES v sz)"
    using NUM_PAGES_covers[OF assms(2), of v] assms(1) by linarith
  then show "j < unat (NUM_PAGES v sz)" unfolding assms(3) by (simp add: less_mult_imp_div_less mult.commute)
  show "r < 4096" by (simp add: assms(4))
  assume o: "PAGE_OFFSET a = PAGE_OFFSET v"
  have "unat (PAGE_OFFSET v) + d = 4096 * j + r" by (simp add: assms(3,4))
  from arg_cong[OF this, of "of_nat :: nat \<Rightarrow> u64"]
  have "PAGE_OFFSET v + of_nat d = of_nat (4096 * j + r)" by simp
  moreover have "a + of_nat d = PAGE_BASE a + (PAGE_OFFSET v + of_nat d)"
    using PAGE_split[of a] o by (simp flip: add.assoc)
  ultimately show "a + of_nat d = PAGE_BASE a + PAGE_SIZE * of_nat j + of_nat r"
    by (simp add: PAGE_SIZE_def add.assoc)
qed

lemma segment_view:
  assumes tr: "\<And>j. j < unat (NUM_PAGES v sz) \<Longrightarrow>
      boot_translate (machine h) (boot_page_table h) (PAGE_BASE v + PAGE_SIZE * of_nat j) =
        Some ((PAGE_BASE p + PAGE_SIZE * of_nat j) OR PTE_P OR flags)"
    and flags: "flags = 0 \<or> flags = PTE_RW" and off: "PAGE_OFFSET p = PAGE_OFFSET v"
    and low: "unat (PAGE_BASE p) + 4096 * unat (NUM_PAGES v sz) \<le> 2 ^ 48"
    and d: "d < unat sz" "unat sz < 2 ^ 63"
  shows "boot_view h (v + of_nat d) = lmem (machine h) (p + of_nat d)"
proof -
  define j where "j = (unat (PAGE_OFFSET v) + d) div 4096"
  define r where "r = (unat (PAGE_OFFSET v) + d) mod 4096"
  note seg = segment_byte[OF d j_def r_def]
  let ?v = "PAGE_BASE v + PAGE_SIZE * of_nat j" and ?p = "PAGE_BASE p + PAGE_SIZE * of_nat j"
  have pages: "is_page ?v" "is_page ?p" by (intro is_page_plus is_page_PAGE_BASE is_page_pages)+
  have va: "v + of_nat d = ?v + of_nat r" and pa: "p + of_nat d = ?p + of_nat r"
    using seg(3)[of v] seg(3)[OF off] by simp_all
  have "boot_translate (machine h) (boot_page_table h) (v + of_nat d) =
      boot_translate (machine h) (boot_page_table h) ?v"
    using page_like_walk VPAGE_PAGE_BASE[of "v + of_nat d"] page_offset_byte(1)[OF pages(1) seg(2)]
    unfolding va page_like_def boot_translate_def[abs_def] by metis
  moreover have "((?p OR PTE_P OR flags) AND PTE_ADDR_MASK) = ?p"
  proof -
    have "unat (PAGE_SIZE * of_nat j) = 4096 * j"
      using seg(1) low by (simp add: PAGE_SIZE_def unat_word_ariths)
    then have "unat ?p < 2 ^ 48" using seg(1) low by (subst unat_plus64) simp_all
    then have "is_frame ?p" by (rule is_frameI[OF pages(2)])
    then show ?thesis
      using flags by (auto simp: entry_frame) (simp add: word_eq_bits bit_simps is_frame_bits bit_addr_mask PTE_P_def, auto)
  qed
  ultimately show ?thesis
    using tr[OF seg(1)] page_offset_byte(2)[OF pages(1) seg(2)] by (simp add: boot_view_def va pa)
qed

text \<open>A loaded segment: where it is and which allocation made its room.\<close>

definition placed :: "'f firmware \<Rightarrow> 'f \<Rightarrow> 'f \<Rightarrow> Elf64_Phdr \<Rightarrow> bool" where
  "placed bs f0 f1 ph \<longleftrightarrow> p_type ph = PT_LOAD \<and> unat (p_memsz ph) < 2 ^ 63
     \<and> PAGE_OFFSET (p_paddr ph) = PAGE_OFFSET (p_vaddr ph)
     \<and> (\<exists>f f'. later bs f0 f \<and> roomed bs f f' ph \<and> later bs f' f1)"

lemma placed_room:
  assumes "placed bs f0 f1 ph" and "d < unat (p_memsz ph)"
  shows "room ph (p_paddr ph + of_nat d)" and "room ph (PAGE_BASE (p_paddr ph + of_nat d))"
proof -
  define j where "j = (unat (PAGE_OFFSET (p_vaddr ph)) + d) div 4096"
  define r where "r = (unat (PAGE_OFFSET (p_vaddr ph)) + d) mod 4096"
  have sz: "unat (p_memsz ph) < 2 ^ 63" and off: "PAGE_OFFSET (p_paddr ph) = PAGE_OFFSET (p_vaddr ph)"
    using assms(1) by (simp_all add: placed_def)
  note seg = segment_byte[OF assms(2) sz j_def r_def]
  let ?p = "PAGE_BASE (p_paddr ph) + PAGE_SIZE * of_nat j"
  have at: "p_paddr ph + of_nat d = ?p + of_nat r" by (rule seg(3)[OF off])
  have "is_page ?p" by (intro is_page_plus is_page_PAGE_BASE is_page_pages)
  then have base: "PAGE_BASE (p_paddr ph + of_nat d) = ?p" unfolding at using seg(2) by (rule page_offset_byte(1))
  have "room ph (PAGE_BASE (p_paddr ph) + of_nat (4096 * j + k))" if "k < 4096" for k
    unfolding room_def using seg(1) that by (intro in_region_offset NUM_PAGES_bytes) linarith
  from this[of r] this[of 0] seg(2) show "room ph (p_paddr ph + of_nat d)"
    and "room ph (PAGE_BASE (p_paddr ph + of_nat d))"
    unfolding base unfolding at by (simp_all add: PAGE_SIZE_def add.assoc)
qed

lemma image_request_mem:
  assumes "i < unat (e_phnum hdr)" and "p_type (phs ! i) = PT_LOAD"
    and "j < unat (NUM_PAGES (p_vaddr (phs ! i)) (p_memsz (phs ! i)))"
  shows "(PAGE_BASE (p_vaddr (phs ! i)) + PAGE_SIZE * of_nat j, PAGE_BASE (p_paddr (phs ! i)) + PAGE_SIZE * of_nat j,
    if p_flags (phs ! i) AND PF_W \<noteq> 0 then PTE_RW else 0) \<in> set (boot_requests mm n bd_at b hdr phs)"
proof -
  have "(PAGE_BASE (p_vaddr (phs ! i)) + PAGE_SIZE * of_nat j, PAGE_BASE (p_paddr (phs ! i)) + PAGE_SIZE * of_nat j,
    if p_flags (phs ! i) AND PF_W \<noteq> 0 then PTE_RW else 0) \<in> set (image_requests phs i)"
    using range_request_mem[OF assms(3)] assms(2) by (simp add: image_requests_def Let_def)
  then show ?thesis using assms(1) by (auto simp: boot_requests_def)
qed

text \<open>Through the boot page tables the segments are seen as \<open>load_kernel\<close> left them.\<close>

lemma new_stack_outside:
  assumes sg: "separate_given bs" and a1: "allocate_pages bs 1 s = Inr (stack, s1)"
    and f: "later bs (fw s1) f" and given: "bs type n f = (Inr q, f')"
    and x: "in_region q (4096 * unat n) x"
  shows "store64 m (stack + PAGE_SIZE - 8) 0 x = m x"
proof -
  have "\<not> in_region stack (4096 * unat (1 :: u64)) x"
    using sg allocate_pages_fw[OF a1] f given x unfolding separate_given_def by blast
  then have "\<not> in_region (stack + of_nat 4088) 8 x"
    using in_region_sub[of stack 4088 8 x 4096] by auto
  then have "store64 m (stack + of_nat 4088) 0 x = m x" by (rule store64_outside)
  then show ?thesis by (simp add: PAGE_SIZE_def add.commute)
qed

lemma efi_boot_view:
  assumes ff: "finite_frames (alloc sv)" and lg: "lists_given sv" and sg: "separate_given (alloc sv)"
    and pa: "page_aligned (alloc sv)" and fit: "map_fits sv" and ram: "ram_below sv e"
    and run: "efi_boot sv blank s = Inr (sp, h)"
  obtains s3 ehdr_at phdrs_at s4 where
    "load_kernel (alloc sv) (pool sv) (Open sv (fw s3)) s3 = Inr (ehdr_at, phdrs_at, s4)"
    and "\<And>phs i d. phs = read_phdrs_at (lmem s4) phdrs_at (unat (e_phnum (read_ehdr (lmem s4) ehdr_at))) \<Longrightarrow>
      i < unat (e_phnum (read_ehdr (lmem s4) ehdr_at)) \<Longrightarrow> placed (alloc sv) (fw s3) (fw s4) (phs ! i) \<Longrightarrow>
      d < unat (p_memsz (phs ! i)) \<Longrightarrow>
      boot_view h (p_vaddr (phs ! i) + of_nat d) = lmem s4 (p_paddr (phs ! i) + of_nat d)"
proof -
  obtain n h1 h2 where 1: "efi_prepare sv blank s = Inr (n, h1)" and 2: "efi_exit_boot sv n h1 = Inr h2"
    and h: "h = h2\<lparr>machine := snd (efi_setup_new_stack (new_stack h2) (machine h2))\<rparr>"
    using run by (auto simp: efi_boot_def bind_eq_Inr case_prod_beta Let_def)
  obtain b2 where h2: "h2 = h1\<lparr>boot_data := b2\<rparr>" using efi_exit_boot_correct[OF 2 fit] by blast
  obtain stack s1 bd_at s2 free s3 mm size ehdr_at phdrs_at s4 b1 s5 root st qs
    where a1: "allocate_pages (alloc sv) 1 s = Inr (stack, s1)"
    and a2: "allocate_pages (alloc sv) 2 s1 = Inr (bd_at, s2)"
    and a3: "allocate_pages (alloc sv) 32 s2 = Inr (free, s3)"
    and "LibMemoryMap sv (fw s3) = Some (mm, size)"
    and lk: "load_kernel (alloc sv) (pool sv) (Open sv (fw s3)) s3 = Inr (ehdr_at, phdrs_at, s4)"
    and "b1 = compute_regions mm (of_nat (length mm)) (blank\<lparr>n_pages := 32, free_memory := free\<rparr>)"
    and h1: "h1 = \<lparr>boot_page_table = root, boot_data_at = bd_at,
      boot_data = b1\<lparr>free_memory := paddr_base b1 + free_memory b1\<rparr>, new_stack = stack, machine = s5\<rparr>"
    and g: "gives (alloc sv) st (fw s4) qs" and "set (tabs (lrd s5) 0 3 root) \<subseteq> set qs"
    and tr: "\<And>v p flags. (v, p, flags) \<in> set (boot_requests mm (of_nat (length mm)) bd_at b1
        (read_ehdr (lmem s4) ehdr_at)
        (read_phdrs_at (lmem s4) phdrs_at (unat (e_phnum (read_ehdr (lmem s4) ehdr_at))))) \<Longrightarrow>
      boot_translate s5 root v = Some (p OR PTE_P OR flags)"
    and agree: "agree_on (\<lambda>x. x \<notin> set qs) (lrd s4) (lrd s5)"
    by (rule efi_prepare_tables[OF ff 1]) blast
  let ?m = "store64 (lmem s5) (stack + PAGE_SIZE - 8) 0"
  have mh: "machine h = s5\<lparr>lmem := ?m\<rparr>" and root: "boot_page_table h = root"
    by (simp_all add: h h2 h1 efi_setup_new_stack_def Let_def)
  have stack: "is_page stack" and tabs: "\<forall>x \<in> set (tabs (lrd s5) 0 3 root). is_page x"
    "stack \<notin> set (tabs (lrd s5) 0 3 root)"
    using efi_prepare_correct[OF ff lg sg pa 1] by (auto simp: h1)
  have same: "boot_translate (machine h) root w = boot_translate s5 root w" for w
    unfolding mh by (rule walk_other_page[OF tabs(1)]) (simp_all add: last_quad[OF stack] tabs(2))
  have "boot_view h (p_vaddr ph + of_nat d) = lmem s4 (p_paddr ph + of_nat d)"
    if phs: "phs = read_phdrs_at (lmem s4) phdrs_at (unat (e_phnum (read_ehdr (lmem s4) ehdr_at)))"
      and i: "i < unat (e_phnum (read_ehdr (lmem s4) ehdr_at))" and ph: "ph = phs ! i"
      and pl: "placed (alloc sv) (fw s3) (fw s4) ph" and d: "d < unat (p_memsz ph)" for phs i ph d
  proof -
    let ?x = "p_paddr ph + of_nat d" and ?n = "NUM_PAGES (p_vaddr ph) (p_memsz ph)"
    obtain f f' type where f: "later (alloc sv) (fw s3) f" "later (alloc sv) f' (fw s4)"
      and given: "alloc sv type ?n f = (Inr (PAGE_BASE (p_paddr ph)), f')"
      using pl by (auto simp: placed_def roomed_def)
    note room = placed_room[OF pl d, unfolded room_def]
    have "boot_view h (p_vaddr ph + of_nat d) = lmem (machine h) ?x"
    proof (rule segment_view)
      show "unat (PAGE_BASE (p_paddr ph)) + 4096 * unat ?n \<le> 2 ^ 48"
        using ram given le_trans unfolding ram_below_def by blast
      show "boot_translate (machine h) (boot_page_table h) (PAGE_BASE (p_vaddr ph) + PAGE_SIZE * of_nat j) =
          Some ((PAGE_BASE (p_paddr ph) + PAGE_SIZE * of_nat j) OR PTE_P OR
            (if p_flags ph AND PF_W \<noteq> 0 then PTE_RW else 0))" if "j < unat ?n" for j
        unfolding root same using image_request_mem[OF i, of phs j] that pl phs
        by (intro tr) (simp add: ph placed_def)
    qed (use pl d in \<open>auto simp: placed_def\<close>)
    also have "\<dots> = lmem s5 ?x"
      using new_stack_outside[OF sg a1 later_trans[OF f(1) later_trans[OF later_allocate[OF a3]
            later_allocate[OF a2]]] given room(1)] by (simp add: mh)
    also have "\<dots> = lmem s4 ?x"
      by (rule agree_byte[OF agree given_before[OF sg given room(2) f(2) g]])
    finally show ?thesis .
  qed
  then show thesis using that[OF lk] by blast
qed

lemma read_ehdr_cong:
  assumes "\<And>d. d < 64 \<Longrightarrow> m (a + of_nat d) = m' (a' + of_nat d)"
  shows "read_ehdr m a = read_ehdr m' a'"
proof -
  have "load_bytes m a sizeof_Ehdr = load_bytes m' a' sizeof_Ehdr"
    using assms by (simp add: load_bytes_def sizeof_Ehdr_def)
  then show ?thesis by (simp add: read_ehdr_def)
qed

lemma read_phdrs_cong:
  assumes "\<And>d. d < k + 56 * n \<Longrightarrow> m (a + of_nat d) = m' (a' + of_nat d)"
  shows "read_phdrs_at m (a + of_nat k) n = read_phdrs_at m' (a' + of_nat k) n"
proof -
  have "load_bytes m (a + of_nat k + of_nat sizeof_Phdr * of_nat i) sizeof_Phdr =
      load_bytes m' (a' + of_nat k + of_nat sizeof_Phdr * of_nat i) sizeof_Phdr" if "i < n" for i
  proof -
    have at: "x + of_nat k + of_nat sizeof_Phdr * of_nat i + of_nat d = x + of_nat (k + 56 * i + d)"
      for x :: u64 and d by (simp add: sizeof_Phdr_def)
    have "k + 56 * i + d < k + 56 * n" if "d < 56" for d using \<open>i < n\<close> that by linarith
    then show ?thesis
      unfolding load_bytes_def at by (intro map_cong refl assms) (simp add: sizeof_Phdr_def)
  qed
  then show ?thesis by (simp add: read_phdrs_at_def)
qed

text \<open>The segments that \<open>load_elf_pages\<close> placed.\<close>

lemma loaded_placed:
  assumes load: "load_elf_pages bs File hdr phs s = Inr (phs', s')" and pa: "page_aligned bs"
    and n: "n = unat (e_phnum hdr)" "n \<le> length phs"
    and fit: "\<And>i. i < n \<Longrightarrow> p_type (phs ! i) = PT_LOAD \<Longrightarrow> fits (phs ! i)"
    and sg: "separate_given bs" and i: "i < n" "p_type (phs ! i) = PT_LOAD"
  shows "placed bs (fw s) (fw s') (phs' ! i)"
    and "p_vaddr (phs' ! i) = KERNEL_BASE + p_vaddr (phs ! i)" and "p_memsz (phs' ! i) = p_memsz (phs ! i)"
proof -
  note c = load_elf_pages_correct[OF pa load n fit sg]
  have "phs' ! i = (move_phdr (phs ! i))\<lparr>p_paddr := p_paddr (phs' ! i)\<rparr>" using c i(1) by blast
  then have "same_segment (phs ! i) (phs' ! i)" by (simp add: same_segment_def)
  note f = same_segmentD[OF this]
  have t: "PT_LOAD \<noteq> PT_GNU_STACK" by (simp add: elf_consts)
  show "p_vaddr (phs' ! i) = KERNEL_BASE + p_vaddr (phs ! i)" "p_memsz (phs' ! i) = p_memsz (phs ! i)"
    using f i(2) t by simp_all
  show "placed bs (fw s) (fw s') (phs' ! i)"
    using load_elf_pages_rooms(1)[OF load pa n sg] c i fit[OF i] f
    by (auto simp: placed_def fits_def)
qed

text \<open>The image in memory: its headers, and outside of them the bytes of the file.\<close>

definition image_at ::
  "mem \<Rightarrow> u8 list \<Rightarrow> Elf64_Phdr list \<Rightarrow> nat \<Rightarrow> Elf64_Phdr list \<Rightarrow> bool" where
  "image_at m content phs k phs' \<longleftrightarrow>
     (\<forall>i < length phs. \<forall>d < unat (p_filesz (phs ! i)). p_type (phs ! i) = PT_LOAD \<longrightarrow> (i = 0 \<longrightarrow> k \<le> d) \<longrightarrow>
        m (p_paddr (phs' ! i) + of_nat d) = content ! (unat (p_offset (phs ! i)) + d))"

text \<open>No byte of a segment outside the headers is a byte of the headers.\<close>

lemma header_apart:
  assumes rooms: "\<forall>i j x. i \<noteq> j \<and> i < n \<and> j < n \<and> p_type (phs ! i) = PT_LOAD \<and> p_type (phs ! j) = PT_LOAD \<longrightarrow>
      \<not> (room (phs' ! i) x \<and> room (phs' ! j) x)"
    and i: "i < n" "p_type (phs ! i) = PT_LOAD" "placed bs f f' (phs' ! i)" "d < unat (p_memsz (phs' ! i))"
    and first: "0 < n" "p_type (phs ! 0) = PT_LOAD" "placed bs f f' (phs' ! 0)" "k \<le> unat (p_memsz (phs' ! 0))"
    and d: "i = 0 \<longrightarrow> k \<le> d"
  shows "\<not> in_region (p_paddr (phs' ! 0)) k (p_paddr (phs' ! i) + of_nat d)"
proof
  assume "in_region (p_paddr (phs' ! 0)) k (p_paddr (phs' ! i) + of_nat d)"
  then obtain c where c: "c < k" "p_paddr (phs' ! i) + of_nat d = p_paddr (phs' ! 0) + of_nat c"
    by (rule in_regionE)
  then have cm: "c < unat (p_memsz (phs' ! 0))" using first(4) by linarith
  show False
  proof (cases "i = 0")
    case True
    have "d < 18446744073709551616" by (rule less_trans[OF i(4) unat_lt64])
    moreover have "c < 18446744073709551616" by (rule less_trans[OF cm unat_lt64])
    ultimately show False using c True d by (simp add: of_nat64_inj)
  next
    case False
    then show False
      using rooms i(1,2) first(1,2) placed_room(1)[OF i(3,4)] placed_room(1)[OF first(3) cm] c(2) by metis
  qed
qed

lemma segment_bytes:
  assumes load: "efi_read File (p_offset ph) (p_filesz ph) = Inr (load_bytes m a (unat (p_filesz ph)))"
    and has: "file_has File content" and d: "d < unat (p_filesz ph)"
  shows "m (a + of_nat d) = content ! (unat (p_offset ph) + d)"
proof -
  from efi_read_content[OF has load]
  have bytes: "load_bytes m a (unat (p_filesz ph)) =
      take (unat (p_filesz ph)) (drop (unat (p_offset ph)) content)" ..
  have "d < length (take (unat (p_filesz ph)) (drop (unat (p_offset ph)) content))"
    using d unfolding bytes[symmetric] by simp
  then have "d < length content - unat (p_offset ph)" "d < unat (p_filesz ph)" by simp_all
  then show ?thesis using arg_cong[OF bytes, of "\<lambda>xs. xs ! d"] by (simp add: load_bytes_def)
qed

lemma load_kernel_image:
  assumes pa: "page_aligned bs" and sg: "separate_given bs" and has: "file_has File content"
    and run: "load_kernel bs has_pool (Inr File) s = Inr (ehdr_at, phdrs_at, s')"
    and hdr: "hdr = decode_Ehdr (take 64 content)" and n: "n = unat (e_phnum hdr)"
    and phs: "phs = map (file_phdr content) [0..<n]"
    and fit: "\<And>i. i < n \<Longrightarrow> p_type (phs ! i) = PT_LOAD \<Longrightarrow> fits (phs ! i)"
    and inside: "64 \<le> unat (e_phoff hdr)" "unat (e_phoff hdr) + 56 * n \<le> unat (p_filesz (phs ! 0))"
  shows "\<exists>phs'. ehdr_at = p_paddr (phs' ! 0) \<and> phdrs_at = ehdr_at + e_phoff hdr
    \<and> read_ehdr (lmem s') ehdr_at = hdr\<lparr>e_entry := e_entry hdr + KERNEL_BASE\<rparr>
    \<and> read_phdrs_at (lmem s') phdrs_at n = phs' \<and> 0 < n \<and> p_type (phs ! 0) = PT_LOAD
    \<and> (\<forall>i < n. phs' ! i = (move_phdr (phs ! i))\<lparr>p_paddr := p_paddr (phs' ! i)\<rparr>)
    \<and> (\<forall>i < n. p_type (phs ! i) = PT_LOAD \<longrightarrow> placed bs (fw s) (fw s') (phs' ! i)
        \<and> p_vaddr (phs' ! i) = KERNEL_BASE + p_vaddr (phs ! i) \<and> p_memsz (phs' ! i) = p_memsz (phs ! i))
    \<and> image_at (lmem s') content phs (unat (e_phoff hdr) + 56 * n) phs'"
proof -
  obtain phs' s1 where load: "load_elf_pages bs File hdr phs s = Inr (phs', s1)"
    and at: "ehdr_at = p_paddr (phs' ! 0)" "phdrs_at = ehdr_at + e_phoff hdr"
    and rd: "read_ehdr (lmem s') ehdr_at = hdr\<lparr>e_entry := e_entry hdr + KERNEL_BASE\<rparr>"
      "read_phdrs_at (lmem s') phdrs_at n = phs'" and fw: "fw s' = fw s1"
    and out: "\<And>x. \<not> in_region ehdr_at (unat (e_phoff hdr) + 56 * n) x \<Longrightarrow> lmem s' x = lmem s1 x"
    and t0: "p_type (phs ! 0) = PT_LOAD" and n0: "0 < n"
    using load_kernel_correct[OF pa sg has run hdr n phs fit inside] by blast
  have len: "n \<le> length phs" by (simp add: phs)
  note places = load_elf_pages_correct[OF pa load n len fit sg]
  have pl: "placed bs (fw s) (fw s1) (phs' ! i)" "p_vaddr (phs' ! i) = KERNEL_BASE + p_vaddr (phs ! i)"
    "p_memsz (phs' ! i) = p_memsz (phs ! i)" if "i < n" "p_type (phs ! i) = PT_LOAD" for i
    using loaded_placed[OF load pa n len _ sg that] fit by blast+
  have sz: "unat (p_filesz (phs ! i)) \<le> unat (p_memsz (phs' ! i))" if "i < n" "p_type (phs ! i) = PT_LOAD" for i
    using fit[OF that] pl(3)[OF that] by (simp add: fits_def word_le_nat_alt)
  have "lmem s' (p_paddr (phs' ! i) + of_nat d) = content ! (unat (p_offset (phs ! i)) + d)"
    if i: "i < n" "p_type (phs ! i) = PT_LOAD" and d: "d < unat (p_filesz (phs ! i))"
      "i = 0 \<longrightarrow> unat (e_phoff hdr) + 56 * n \<le> d" for i d
  proof -
    have "\<not> in_region ehdr_at (unat (e_phoff hdr) + 56 * n) (p_paddr (phs' ! i) + of_nat d)"
      unfolding at(1) using d sz[OF i] sz[OF n0 t0] inside(2)
      by (intro header_apart[OF load_elf_pages_rooms(2)[OF load pa n len sg] i pl(1)[OF i] _ n0 t0 pl(1)[OF n0 t0]])
        linarith+
    then show ?thesis using out segment_bytes[OF _ has d(1), of "lmem s1"] places i by auto
  qed
  then have "image_at (lmem s') content phs (unat (e_phoff hdr) + 56 * n) phs'"
    by (simp add: image_at_def phs)
  then show ?thesis using at rd t0 n0 pl places fw by (intro exI[of _ phs']) auto
qed

lemma kernel_view:
  assumes promises: "finite_frames (alloc sv)" "lists_given sv" "separate_given (alloc sv)"
      "page_aligned (alloc sv)" "map_fits sv" "ram_below sv e"
    and run: "efi_boot sv blank s = Inr (sp, h)"
    and opened: "\<And>f. Open sv f = Inr File" and has: "file_has File content"
    and hdr: "hdr = decode_Ehdr (take 64 content)" and n: "n = unat (e_phnum hdr)"
    and phs: "phs = map (file_phdr content) [0..<n]"
    and fit: "\<And>i. i < n \<Longrightarrow> p_type (phs ! i) = PT_LOAD \<Longrightarrow> fits (phs ! i)"
    and inside: "64 \<le> unat (e_phoff hdr)" "unat (e_phoff hdr) + 56 * n \<le> unat (p_filesz (phs ! 0))"
    and linked: "p_vaddr (phs ! 0) = 0"
  shows "read_ehdr (boot_view h) KERNEL_BASE = hdr\<lparr>e_entry := e_entry hdr + KERNEL_BASE\<rparr>"
    and "\<forall>i < n. let ph = read_phdrs_at (boot_view h) (KERNEL_BASE + e_phoff hdr) n ! i in
      ph = (move_phdr (phs ! i))\<lparr>p_paddr := p_paddr ph\<rparr>"
    and "\<forall>i < n. \<forall>d < unat (p_filesz (phs ! i)). p_type (phs ! i) = PT_LOAD \<longrightarrow>
      (i = 0 \<longrightarrow> unat (e_phoff hdr) + 56 * n \<le> d) \<longrightarrow>
      boot_view h (KERNEL_BASE + p_vaddr (phs ! i) + of_nat d) = content ! (unat (p_offset (phs ! i)) + d)"
proof -
  obtain s3 ehdr_at phdrs_at s4 where
    lk: "load_kernel (alloc sv) (pool sv) (Inr File) s3 = Inr (ehdr_at, phdrs_at, s4)"
    and view: "\<And>ps i d. ps = read_phdrs_at (lmem s4) phdrs_at (unat (e_phnum (read_ehdr (lmem s4) ehdr_at))) \<Longrightarrow>
      i < unat (e_phnum (read_ehdr (lmem s4) ehdr_at)) \<Longrightarrow> placed (alloc sv) (fw s3) (fw s4) (ps ! i) \<Longrightarrow>
      d < unat (p_memsz (ps ! i)) \<Longrightarrow>
      boot_view h (p_vaddr (ps ! i) + of_nat d) = lmem s4 (p_paddr (ps ! i) + of_nat d)"
    by (rule efi_boot_view[OF promises run]) (simp add: opened)
  obtain phs' where at: "ehdr_at = p_paddr (phs' ! 0)" "phdrs_at = ehdr_at + e_phoff hdr"
    and eh: "read_ehdr (lmem s4) ehdr_at = hdr\<lparr>e_entry := e_entry hdr + KERNEL_BASE\<rparr>"
    and ps: "read_phdrs_at (lmem s4) phdrs_at n = phs'" and n0: "0 < n" and t0: "p_type (phs ! 0) = PT_LOAD"
    and moved: "\<forall>i < n. phs' ! i = (move_phdr (phs ! i))\<lparr>p_paddr := p_paddr (phs' ! i)\<rparr>"
    and pl: "\<And>i. i < n \<Longrightarrow> p_type (phs ! i) = PT_LOAD \<Longrightarrow> placed (alloc sv) (fw s3) (fw s4) (phs' ! i)
        \<and> p_vaddr (phs' ! i) = KERNEL_BASE + p_vaddr (phs ! i) \<and> p_memsz (phs' ! i) = p_memsz (phs ! i)"
    and image: "image_at (lmem s4) content phs (unat (e_phoff hdr) + 56 * n) phs'"
    using load_kernel_image[OF promises(4,3) has lk hdr n phs fit inside] by blast
  have seen: "boot_view h (KERNEL_BASE + p_vaddr (phs ! i) + of_nat d) = lmem s4 (p_paddr (phs' ! i) + of_nat d)"
    if "i < n" "p_type (phs ! i) = PT_LOAD" "d < unat (p_filesz (phs ! i))" for i d
    using view[of phs' i d] pl[OF that(1,2)] fit[OF that(1,2)] that(3) that ps eh n
    by (simp add: fits_def word_le_nat_alt)
  have first: "boot_view h (KERNEL_BASE + of_nat d) = lmem s4 (ehdr_at + of_nat d)"
    if "d < unat (e_phoff hdr) + 56 * n" for d
    using seen[OF n0 t0, of d] inside(2) that by (simp add: linked at(1))
  show "read_ehdr (boot_view h) KERNEL_BASE = hdr\<lparr>e_entry := e_entry hdr + KERNEL_BASE\<rparr>"
    unfolding eh[symmetric] using inside(1) by (intro read_ehdr_cong first) simp
  have "read_phdrs_at (boot_view h) (KERNEL_BASE + of_nat (unat (e_phoff hdr))) n = phs'"
    unfolding ps[symmetric] at(2) using read_phdrs_cong[of "unat (e_phoff hdr)" n "boot_view h" KERNEL_BASE, OF first]
    by simp
  then show "\<forall>i < n. let ph = read_phdrs_at (boot_view h) (KERNEL_BASE + e_phoff hdr) n ! i in
      ph = (move_phdr (phs ! i))\<lparr>p_paddr := p_paddr ph\<rparr>"
    using moved by (simp add: Let_def)
  show "\<forall>i < n. \<forall>d < unat (p_filesz (phs ! i)). p_type (phs ! i) = PT_LOAD \<longrightarrow>
      (i = 0 \<longrightarrow> unat (e_phoff hdr) + 56 * n \<le> d) \<longrightarrow>
      boot_view h (KERNEL_BASE + p_vaddr (phs ! i) + of_nat d) = content ! (unat (p_offset (phs ! i)) + d)"
    using image seen by (simp add: image_at_def phs)
qed

section \<open>Properties\<close>



section \<open>The small machine\<close>

lemma k_ram: "ram_below k_services 0x2000000"
proof -
  have m: "length k_map = 5" "end_of (k_map ! 3) = 0x2000000"
    by (simp_all add: k_map_def end_of_def PAGE_SIZE_def)
  have "unat page + 4096 * unat n \<le> unat (0x2000000 :: u64)"
    if "alloc k_services type n f = (Inr page, f1)" for type n f page f1
  proof -
    have f: "f + unat n \<le> 64" and page: "page = 0x100000 + PAGE_SIZE * of_nat f"
      using that by (auto simp: k_services_def bump_firmware_def split: if_splits)
    have "page = of_nat (0x100000 + 4096 * f)" by (simp add: page PAGE_SIZE_def)
    moreover have "0x100000 + 4096 * f < 18446744073709551616" using f by linarith
    ultimately have "unat page = 0x100000 + 4096 * f" using unat_of_nat64 by blast
    then show ?thesis using f by simp
  qed
  moreover have "is_page 0x2000000" by (simp add: is_page_mod)
  ultimately show ?thesis by (auto simp: ram_below_def m k_services_def)
qed

lemmas k_keeps = k_finite k_lists k_promises k_fits k_ram

lemma k_efi_main:
  obtains s sp h where "efi_main sample_lib k_image k_variables k_services sample_data k_memory = Some (Inr (sp, h))"
    and "efi_boot k_services sample_data s = Inr (sp, h)" and "fw s = 0"
proof -
  obtain s1 where start: "efi_start sample_lib k_image (k_variables\<lparr>page_service := alloc k_services\<rparr>) k_memory
      = Some (Inr s1)" "fw s1 = 0" using k_efi_start by blast
  obtain sp h where boot: "efi_boot k_services sample_data s1 = Inr (sp, h)" using k_boot[OF start(2)] by blast
  with start(1) have "efi_main sample_lib k_image k_variables k_services sample_data k_memory = Some (Inr (sp, h))"
    by (simp add: efi_main_def)
  then show thesis using that boot start(2) by blast
qed

lemma k_linked: "p_vaddr ([k_load, k_dyn] ! 0) = 0" "Open k_services f = Inr k_file"
  by (simp_all add: k_load_def k_services_def)

lemma k_efi_main2:
  assumes "efi_boot k_services sample_data s = Inr (sp, h)"
  shows "\<exists>phs. efi_main2 (boot_data h) (boot_view h) = Some (Inr (boot_view h,
      (boot_data h)\<lparr>ehdr := k_ehdr\<lparr>e_entry := 0xffffffffc0001000\<rparr>, phdrs := phs\<rparr>, 0xffffffffc0001000))
    \<and> length phs = 2 \<and> (\<forall>i < 2. \<exists>p. phs ! i = (move_phdr ([k_load, k_dyn] ! i))\<lparr>p_paddr := p\<rparr>)"
proof -
  note v = kernel_view[OF k_keeps assms k_linked(2) k_has k_header[symmetric] k_image k_linked(1)]
  let ?phs = "read_phdrs_at (boot_view h) (KERNEL_BASE + e_phoff k_ehdr) 2"
  have hdr: "read_ehdr (boot_view h) KERNEL_BASE = k_ehdr\<lparr>e_entry := 0xffffffffc0001000\<rparr>"
    using v(1) by (simp add: k_ehdr_def KERNEL_BASE_def)
  have n: "unat (e_phnum k_ehdr) = 2" by (simp add: k_ehdr_def)
  have len: "length ?phs = 2" by (simp add: read_phdrs_at_def)
  then have phs: "?phs = [?phs ! 0, ?phs ! 1]"
    by (intro nth_equalityI) (auto simp: less_2_cases_iff)
  have f0: "?phs ! 0 = (move_phdr k_load)\<lparr>p_paddr := p_paddr (?phs ! 0)\<rparr>"
    and f1: "?phs ! 1 = (move_phdr k_dyn)\<lparr>p_paddr := p_paddr (?phs ! 1)\<rparr>"
    using v(2)[rule_format, of 0] v(2)[rule_format, of 1] by (simp_all add: Let_def)
  have "p_type (?phs ! 0) = PT_LOAD" by (subst f0) (simp add: move_phdr_def k_load_def)
  moreover have "p_type (?phs ! 1) = PT_DYNAMIC" "p_vaddr (?phs ! 1) = KERNEL_BASE + 176"
    by (subst f1, simp add: move_phdr_def k_dyn_def elf_consts)+
  moreover have "PT_LOAD \<noteq> PT_DYNAMIC" by (simp add: elf_consts)
  ultimately have dyn: "find_dynamic ?phs = KERNEL_BASE + 176"
    by (subst phs) (simp add: find_dynamic_def)
  have zero: "boot_view h (KERNEL_BASE + of_nat (176 + d)) = 0" if "d < 16" for d
  proof -
    have "k_content ! (176 + d) = encode_Dyn \<lparr>d_tag = DT_NULL, d_un = 0\<rparr> ! d"
      by (simp add: k_content_def k_lengths nth_append)
    also have "encode_Dyn \<lparr>d_tag = DT_NULL, d_un = 0\<rparr> = replicate 16 0"
      by (simp add: encode_Dyn_def elf_consts numeral_eq_Suc)
    finally have "k_content ! (176 + d) = 0" using that by simp
    moreover have "boot_view h (KERNEL_BASE + of_nat (176 + d)) = k_content ! (176 + d)"
      using v(3)[rule_format, of 0 "176 + d"] that n by (simp add: k_load_def k_ehdr_def)
    ultimately show ?thesis by simp
  qed
  have "load64 (boot_view h) (KERNEL_BASE + 176) = 0"
  proof (rule load64_zero)
    fix i :: nat assume "i < 8"
    then show "boot_view h (KERNEL_BASE + 176 + of_nat i) = 0" using zero[of i] by (simp add: add.assoc)
  qed
  then have "dyn_table (boot_view h) (KERNEL_BASE + 176) []" by (simp add: dyn_at_def elf_consts)
  then have "do_relocations (KERNEL_BASE + 176) (boot_view h) = Some (Inr (boot_view h))"
    using scan_table[of "boot_view h" "KERNEL_BASE + 176" "[]" 0 0] by (simp add: do_relocations_def)
  moreover have "KERNEL_BASE + 176 \<noteq> 0" by (simp add: KERNEL_BASE_def)
  ultimately have "efi_main2 (boot_data h) (boot_view h) = Some (Inr (boot_view h,
      (boot_data h)\<lparr>ehdr := k_ehdr\<lparr>e_entry := 0xffffffffc0001000\<rparr>, phdrs := ?phs\<rparr>, 0xffffffffc0001000))"
    by (simp add: efi_main2_def Let_def hdr n dyn)
  moreover have "\<forall>i < 2. \<exists>p. ?phs ! i = (move_phdr ([k_load, k_dyn] ! i))\<lparr>p_paddr := p\<rparr>"
    using v(2) unfolding Let_def by blast
  ultimately show ?thesis using len by blast
qed

text \<open>The boot data of the small machine.\<close>

lemma k_prepared:
  assumes "fw s = 0" and "efi_prepare k_services sample_data s = Inr (n, h)"
  shows "boot_data_at h = 0x101000"
    and "boot_data h = (compute_regions k_map 5 k_blank)\<lparr>free_memory := 0xffffffffbe103000\<rparr>"
proof -
  obtain stack s1 bd_at s2 free s3 mm size ehdr_at phdrs_at s4 root b s5
    where a: "allocate_pages (alloc k_services) 1 s = Inr (stack, s1)"
      "allocate_pages (alloc k_services) 2 s1 = Inr (bd_at, s2)"
      "allocate_pages (alloc k_services) 32 s2 = Inr (free, s3)"
    and mm: "LibMemoryMap k_services (fw s3) = Some (mm, size)"
    and pr: "prepare_boot_page_tables (alloc k_services) mm (of_nat (length mm)) bd_at
        (sample_data\<lparr>n_pages := 32, free_memory := free\<rparr>) (read_ehdr (lmem s4) ehdr_at)
        (read_phdrs_at (lmem s4) phdrs_at (unat (e_phnum (read_ehdr (lmem s4) ehdr_at)))) s4 = Inr (root, b, s5)"
    and h: "h = \<lparr>boot_page_table = root, boot_data_at = bd_at, boot_data = b, new_stack = stack, machine = s5\<rparr>"
    by (rule efi_prepareE[OF assms(2)])
  have al: "alloc k_services = bump_firmware" by (simp add: k_services_def)
  note a = a[unfolded al]
  have s1: "fw s1 = 1" using bump_allocate[of s 1] a(1) assms(1) by auto
  have bd: "bd_at = 0x101000" and s2: "fw s2 = 3"
    using bump_allocate[of s1 2] a(2) s1 by (auto simp: PAGE_SIZE_def)
  have free: "free = 0x103000" using bump_allocate[of s2 32] a(3) s2 by (auto simp: PAGE_SIZE_def)
  have "mm = k_map" using mm by (simp add: k_services_def)
  moreover have "length k_map = 5" by (simp add: k_map_def)
  ultimately have "b = (compute_regions k_map 5 k_blank)\<lparr>free_memory :=
      paddr_base (compute_regions k_map 5 k_blank) + free_memory (compute_regions k_map 5 k_blank)\<rparr>"
    using pr by (auto simp: prepare_boot_page_tables_def Let_def bind_eq_Inr free k_blank_def)
  then show "boot_data_at h = 0x101000"
    and "boot_data h = (compute_regions k_map 5 k_blank)\<lparr>free_memory := 0xffffffffbe103000\<rparr>"
    by (simp_all add: h bd k_regions)
qed

lemma k_mmio: "mmio_base (compute_regions k_map 5 k_blank) = 0xffffffffbdfff000"
proof -
  have "mmio_size (compute_regions k_map 5 k_blank) = 0x1000"
    by (simp add: compute_regions_layout(3) k_map_def PAGE_SIZE_def upt_rec)
  then show ?thesis using compute_regions_layout(2)[of k_map 5 k_blank] by (simp add: k_regions eq_diff_eq[symmetric])
qed

lemma k_boot_data:
  assumes "fw s = 0" and "efi_boot k_services sample_data s = Inr (sp, h)"
  shows "boot_data_at h = 0x101000" and "free_memory (boot_data h) = 0xffffffffbe103000"
    and "n_pages (boot_data h) = 32" and "paddr_base (boot_data h) = 0xffffffffbe000000"
    and "mmio_base (boot_data h) = 0xffffffffbdfff000"
    and "concat (map (runtime_requests (boot_data h)) [0..<unat (NumEntries (boot_data h))]) =
      [(0xffffffffbdfff000, 0xfee00000, PTE_RW)]"
proof -
  obtain n h1 h2 where 1: "efi_prepare k_services sample_data s = Inr (n, h1)"
    and 2: "efi_exit_boot k_services n h1 = Inr h2" and h: "boot_data h = boot_data h2" "boot_data_at h = boot_data_at h2"
    using assms(2) by (auto simp: efi_boot_def bind_eq_Inr case_prod_beta Let_def)
  note p = k_prepared[OF assms(1) 1]
  let ?b0 = "(boot_data h1)\<lparr>MemoryMap := k_map, NumEntries := 5\<rparr>"
  have len: "length k_map = 5" by (simp add: k_map_def)
  obtain b where init: "init_mmap ?b0 = Inr b" and h2: "h2 = h1\<lparr>boot_data := b\<lparr>RT := paddr_base b + 0x7f00000\<rparr>\<rparr>"
    using 2 len by (auto simp: efi_exit_boot_def Let_def bind_eq_Inr k_services_def split: if_splits)
  have "accepts_mmap ?b0" by (simp add: accepts_mmap_def k_map_def)
  from init_mmap_eq[OF this] init len
  have b: "b = ?b0\<lparr>NumEntries := NumEntries b, MemoryMap := MemoryMap b\<rparr>"
    and mm: "take (unat (NumEntries b)) (MemoryMap b) = assign_virtual (paddr_base ?b0) (mmio_base ?b0)
      (merge (hd (segments_of ?b0)) (tl (segments_of ?b0)))"
    and le: "NumEntries b \<le> 5" "length (MemoryMap b) = 5" by auto
  have f: "free_memory b = 0xffffffffbe103000" "n_pages b = 32" "paddr_base b = 0xffffffffbe000000"
    "mmio_base b = 0xffffffffbdfff000"
    by (subst b, simp add: p(2) k_regions k_mmio)+
  then show "boot_data_at h = 0x101000" "free_memory (boot_data h) = 0xffffffffbe103000"
    "n_pages (boot_data h) = 32" "paddr_base (boot_data h) = 0xffffffffbe000000"
    "mmio_base (boot_data h) = 0xffffffffbdfff000"
    by (simp_all add: h h2 p(1))
  define ms where "ms = take (unat (NumEntries b)) (MemoryMap b)"
  have ms: "ms = map (\<lambda>(t, p, v, n, a). \<lparr>Type = t, PhysicalStart = p, VirtualStart = v, NumberOfPages = n, Attribute = a\<rparr>)
     [(EfiUnusableMemory, 0, 0, 1, 15), (EfiConventionalMemory, 0x1000, 0, 0xff, 15),
      (EfiLoaderData, 0x100000, 0, 64, 15), (EfiConventionalMemory, 0x140000, 0, 0x1ec0, 15),
      (EfiMemoryMappedIO, 0xfee00000, 0xffffffffbdfff000, 1, EFI_MEMORY_RUNTIME)]"
  proof -
    have "paddr_base ?b0 = 0xffffffffbe000000" "mmio_base ?b0 = 0xffffffffbdfff000"
      by (simp_all add: p(2) k_regions k_mmio)
    then show ?thesis
      unfolding ms_def mm
      by (simp add: segments_of_def k_map_def reclaim_def can_merge_def is_mmio_def EFI_MEMORY_RUNTIME_def)
  qed
  have "unat (NumEntries b) \<le> 5" using le(1) by (simp add: word_le_nat_alt)
  moreover have "length ms = 5" by (simp add: ms)
  ultimately have n: "unat (NumEntries b) = 5" using le(2) by (simp add: ms_def)
  have at: "MemoryMap b ! i = ms ! i" if "i < 5" for i using that n by (simp add: ms_def)
  have "[0..<5] = [0, 1, 2, 3, 4]" by (simp add: upt_rec)
  then show "concat (map (runtime_requests (boot_data h)) [0..<unat (NumEntries (boot_data h))]) =
      [(0xffffffffbdfff000, 0xfee00000, PTE_RW)]"
    by (simp add: h h2 n runtime_requests_def at ms EFI_MEMORY_RUNTIME_def range_requests_def)
qed


text \<open>What the kernel of the small machine maps.\<close>

definition k_kernel_vaddrs :: "u64 list" where
  "k_kernel_vaddrs = 0xffffffffbe101000 # map (\<lambda>i. 0xffffffffbe103000 + PAGE_SIZE * of_nat i) [0..<32]
     @ [0xffffffffbdffe000, 0xffffffffbdfff000, 0xffffffffc0000000, 0xffffffffc0001000]"

lemma k_kernel_distinct: "distinct (map VPAGE k_kernel_vaddrs)"
  by (simp add: k_kernel_vaddrs_def VPAGE_def PTE_ADDR_MASK_def PAGE_SIZE_def upt_rec)

lemma k_kernel_tables: "n_tables (set k_kernel_vaddrs) \<le> 30"
  unfolding n_tables_list
  by (simp add: k_kernel_vaddrs_def table_of_def VPAGE_def PTE_ADDR_MASK_def PAGE_SIZE_def upt_rec)

lemma k_kernel_space:
  assumes "length phs = 2" and phs: "\<forall>i < 2. \<exists>p. phs ! i = (move_phdr ([k_load, k_dyn] ! i))\<lparr>p_paddr := p\<rparr>"
    and h: "fw s = 0" "efi_boot k_services sample_data s = Inr (sp, h)"
    and b: "b = (boot_data h)\<lparr>ehdr := k_ehdr\<lparr>e_entry := x\<rparr>, phdrs := phs\<rparr>"
    and k: "bd k = b" "bd_addr k = 0xffffffffbe101000" "apic_vaddr (cpu k) = mmio_base b - PAGE_SIZE"
  shows "map fst (space_requests k) = k_kernel_vaddrs" and "relro_pages b = []"
proof -
  obtain p0 p1 where p: "phs ! 0 = (move_phdr k_load)\<lparr>p_paddr := p0\<rparr>" "phs ! 1 = (move_phdr k_dyn)\<lparr>p_paddr := p1\<rparr>"
    using phs[rule_format, of 0] phs[rule_format, of 1] by auto
  note p = p(1) p(2)[unfolded One_nat_def]
  note d = k_boot_data[OF h]
  have n: "unat (e_phnum (ehdr b)) = 2" "[0..<2] = [0, 1]" by (simp_all add: b k_ehdr_def upt_rec)
  have fst_range: "map fst (range_requests p v n f) = map (\<lambda>i. v + PAGE_SIZE * of_nat i) [0..<unat n]"
    for p v n f by (simp add: range_requests_def comp_def)
  have seg: "map fst (segment_requests b 0) = [0xffffffffc0000000, 0xffffffffc0001000]"
    "segment_requests b 1 = []"
    by (simp_all add: segment_requests_def b p move_phdr_def k_load_def k_dyn_def fst_range elf_consts
        NUM_PAGES_def NEXT_PAGE_def PAGE_BASE_def PAGE_SIZE_def KERNEL_BASE_def upt_rec Let_def)
  have "runtime_requests b = runtime_requests (boot_data h)" "NumEntries b = NumEntries (boot_data h)"
    by (auto simp: runtime_requests_def b)
  then have run: "map fst (concat (map (runtime_requests b) [0..<unat (NumEntries b)])) = [0xffffffffbdfff000]"
    by (simp add: d(6))
  have f: "free_memory b = 0xffffffffbe103000" "n_pages b = 32" "mmio_base b = 0xffffffffbdfff000"
    by (simp_all add: b d)
  have 1: "[0..<unat (1 :: u64)] = [0]" "[0..<unat (32 :: u64)] = [0..<32]" by simp_all
  have "map fst (concat (map (segment_requests b) [0, 1])) = [0xffffffffc0000000, 0xffffffffc0001000]"
    by (simp add: seg seg(2)[unfolded One_nat_def])
  then show "map fst (space_requests k) = k_kernel_vaddrs"
    unfolding space_requests_def k f n map_append run fst_range 1 k_kernel_vaddrs_def
    by (simp add: PAGE_SIZE_def)
  show "relro_pages b = []"
    by (simp add: relro_pages_def relro_of_def n) (simp add: b p move_phdr_def k_load_def k_dyn_def elf_consts)
qed




end
