(* ===== verification/Printf.thy ===== *)
theory Printf
  imports CString "HOL-Library.Signed_Division"
begin

text \<open>
  \<open>generic_printf\<close> of \<open>lib/generic_printf.c\<close>. The output is the list of the byte strings
  handed to the \<open>write\<close> callback, one per call. The variable arguments are the 64-bit slots
  that \<open>va_arg\<close> consumes in order; a narrower type reads the low bits of its slot. \<open>None\<close> is
  undefined behaviour (an access outside a local buffer, a read of an uninitialised byte, a
  missing argument) or a format without end.
\<close>

section \<open>Numbers\<close>

definition digits :: "u8 list" where
  "digits = map of_char ''fedcba9876543210123456789abcdef''"

text \<open>\<open>%\<close> and \<open>/\<close> of C truncate towards zero.\<close>

definition GET_DIGIT :: "int \<Rightarrow> int \<Rightarrow> u8" where
  "GET_DIGIT n base = digits ! nat (n smod base + 15)"

text \<open>
  A local \<open>char\<close> array: \<open>None\<close> is a byte not yet written. The pointer \<open>stack\<close> is an index
  into it.
\<close>

type_synonym buffer = "u8 option list"

definition poke :: "buffer \<Rightarrow> nat \<Rightarrow> u8 \<Rightarrow> (buffer \<times> nat) option" where
  "poke buf stack c = (if stack = 0 then None else Some (buf[stack - 1 := Some c], stack - 1))"

function put_digits :: "int \<Rightarrow> buffer \<Rightarrow> nat \<Rightarrow> int \<Rightarrow> (buffer \<times> nat) option" where
  "put_digits base buf stack n =
     (case poke buf stack (GET_DIGIT n base) of
        None \<Rightarrow> None
      | Some (buf, stack) \<Rightarrow>
          let n = n sdiv base in
          if n \<noteq> 0 then put_digits base buf stack n else Some (buf, stack))"
  by pat_completeness auto

termination
  by (relation "measure (\<lambda>(base, buf, stack, n). stack)") (auto simp: poke_def split: if_splits)

declare put_digits.simps [simp del]

text \<open>\<open>write(stack, strlen(stack))\<close>: the bytes up to the terminator, all initialised.\<close>

fun buffer_string :: "buffer \<Rightarrow> u8 list option" where
  "buffer_string [] = None"
| "buffer_string (None # bs) = None"
| "buffer_string (Some c # bs) =
     (if c = 0 then Some [] else map_option (\<lambda>cs. c # cs) (buffer_string bs))"

definition put_int :: "u64 \<Rightarrow> u8 list option" where
  "put_int n =
     (let mem = (replicate 21 None)[20 := Some 0];
          copy = sint n in
      Option.bind (put_digits 10 mem 20 (sint n)) (\<lambda>(mem, stack).
      Option.bind (if copy < 0 then poke mem stack (of_char (CHR ''-'')) else Some (mem, stack))
        (\<lambda>(mem, stack). buffer_string (drop stack mem))))"

definition put_unsigned :: "u64 \<Rightarrow> u8 list option" where
  "put_unsigned n =
     (let mem = (replicate 21 None)[20 := Some 0] in
      Option.bind (put_digits 10 mem 20 (uint n))
        (\<lambda>(mem, stack). buffer_string (drop stack mem)))"

definition put_hex :: "u32 \<Rightarrow> u8 list option" where
  "put_hex n =
     (let mem = map (Some \<circ> of_char) ''0x00000000'' @ [Some 0] in
      Option.bind (put_digits 16 mem 10 (uint n)) (\<lambda>(mem, stack). buffer_string mem))"

definition put_ul_hex :: "u64 \<Rightarrow> u8 list option" where
  "put_ul_hex n =
     (let mem = map (Some \<circ> of_char) ''0x0000000000000000'' @ [Some 0] in
      Option.bind (put_digits 16 mem 18 (uint n)) (\<lambda>(mem, stack). buffer_string mem))"

section \<open>The format\<close>

definition putc :: "u64 \<Rightarrow> u8 list option" where
  "putc c = Some [ucast c]"

definition puts :: "mem \<Rightarrow> u64 \<Rightarrow> u8 list option" where
  "puts m s =
     (if s = 0 then Some (map of_char ''NULL'')
      else map_option (\<lambda>n. load_bytes m s (unat n)) (strlen m s))"

record printf_state =
  first :: u64
  last_char :: u64
  format_mode :: bool
  n_long :: nat
  ap :: "u64 list"
  written :: "u8 list list"

definition write_out :: "u8 list \<Rightarrow> printf_state \<Rightarrow> printf_state" where
  "write_out bs s = s\<lparr>written := written s @ [bs]\<rparr>"

definition va_arg :: "(u64 \<Rightarrow> u8 list option) \<Rightarrow> printf_state \<Rightarrow> printf_state option" where
  "va_arg put s =
     (case ap s of
        [] \<Rightarrow> None
      | x # xs \<Rightarrow> map_option (\<lambda>bs. write_out bs (s\<lparr>ap := xs, format_mode := False, n_long := 0\<rparr>)) (put x))"

definition put_d :: "nat \<Rightarrow> u64 \<Rightarrow> u8 list option" where
  "put_d k x = put_int (if k = 0 then scast (ucast x :: u32) else x)"

definition put_u :: "nat \<Rightarrow> u64 \<Rightarrow> u8 list option" where
  "put_u k x = put_unsigned (if k = 0 then ucast (ucast x :: u32) else x)"

definition conversion :: "mem \<Rightarrow> nat \<Rightarrow> u8 \<Rightarrow> (u64 \<Rightarrow> u8 list option) option" where
  "conversion m k c =
     (if c = of_char (CHR ''d'') then Some (put_d k)
      else if c = of_char (CHR ''u'') then Some (put_u k)
      else if c = of_char (CHR ''s'') then Some (puts m)
      else if c = of_char (CHR ''c'') then Some putc
      else if c = of_char (CHR ''x'') then Some (\<lambda>x. put_hex (ucast x))
      else if c = of_char (CHR ''p'') then Some put_ul_hex
      else None)"

text \<open>The body of the loop over the format, on the character \<open>*last\<close>.\<close>

definition printf_char :: "mem \<Rightarrow> printf_state \<Rightarrow> printf_state option" where
  "printf_char m s =
     (let c = m (last_char s) in
      if c = of_char (CHR ''%'') then
        let s = (if format_mode s then s\<lparr>first := last_char s\<rparr>
                 else write_out (load_bytes m (first s) (unat (last_char s - first s))) s)
        in Some (s\<lparr>format_mode := \<not> format_mode s\<rparr>)
      else if \<not> format_mode s then Some s
      else
        let s = s\<lparr>first := last_char s + 1\<rparr> in
        if c = of_char (CHR ''l'') then Some (s\<lparr>n_long := n_long s + 1\<rparr>)
        else case conversion m (n_long s) c of
            Some put \<Rightarrow> va_arg put s
          | None \<Rightarrow> Some s)"

partial_function (option) printf_loop :: "mem \<Rightarrow> printf_state \<Rightarrow> printf_state option" where
  "printf_loop m s =
     (if m (last_char s) \<noteq> 0
      then Option.bind (printf_char m s) (\<lambda>s. printf_loop m (s\<lparr>last_char := last_char s + 1\<rparr>))
      else Some s)"

definition generic_printf :: "mem \<Rightarrow> u64 \<Rightarrow> u64 list \<Rightarrow> u8 list list option" where
  "generic_printf m format args =
     map_option (\<lambda>s. written (write_out (load_bytes m (first s) (unat (last_char s - first s))) s))
       (printf_loop m \<lparr>first = format, last_char = format, format_mode = False, n_long = 0,
          ap = args, written = []\<rparr>)"

section \<open>Numerals\<close>

definition digit :: "nat \<Rightarrow> u8" where
  "digit k = of_nat (if k < 10 then 48 + k else 87 + k)"

function numeral_text :: "nat \<Rightarrow> nat \<Rightarrow> u8 list" where
  "numeral_text b n =
     (if n < b \<or> b < 2 then [digit n] else numeral_text b (n div b) @ [digit (n mod b)])"
  by pat_completeness auto

termination
  by (relation "measure snd") (auto simp: div_less_dividend)

declare numeral_text.simps [simp del]

definition digit_value :: "u8 \<Rightarrow> nat" where
  "digit_value d = (if unat d < 58 then unat d - 48 else unat d - 87)"

definition numeral_value :: "nat \<Rightarrow> u8 list \<Rightarrow> nat" where
  "numeral_value b = foldl (\<lambda>n d. n * b + digit_value d) 0"

lemma digit_value_digit [simp]: "k < 16 \<Longrightarrow> digit_value (digit k) = k"
  by (simp add: digit_value_def digit_def unat_of_nat)

lemma digit_nonzero [simp]: "k < 16 \<Longrightarrow> digit k \<noteq> 0"
  by (auto simp: digit_def unat_eq_zero [symmetric] unat_of_nat simp del: unat_eq_zero)

lemma numeral_value_text: "1 < b \<Longrightarrow> b \<le> 16 \<Longrightarrow> numeral_value b (numeral_text b n) = n"
proof (induction b n rule: numeral_text.induct)
  case (1 b n)
  have "n mod b < 16" using 1(2,3) mod_less_divisor[of b n] by linarith
  then show ?case
    using 1 by (subst numeral_text.simps) (auto simp: numeral_value_def)
qed

lemma length_numeral_text:
  "1 < b \<Longrightarrow> n < b ^ k \<Longrightarrow> 0 < k \<Longrightarrow> length (numeral_text b n) \<le> k"
proof (induction b n arbitrary: k rule: numeral_text.induct)
  case (1 b n)
  show ?case
  proof (cases "n < b")
    case True
    then show ?thesis using 1 by (subst numeral_text.simps) auto
  next
    case False
    then obtain j where k: "k = Suc j" "0 < j" using 1(3,4) by (cases k; cases "k - 1") auto
    then have "n div b < b ^ j" using 1(2,3) by (simp add: less_mult_imp_div_less mult.commute)
    then have "length (numeral_text b (n div b)) \<le> j" using 1 False k by simp
    then show ?thesis using False 1(2) k by (subst numeral_text.simps) auto
  qed
qed

lemma numeral_text_nonzero: "1 < b \<Longrightarrow> b \<le> 16 \<Longrightarrow> 0 \<notin> set (numeral_text b n)"
proof (induction b n rule: numeral_text.induct)
  case (1 b n)
  have "n mod b < 16" using 1(2,3) mod_less_divisor[of b n] by linarith
  then show ?case
    using 1 digit_nonzero[of n] digit_nonzero[of "n mod b"] by (subst numeral_text.simps) auto
qed

section \<open>The digit loop\<close>

lemma GET_DIGIT_digit:
  assumes "1 < b" and "b \<le> 16"
  shows "GET_DIGIT n (int b) = digit (nat \<bar>n\<bar> mod b)"
proof -
  have table: "digits ! (15 + k) = digit k \<and> digits ! (15 - k) = digit k" if "k < 16" for k
  proof -
    have "\<forall>k \<in> {..<16}. digits ! (15 + k) = digit k \<and> digits ! (15 - k) = digit k" by code_simp
    then show ?thesis using that by auto
  qed
  let ?r = "nat \<bar>n\<bar> mod b"
  have r: "?r < 16" using assms mod_less_divisor[of b "nat \<bar>n\<bar>"] by linarith
  have "int ?r = \<bar>n\<bar> mod int b" by (simp add: zmod_int)
  then have "n smod int b = sgn n * int ?r" using assms by (simp add: smod_int_alt_def)
  then have "nat (n smod int b + 15) = 15 + ?r \<or> nat (n smod int b + 15) = 15 - ?r"
    using r by (auto simp: sgn_if)
  then show ?thesis using table[OF r] by (auto simp: GET_DIGIT_def)
qed

lemma sdiv_abs:
  assumes "0 < b"
  shows "nat \<bar>n sdiv int b\<bar> = nat \<bar>n\<bar> div b" and "n sdiv int b = 0 \<longleftrightarrow> nat \<bar>n\<bar> < b"
proof -
  have eq: "n sdiv int b = sgn n * int (nat \<bar>n\<bar> div b)"
    using assms by (simp add: signed_divide_int_def zdiv_int)
  then show "nat \<bar>n sdiv int b\<bar> = nat \<bar>n\<bar> div b" by (auto simp: abs_mult sgn_if)
  show "n sdiv int b = 0 \<longleftrightarrow> nat \<bar>n\<bar> < b"
    using eq assms by (auto simp: sgn_if div_eq_0_iff)
qed

lemma put_digits_eq:
  assumes "1 < b" and "b \<le> 16"
  shows "length (numeral_text b (nat \<bar>n\<bar>)) \<le> stack \<Longrightarrow> stack \<le> length buf \<Longrightarrow>
    put_digits (int b) buf stack n =
      Some (take (stack - length (numeral_text b (nat \<bar>n\<bar>))) buf @
            map Some (numeral_text b (nat \<bar>n\<bar>)) @ drop stack buf,
            stack - length (numeral_text b (nat \<bar>n\<bar>)))"
proof (induction stack arbitrary: buf n)
  case 0
  then show ?case by (subst (asm) numeral_text.simps) (auto split: if_splits)
next
  case (Suc stack)
  let ?n = "nat \<bar>n\<bar>" and ?d = "Some (GET_DIGIT n (int b))"
  let ?buf = "buf[stack := ?d]"
  have d: "GET_DIGIT n (int b) = digit (?n mod b)" using assms by (rule GET_DIGIT_digit)
  have poke: "poke buf (Suc stack) (GET_DIGIT n (int b)) = Some (?buf, stack)"
    by (simp add: poke_def)
  have tail: "drop stack ?buf = ?d # drop (Suc stack) buf"
    using Suc.prems by (simp add: Cons_nth_drop_Suc [symmetric])
  show ?case
  proof (cases "?n < b")
    case True
    then show ?thesis
      using assms sdiv_abs(2)[of b n] Suc.prems
      by (subst put_digits.simps, subst (1 2 3) numeral_text.simps)
        (simp add: poke[unfolded d mod_less[OF True]] d upd_conv_take_nth_drop)
  next
    case False
    let ?q = "n sdiv int b" and ?t = "numeral_text b (?n div b)"
    have t: "numeral_text b ?n = ?t @ [digit (?n mod b)]"
      using False assms by (subst numeral_text.simps) simp
    have q: "nat \<bar>?q\<bar> = ?n div b" "?q \<noteq> 0" using sdiv_abs[of b n] assms False by auto
    have "put_digits (int b) ?buf stack ?q =
        Some (take (stack - length ?t) ?buf @ map Some ?t @ drop stack ?buf, stack - length ?t)"
      using Suc.IH[where n = ?q and buf = ?buf] Suc.prems by (simp add: q(1) t)
    then show ?thesis
      by (subst put_digits.simps) (simp add: poke[unfolded d] q(2) t tail[unfolded d] d)
  qed
qed

lemma buffer_string_eq:
  "0 \<notin> set cs \<Longrightarrow> buffer_string (map Some cs @ Some 0 # bs) = Some cs"
  by (induction cs) auto

text \<open>The decimal text of an integer, and a fixed-width hexadecimal text.\<close>

definition int_text :: "int \<Rightarrow> u8 list" where
  "int_text n = (if n < 0 then [of_char (CHR ''-'')] else []) @ numeral_text 10 (nat \<bar>n\<bar>)"

definition hex_text :: "nat \<Rightarrow> nat \<Rightarrow> u8 list" where
  "hex_text w n = map of_char ''0x'' @
     replicate (w - length (numeral_text 16 n)) (of_char (CHR ''0'')) @ numeral_text 16 n"

lemmas numeral_bounds = length_numeral_text numeral_text_nonzero numeral_value_text

lemma replicate_last: "(replicate (Suc k) y)[k := x] = replicate k y @ [x]"
  by (induction k) auto

lemmas replicate_21 = replicate_last[of 20, simplified]

lemma put_unsigned_text: "put_unsigned n = Some (numeral_text 10 (unat n))"
proof -
  let ?t = "numeral_text 10 (unat n)"
  have len: "length ?t \<le> 20"
    by (intro length_numeral_text less_trans[OF unat_lt64]) simp_all
  have "put_digits 10 (replicate 20 None @ [Some 0]) 20 (uint n) =
      Some (replicate (20 - length ?t) None @ map Some ?t @ [Some 0], 20 - length ?t)"
    using put_digits_eq[of 10 "uint n" 20 "replicate 20 None @ [Some 0]"] len
    by simp
  then show ?thesis
    using len numeral_text_nonzero[of 10 "unat n"]
    by (simp add: put_unsigned_def replicate_21 buffer_string_eq)
qed

lemma put_int_text: "put_int n = Some (int_text (sint n))"
proof -
  let ?n = "nat \<bar>sint n\<bar>"
  let ?t = "numeral_text 10 ?n"
  have "- (2 ^ 63) \<le> sint n" "sint n < 2 ^ 63"
    using sint_range_size[of n] by (simp_all add: word_size)
  then have "?n \<le> 2 ^ 63" by simp
  then have len: "length ?t \<le> 19"
    by (intro length_numeral_text) simp_all
  have "put_digits 10 (replicate 20 None @ [Some 0]) 20 (sint n) =
      Some (replicate (20 - length ?t) None @ map Some ?t @ [Some 0], 20 - length ?t)"
    using put_digits_eq[of 10 "sint n" 20 "replicate 20 None @ [Some 0]"] len
    by simp
  moreover obtain j where "20 - length ?t = Suc j" using len by (cases "20 - length ?t") simp_all
  ultimately show ?thesis
    by (simp add: put_int_def replicate_21 buffer_string_eq numeral_text_nonzero int_text_def
        poke_def list_update_append replicate_last del: replicate_Suc)
qed

lemma put_hex_buffer:
  fixes n :: "'a::len word"
  assumes "unat n < 16 ^ w" and "0 < w" and "stack = Suc (Suc w)"
    and "mem = [Some 48, Some 120] @ replicate w (Some 48) @ [Some 0]"
  shows "Option.bind (put_digits 16 mem stack (uint n)) (\<lambda>(mem, stack). buffer_string mem) =
    Some (hex_text w (unat n))"
proof -
  let ?t = "numeral_text 16 (unat n)"
  have len: "length ?t \<le> w" using assms by (intro length_numeral_text) simp_all
  have "take (stack - length ?t) mem = map Some ([48, 120] @ replicate (w - length ?t) 48)"
    using len assms(3,4) by (simp add: Suc_diff_le)
  moreover have "drop stack mem = [Some 0]" using assms(3,4) by simp
  ultimately have "put_digits 16 mem stack (uint n) =
      Some (map Some ([48, 120] @ replicate (w - length ?t) 48) @ map Some ?t @ [Some 0],
        stack - length ?t)"
    using put_digits_eq[of 16 "uint n" stack mem] len assms(3,4) by simp
  moreover have "0 \<notin> set ([48, 120] @ replicate (w - length ?t) 48 @ ?t)"
    using numeral_text_nonzero[of 16 "unat n"] by (simp add: in_set_replicate)
  ultimately show ?thesis
    using buffer_string_eq[of "[48, 120] @ replicate (w - length ?t) 48 @ ?t" "[]"]
    by (simp add: hex_text_def)
qed

lemma put_hex_text: "put_hex n = Some (hex_text 8 (unat n))"
proof -
  have "map (Some \<circ> of_char) ''0x00000000'' @ [Some 0] =
      [Some 48, Some 120] @ replicate 8 (Some 48) @ [Some (0 :: u8)]" by code_simp
  moreover have "unat n < 16 ^ 8" using unsigned_less[of n, where ?'a = nat] by simp
  ultimately show ?thesis
    unfolding put_hex_def Let_def by (intro put_hex_buffer) simp_all
qed

lemma put_ul_hex_text: "put_ul_hex n = Some (hex_text 16 (unat n))"
proof -
  have "map (Some \<circ> of_char) ''0x0000000000000000'' @ [Some 0] =
      [Some 48, Some 120] @ replicate 16 (Some 48) @ [Some (0 :: u8)]" by code_simp
  moreover have "unat n < 16 ^ 16" using unat_lt64[of n] by simp
  ultimately show ?thesis
    unfolding put_ul_hex_def Let_def by (intro put_hex_buffer) simp_all
qed

section \<open>What a format means\<close>

text \<open>
  A format string as a list of items: literal text, \<open>%%\<close>, or a conversion with \<open>k\<close> letters
  \<open>l\<close>. \<open>shows_arg\<close> is the text C99 asks of each conversion, except that \<open>%lx\<close> prints the low
  32 bits only and \<open>%x\<close> is padded and prefixed; \<open>renders\<close> the text of a whole format.
\<close>

datatype item = Text "u8 list" | Percent | Conv nat u8

fun item_bytes :: "item \<Rightarrow> u8 list" where
  "item_bytes (Text bs) = bs"
| "item_bytes Percent = map of_char ''%%''"
| "item_bytes (Conv k c) = of_char (CHR ''%'') # replicate k (of_char (CHR ''l'')) @ [c]"

fun item_ok :: "item \<Rightarrow> bool" where
  "item_ok (Text bs) \<longleftrightarrow> of_char (CHR ''%'') \<notin> set bs \<and> 0 \<notin> set bs"
| "item_ok Percent \<longleftrightarrow> True"
| "item_ok (Conv k c) \<longleftrightarrow> c \<in> set (map of_char ''duscxp'')"

definition shows_arg :: "mem \<Rightarrow> nat \<Rightarrow> u8 \<Rightarrow> u64 \<Rightarrow> u8 list \<Rightarrow> bool" where
  "shows_arg m k c x bs \<longleftrightarrow>
     (c = of_char (CHR ''d'') \<and> bs = int_text (if k = 0 then sint (ucast x :: u32) else sint x))
   \<or> (c = of_char (CHR ''u'') \<and> bs = numeral_text 10 (if k = 0 then unat x mod 2 ^ 32 else unat x))
   \<or> (c = of_char (CHR ''s'') \<and> (if x = 0 then bs = map of_char ''NULL'' else cstring m x bs))
   \<or> (c = of_char (CHR ''c'') \<and> bs = [ucast x])
   \<or> (c = of_char (CHR ''x'') \<and> bs = hex_text 8 (unat x mod 2 ^ 32))
   \<or> (c = of_char (CHR ''p'') \<and> bs = hex_text 16 (unat x))"

inductive renders :: "mem \<Rightarrow> item list \<Rightarrow> u64 list \<Rightarrow> u8 list \<Rightarrow> bool" for m where
  renders_Nil: "renders m [] args []"
| renders_Text: "renders m its args out \<Longrightarrow> renders m (Text bs # its) args (bs @ out)"
| renders_Percent: "renders m its args out \<Longrightarrow>
    renders m (Percent # its) args (of_char (CHR ''%'') # out)"
| renders_Conv: "shows_arg m k c x bs \<Longrightarrow> renders m its args out \<Longrightarrow>
    renders m (Conv k c # its) (x # args) (bs @ out)"

lemma conversion_shows:
  assumes "shows_arg m k c x bs" and "item_ok (Conv k c)"
  obtains put where "conversion m k c = Some put" and "put x = Some bs"
proof -
  have low: "unat (ucast x :: u32) = unat x mod 2 ^ 32"
    by (simp add: unsigned_ucast_eq take_bit_eq_mod)
  have "sint (scast (ucast x :: u32) :: u64) = sint (ucast x :: u32)"
    by (simp add: sint_up_scast is_up)
  moreover have "unat (ucast (ucast x :: u32) :: u64) = unat x mod 2 ^ 32"
    by (simp add: unsigned_ucast_eq unsigned_take_bit_eq) (simp add: take_bit_eq_mod)
  moreover have "load_bytes m x (unat (of_nat (length bs) :: u64)) = bs" if "cstring m x bs"
    using that by (simp add: cstring_def)
  ultimately show ?thesis
    using assms that low
    by (auto simp: shows_arg_def conversion_def put_d_def put_u_def puts_def putc_def
        put_int_text put_unsigned_text put_hex_text put_ul_hex_text strlen_cstring
        split: if_splits)
qed

section \<open>The loop over the format\<close>

definition pstate ::
  "u64 \<Rightarrow> nat \<Rightarrow> nat \<Rightarrow> bool \<Rightarrow> nat \<Rightarrow> u64 list \<Rightarrow> u8 list list \<Rightarrow> printf_state" where
  "pstate f i j b k a out = \<lparr>first = f + of_nat i, last_char = f + of_nat j, format_mode = b,
     n_long = k, ap = a, written = out\<rparr>"

lemma printf_loop_char:
  assumes "cstring m f F" and "j < length F"
  shows "printf_loop m (pstate f i j b k a out) =
    Option.bind (printf_char m (pstate f i j b k a out))
      (\<lambda>s. printf_loop m (s\<lparr>last_char := last_char s + 1\<rparr>))"
  using cstring_nth[OF assms] by (subst printf_loop.simps) (simp add: pstate_def)

lemma printf_literal:
  assumes "cstring m f F" and "j + n \<le> length F"
    and "of_char (CHR ''%'') \<notin> set (take n (drop j F))"
  shows "printf_loop m (pstate f i j False k a out) = printf_loop m (pstate f i (j + n) False k a out)"
  using assms(2,3)
proof (induction n)
  case (Suc n)
  have "F ! (j + n) \<in> set (take (Suc n) (drop j F))"
    using Suc.prems(1) by (auto simp: in_set_conv_nth intro!: exI[of _ n])
  then have "F ! (j + n) \<noteq> of_char (CHR ''%'')" using Suc.prems(2) by metis
  moreover have "m (f + of_nat (j + n)) = F ! (j + n)"
    using cstring_nth[OF assms(1), of "j + n"] Suc.prems(1) by simp
  ultimately have "printf_char m (pstate f i (j + n) False k a out) = Some (pstate f i (j + n) False k a out)"
    by (simp add: printf_char_def pstate_def)
  then have "printf_loop m (pstate f i (j + n) False k a out) =
      printf_loop m (pstate f i (j + Suc n) False k a out)"
    using Suc.prems(1) by (subst printf_loop_char[OF assms(1)]) (simp_all add: pstate_def algebra_simps)
  moreover have "of_char (CHR ''%'') \<notin> set (take n (drop j F))"
    using Suc.prems(2) set_take_subset_set_take[of n "Suc n"] by (meson Suc_n_not_le_n nat_le_linear subsetD)
  ultimately show ?case using Suc by simp
qed simp

lemma load_slice:
  assumes "cstring m f F" and "i \<le> j" and "j \<le> length F"
  shows "load_bytes m (f + of_nat i) (unat (f + of_nat j - (f + of_nat i) :: u64)) =
    take (j - i) (drop i F)"
proof -
  have "length F < 2 ^ 64" using assms(1) by (simp add: cstring_def)
  then have "unat (of_nat j - of_nat i :: u64) = j - i"
    using assms(2,3) by (simp add: of_nat_diff [symmetric] del: of_nat_diff)
  then show ?thesis
    using assms(2,3) cstring_nth[OF assms(1)]
    by (auto intro!: nth_equalityI simp: load_bytes_def add.assoc simp flip: of_nat_add)
qed

lemma printf_flush:
  assumes F: "cstring m f F" and "i \<le> j" and "j < length F" and "F ! j = of_char (CHR ''%'')"
  shows "printf_loop m (pstate f i j False k a out) =
    printf_loop m (pstate f i (Suc j) True k a (out @ [take (j - i) (drop i F)]))"
proof -
  have "m (f + of_nat j) = of_char (CHR ''%'')" using cstring_nth[OF F assms(3)] assms(4) by simp
  then have "printf_char m (pstate f i j False k a out) =
      Some (pstate f i j True k a (out @ [take (j - i) (drop i F)]))"
    using load_slice[OF F assms(2)] assms(3) by (simp add: printf_char_def pstate_def write_out_def)
  then show ?thesis
    using assms(3) by (subst printf_loop_char[OF F]) (simp_all add: pstate_def algebra_simps)
qed

lemma printf_second_percent:
  assumes F: "cstring m f F" and "j < length F" and "F ! j = of_char (CHR ''%'')"
  shows "printf_loop m (pstate f i j True k a out) = printf_loop m (pstate f j (Suc j) False k a out)"
proof -
  have "m (f + of_nat j) = of_char (CHR ''%'')" using cstring_nth[OF F assms(2)] assms(3) by simp
  then have "printf_char m (pstate f i j True k a out) = Some (pstate f j j False k a out)"
    by (simp add: printf_char_def pstate_def)
  then show ?thesis
    using assms(2) by (subst printf_loop_char[OF F]) (simp_all add: pstate_def algebra_simps)
qed

lemma printf_long:
  assumes F: "cstring m f F" and "j + n \<le> length F"
    and "take n (drop j F) = replicate n (of_char (CHR ''l''))"
  shows "\<exists>i'. printf_loop m (pstate f i j True k a out) =
    printf_loop m (pstate f i' (j + n) True (k + n) a out)"
  using assms(2,3)
proof (induction n arbitrary: i j k)
  case (Suc n)
  have j: "j < length F" using Suc.prems(1) by simp
  have "F ! j = of_char (CHR ''l'')"
    using arg_cong[OF Suc.prems(2), of hd] j by (simp add: hd_drop_conv_nth)
  then have "m (f + of_nat j) = of_char (CHR ''l'')" using cstring_nth[OF F j] by simp
  then have "printf_char m (pstate f i j True k a out) = Some (pstate f (Suc j) j True (Suc k) a out)"
    by (simp add: printf_char_def pstate_def)
  then have "printf_loop m (pstate f i j True k a out) =
      printf_loop m (pstate f (Suc j) (Suc j) True (Suc k) a out)"
    using j by (subst printf_loop_char[OF F]) (simp_all add: pstate_def algebra_simps)
  moreover have "take n (drop (Suc j) F) = replicate n (of_char (CHR ''l''))"
    using arg_cong[OF Suc.prems(2), of tl] j by (simp add: tl_take tl_drop [symmetric] drop_Suc)
  ultimately show ?case using Suc.IH[of "Suc j" "Suc j" "Suc k"] Suc.prems(1) by simp
qed auto

lemma printf_conversion:
  assumes F: "cstring m f F" and j: "j < length F"
    and c: "item_ok (Conv k (F ! j))" "shows_arg m k (F ! j) x bs"
  shows "printf_loop m (pstate f i j True k (x # a) out) =
    printf_loop m (pstate f (Suc j) (Suc j) False 0 a (out @ [bs]))"
proof -
  obtain put where put: "conversion m k (F ! j) = Some put" "put x = Some bs"
    using conversion_shows[OF c(2,1)] by blast
  have "m (f + of_nat j) = F ! j" using cstring_nth[OF F j] by simp
  moreover have "F ! j \<noteq> of_char (CHR ''%'')" "F ! j \<noteq> of_char (CHR ''l'')" using c(1) by auto
  ultimately have "printf_char m (pstate f i j True k (x # a) out) =
      Some (pstate f (Suc j) j False 0 a (out @ [bs]))"
    using put by (simp add: printf_char_def pstate_def va_arg_def write_out_def algebra_simps)
  then show ?thesis
    using j by (subst printf_loop_char[OF F]) (simp_all add: pstate_def algebra_simps)
qed

definition finish :: "mem \<Rightarrow> printf_state \<Rightarrow> u8 list list" where
  "finish m s = written (write_out (load_bytes m (first s) (unat (last_char s - first s))) s)"

lemma printf_end:
  assumes F: "cstring m f F" and "i \<le> length F"
  shows "map_option (finish m) (printf_loop m (pstate f i (length F) b k a out)) =
    Some (out @ [drop i F])"
proof -
  have "m (f + of_nat (length F)) = 0" using F by (simp add: cstring_def)
  then show ?thesis
    using load_slice[OF F assms(2)]
    by (subst printf_loop.simps) (simp add: pstate_def finish_def write_out_def)
qed

lemma printf_percent_step:
  assumes F: "cstring m f F" and i: "i \<le> j"
    and d: "drop j F = of_char (CHR ''%'') # of_char (CHR ''%'') # rest"
  shows "printf_loop m (pstate f i j False 0 args out) =
      printf_loop m (pstate f (Suc j) (Suc (Suc j)) False 0 args (out @ [take (j - i) (drop i F)]))
    \<and> take 1 (drop (Suc j) F) = [of_char (CHR ''%'')] \<and> drop (Suc (Suc j)) F = rest
    \<and> Suc (Suc j) \<le> length F"
proof -
  have len: "Suc j < length F" using arg_cong[OF d, of length] by simp
  have at: "F ! j = of_char (CHR ''%'')" "F ! Suc j = of_char (CHR ''%'')"
    using arg_cong[OF d, of "\<lambda>xs. xs ! 0"] arg_cong[OF d, of "\<lambda>xs. xs ! 1"] len by simp_all
  have "take 1 (drop (Suc j) F) = [of_char (CHR ''%'')]"
    using at len by (simp add: take_Suc_conv_app_nth)
  then show ?thesis
    using printf_flush[OF F, of i j] printf_second_percent[OF F, of "Suc j"] at len i
      arg_cong[OF d, of "drop 2"] by simp
qed

lemma printf_conversion_step:
  assumes F: "cstring m f F" and i: "i \<le> j"
    and d: "drop j F = of_char (CHR ''%'') # replicate k (of_char (CHR ''l'')) @ c # rest"
    and conv: "item_ok (Conv k c)" "shows_arg m k c x bs"
  shows "printf_loop m (pstate f i j False 0 (x # args) out) =
      printf_loop m (pstate f (Suc (Suc j + k)) (Suc (Suc j + k)) False 0 args
        (out @ [take (j - i) (drop i F)] @ [bs]))
    \<and> drop (Suc (Suc j + k)) F = rest \<and> Suc (Suc j + k) \<le> length F"
proof -
  let ?j = "Suc j + k"
  have len: "?j < length F" using arg_cong[OF d, of length] by simp
  have pc: "F ! j = of_char (CHR ''%'')" using arg_cong[OF d, of "\<lambda>xs. xs ! 0"] len by simp
  have l: "drop (Suc j) F = replicate k (of_char (CHR ''l'')) @ c # rest"
    using arg_cong[OF d, of "drop 1"] by simp
  have c: "F ! ?j = c" using arg_cong[OF l, of "\<lambda>xs. xs ! k"] len by (simp add: nth_append)
  have rest: "drop (Suc ?j) F = rest"
    using arg_cong[OF l, of "drop (Suc k)"] by (simp add: add.commute)
  obtain i' where "printf_loop m (pstate f i (Suc j) True 0 (x # args) (out @ [take (j - i) (drop i F)])) =
      printf_loop m (pstate f i' ?j True k (x # args) (out @ [take (j - i) (drop i F)]))"
    using printf_long[OF F, of "Suc j" k i 0] len l by auto
  then show ?thesis
    using printf_flush[OF F, of i j] printf_conversion[OF F len, of k x bs] pc c len rest i conv
    by simp
qed

lemma printf_items:
  assumes F: "cstring m f F"
  shows "renders m its args str \<Longrightarrow> \<forall>it \<in> set its. item_ok it \<Longrightarrow> i \<le> j \<Longrightarrow> j \<le> length F \<Longrightarrow>
    drop j F = concat (map item_bytes its) \<Longrightarrow>
    \<exists>ws. map_option (finish m) (printf_loop m (pstate f i j False 0 args out)) = Some (out @ ws)
      \<and> concat ws = take (j - i) (drop i F) @ str"
proof (induction its args str arbitrary: i j out rule: renders.induct)
  case (renders_Nil args)
  then have "j = length F" by simp
  then show ?case using printf_end[OF F, of i False 0 args out] renders_Nil by auto
next
  case (renders_Text its args str bs)
  then have bs: "take (length bs) (drop j F) = bs" by simp
  have len: "length bs \<le> length F - j"
    using arg_cong[OF renders_Text.prems(4), of length] by simp
  then have "printf_loop m (pstate f i j False 0 args out) =
      printf_loop m (pstate f i (j + length bs) False 0 args out)"
    using renders_Text.prems(1,3) bs by (intro printf_literal[OF F]) auto
  moreover have "drop (j + length bs) F = concat (map item_bytes its)"
    using arg_cong[OF renders_Text.prems(4), of "drop (length bs)"] by (simp add: add.commute)
  moreover have "take (j + length bs - i) (drop i F) = take (j - i) (drop i F) @ bs"
    using bs renders_Text.prems(2) take_add[of "j - i" "length bs" "drop i F"] by simp
  ultimately show ?case
    using renders_Text.IH[of i "j + length bs" out] renders_Text.prems len by simp
next
  case (renders_Percent its args str)
  have d: "drop j F = of_char (CHR ''%'') # of_char (CHR ''%'') # concat (map item_bytes its)"
    using renders_Percent.prems(4) by simp
  show ?case
    using printf_percent_step[OF F renders_Percent.prems(2) d, of args out]
      renders_Percent.IH[of "Suc j" "Suc (Suc j)" "out @ [take (j - i) (drop i F)]"]
      renders_Percent.prems(1) by force
next
  case (renders_Conv k c x bs its args str)
  have d: "drop j F = of_char (CHR ''%'') # replicate k (of_char (CHR ''l'')) @ c # concat (map item_bytes its)"
    using renders_Conv.prems(4) by simp
  have conv: "item_ok (Conv k c)" using renders_Conv.prems(1) by simp
  show ?case
    using printf_conversion_step[OF F renders_Conv.prems(2) d conv renders_Conv.hyps(1), of args out]
      renders_Conv.IH[of "Suc (Suc j + k)" "Suc (Suc j + k)" "out @ [take (j - i) (drop i F)] @ [bs]"]
      renders_Conv.prems(1) by force
qed

lemma hex_text_shape:
  assumes "n < 16 ^ w" and "0 < w"
  shows "take 2 (hex_text w n) = map of_char ''0x''" and "length (hex_text w n) = w + 2"
    and "numeral_value 16 (drop 2 (hex_text w n)) = n"
proof -
  have len: "length (numeral_text 16 n) \<le> w" using assms by (intro length_numeral_text) simp_all
  have zeros: "foldl (\<lambda>n d. n * 16 + digit_value d) 0 (replicate k 48) = 0" for k
    by (induction k) (simp_all add: digit_value_def)
  show "take 2 (hex_text w n) = map of_char ''0x''" by (simp add: hex_text_def)
  show "length (hex_text w n) = w + 2" using len by (simp add: hex_text_def)
  show "numeral_value 16 (drop 2 (hex_text w n)) = n"
    using numeral_value_text[of 16 n] by (simp add: hex_text_def numeral_value_def zeros)
qed

lemma int_text_value:
  "if n < 0 then hd (int_text n) = of_char (CHR ''-'') \<and> int (numeral_value 10 (tl (int_text n))) = - n
   else int (numeral_value 10 (int_text n)) = n"
  by (simp add: int_text_def numeral_value_text)

section \<open>The arguments a format asks for\<close>

text \<open>
  How many arguments the rest of a format consumes, read in format mode when \<open>b\<close>; as in the code,
  an unknown letter leaves the mode on.
\<close>

fun arity :: "bool \<Rightarrow> u8 list \<Rightarrow> nat" where
  "arity b [] = 0"
| "arity b (c # cs) =
     (if c = of_char (CHR ''%'') then arity (\<not> b) cs
      else if b \<and> c \<in> set (map of_char ''duscxp'') then Suc (arity False cs)
      else arity b cs)"

lemma conversion_total:
  assumes "m z = 0"
  shows "if c \<in> set (map of_char ''duscxp'') then \<exists>put. conversion m k c = Some put \<and> (\<forall>x. put x \<noteq> None)
    else conversion m k c = None"
proof -
  have "strlen m x \<noteq> None" for x using strlen_returns assms by blast
  then have "puts m x \<noteq> None" for x by (simp add: puts_def)
  then show ?thesis
    by (auto simp: conversion_def put_d_def put_u_def putc_def put_int_text put_unsigned_text put_hex_text
        put_ul_hex_text)
qed

lemma printf_char_arity:
  assumes "m (last_char s) = c" and "m z = 0"
  shows "case printf_char m s of
      None \<Rightarrow> length (ap s) < arity (format_mode s) (c # cs)
    | Some s' \<Rightarrow> last_char s' = last_char s \<and>
        (arity (format_mode s) (c # cs) \<le> length (ap s) \<longleftrightarrow> arity (format_mode s') cs \<le> length (ap s'))"
proof (cases "format_mode s \<and> c \<in> set (map of_char ''duscxp'')")
  case False
  then have "conversion m (n_long s) c = None \<or> \<not> format_mode s"
    using conversion_total[of m z c "n_long s", OF assms(2)] by auto
  then show ?thesis using assms(1) False by (auto simp: printf_char_def write_out_def Let_def)
next
  case True
  then obtain put where put: "conversion m (n_long s) c = Some put" "\<And>x. put x \<noteq> None"
    using conversion_total[of m z c "n_long s", OF assms(2)] by auto
  have "c \<noteq> of_char (CHR ''l'')" "c \<noteq> of_char (CHR ''%'')" using True by auto
  then show ?thesis
    using assms(1) True put(1) put(2)[of "hd (ap s)"]
    by (cases "ap s") (auto simp: printf_char_def va_arg_def write_out_def Let_def)
qed

lemma printf_loop_arity:
  assumes F: "cstring m f F"
  shows "j \<le> length F \<Longrightarrow> last_char s = f + of_nat j \<Longrightarrow>
    printf_loop m s \<noteq> None \<longleftrightarrow> arity (format_mode s) (drop j F) \<le> length (ap s)"
proof (induction "length F - j" arbitrary: j s)
  case 0
  then have "m (last_char s) = 0" using F by (simp add: cstring_def)
  then show ?case using 0 by (subst printf_loop.simps) simp
next
  case (Suc d)
  then have j: "j < length F" by simp
  have at: "m (last_char s) = F ! j" "F ! j \<noteq> 0" using cstring_nth[OF F j] Suc.prems(2) by simp_all
  have cs: "drop j F = F ! j # drop (Suc j) F" using j by (simp add: Cons_nth_drop_Suc)
  have z: "m (f + of_nat (length F)) = 0" using F by (simp add: cstring_def)
  note step = printf_char_arity[of m s "F ! j" "f + of_nat (length F)" "drop (Suc j) F", OF at(1) z]
  show ?case
  proof (cases "printf_char m s")
    case None
    then show ?thesis using step at by (subst printf_loop.simps) (simp add: cs)
  next
    case (Some s')
    have "printf_loop m (s'\<lparr>last_char := last_char s' + 1\<rparr>) \<noteq> None \<longleftrightarrow>
        arity (format_mode s') (drop (Suc j) F) \<le> length (ap s')"
      using Suc.hyps(1)[of "Suc j" "s'\<lparr>last_char := last_char s' + 1\<rparr>"] Suc.hyps(2) Suc.prems Some step j
      by (simp add: algebra_simps)
    then show ?thesis using step at Some by (subst printf_loop.simps) (simp add: cs)
  qed
qed

section \<open>Properties\<close>


definition printf_mem :: mem where
  "printf_mem = store_bytes (store_bytes (\<lambda>_. 0) 16 (map of_char ''n=%ld %s%%'')) 64 (map of_char ''ok'')"




text \<open>C35: the decimal conversions print every value so that reading the text back gives the value:
\<open>put_unsigned\<close> in at most 20 digits, \<open>put_int\<close> with a leading minus sign exactly for negative
values, \<open>LLONG_MIN\<close> included, and \<open>put_hex\<close> and \<open>put_ul_hex\<close> in exactly 8 and 16 digits after
\<open>0x\<close>.\<close>

theorem printed_numbers_read_back:
  "(\<exists>t. put_unsigned n = Some t \<and> numeral_value 10 t = unat n \<and> length t \<le> 20)
   \<and> (\<exists>t. put_int n = Some t
        \<and> (if sint n < 0 then hd t = of_char (CHR ''-'') \<and> int (numeral_value 10 (tl t)) = - sint n
           else int (numeral_value 10 t) = sint n))
   \<and> (\<exists>t. put_hex w = Some t \<and> take 2 t = map of_char ''0x'' \<and> length t = 10
        \<and> numeral_value 16 (drop 2 t) = unat w)
   \<and> (\<exists>t. put_ul_hex n = Some t \<and> take 2 t = map of_char ''0x'' \<and> length t = 18
        \<and> numeral_value 16 (drop 2 t) = unat n)"
proof (intro conjI)
  have "length (numeral_text 10 (unat n)) \<le> 20"
    by (intro length_numeral_text less_trans[OF unat_lt64]) simp_all
  then show "\<exists>t. put_unsigned n = Some t \<and> numeral_value 10 t = unat n \<and> length t \<le> 20"
    by (simp add: put_unsigned_text numeral_value_text)
  show "\<exists>t. put_int n = Some t \<and> (if sint n < 0
      then hd t = of_char (CHR ''-'') \<and> int (numeral_value 10 (tl t)) = - sint n
      else int (numeral_value 10 t) = sint n)"
    using int_text_value[of "sint n"] by (auto simp: put_int_text)
  have "unat w < 16 ^ 8" "unat n < 16 ^ 16"
    using unsigned_less[of w, where ?'a = nat] unat_lt64[of n] by simp_all
  then show "\<exists>t. put_hex w = Some t \<and> take 2 t = map of_char ''0x'' \<and> length t = 10
      \<and> numeral_value 16 (drop 2 t) = unat w"
    and "\<exists>t. put_ul_hex n = Some t \<and> take 2 t = map of_char ''0x'' \<and> length t = 18
      \<and> numeral_value 16 (drop 2 t) = unat n"
    using hex_text_shape[of "unat w" 8] hex_text_shape[of "unat n" 16]
    by (simp_all add: put_hex_text put_ul_hex_text)
qed

text \<open>A format that ends in a single \<open>%\<close> prints its last literal text twice.\<close>

theorem printf_trailing_percent:
  assumes "cstring m format (bs @ [of_char (CHR ''%'')])" and "of_char (CHR ''%'') \<notin> set bs"
  shows "generic_printf m format args = Some [bs, bs @ [of_char (CHR ''%'')]]"
proof -
  let ?F = "bs @ [of_char (CHR ''%'')]"
  have "generic_printf m format args =
      map_option (finish m) (printf_loop m (pstate format 0 0 False 0 args []))"
    by (simp add: generic_printf_def pstate_def finish_def cong: map_option_cong)
  also have "\<dots> = map_option (finish m) (printf_loop m (pstate format 0 (length bs) False 0 args []))"
    using printf_literal[OF assms(1), of 0 "length bs"] assms(2) by simp
  also have "\<dots> = map_option (finish m) (printf_loop m (pstate format 0 (length ?F) True 0 args [bs]))"
    using printf_flush[OF assms(1), of 0 "length bs"] by simp
  also have "\<dots> = Some [bs, ?F]"
    using printf_end[OF assms(1), of 0 True 0 args "[bs]"] by auto
  finally show ?thesis .
qed

theorem printf_trailing_percent_witness:
  "generic_printf (store_bytes (\<lambda>_. 0) 16 (map of_char ''5%'')) 16 [] =
    Some [map of_char ''5'', map of_char ''5%'']"
  using printf_trailing_percent[of "store_bytes (\<lambda>_. 0) 16 (map of_char ''5%'')" 16 "map of_char ''5''" "[]"]
  by (simp add: store_bytes_def)

end
