(* ===== verification/ElfNames.thy ===== *)
theory ElfNames
  imports Elf
begin

text \<open>
  The name tables of \<open>include/elf.h\<close>: arrays of string literals with designated initializers,
  indexed by the enumerations of the ELF specification. A table is the list of its initialized
  elements with their indices; the C array ends at the largest one, and an element that no
  initializer names is \<open>NULL\<close>.
\<close>

section \<open>Tables\<close>

type_synonym name_table = "(nat \<times> string) list"

datatype name_cell = Outside | Null | Named string

definition names_from :: "nat \<Rightarrow> string list \<Rightarrow> name_table" where
  "names_from k ns = zip [k..<k + length ns] ns"

definition table_length :: "name_table \<Rightarrow> nat" where
  "table_length t = foldr (\<lambda>(i, _) n. max (Suc i) n) t 0"

definition name_at :: "name_table \<Rightarrow> nat \<Rightarrow> name_cell" where
  "name_at t i =
     (if table_length t \<le> i then Outside
      else case map_of t i of None \<Rightarrow> Null | Some s \<Rightarrow> Named s)"

definition elf_class_str :: name_table where
  "elf_class_str = names_from 0 [''NONE'', ''32'', ''64'']"

definition elf_endianness_str :: name_table where
  "elf_endianness_str = names_from 0 [''NONE'', ''LITTLE'', ''BIG'']"

definition elf_osabi_str :: name_table where
  "elf_osabi_str = names_from 0
     [''SYSV'', ''HPUX'', ''NETBSD'', ''LINUX'', ''SOLARIS'', ''AIX'', ''IRIX'', ''FREEBSD'',
      ''TRU64'', ''MODESTO'', ''OPENBSD'', ''ARM_AEABI'', ''ARM''] @ [(255, ''STANDALONE'')]"

definition elf_type_str :: name_table where
  "elf_type_str = names_from 0 [''NONE'', ''REL'', ''EXEC'', ''DYN'', ''CORE'']"

definition elf_machine_str :: name_table where
  "elf_machine_str = names_from 0
     [''NONE'', ''M32'', ''SPARC'', ''386'', ''68K'', ''88K'', ''860'', ''MIPS'', ''MIPS_RS4_BE'']
     @ [(62, ''X86_64'')]"

definition elf_version_str :: name_table where
  "elf_version_str = names_from 0 [''NONE'', ''CURRENT'']"

definition elf_section_type_str :: name_table where
  "elf_section_type_str = names_from 0
     [''NULL'', ''PROGBITS'', ''SYMTAB'', ''STRTAB'', ''RELA'', ''HASH'', ''DYNAMIC'', ''NOTE'',
      ''NOBITS'', ''REL'', ''RESERVED'', ''DYNSYM'', ''INIT_ARRAY'', ''FINI_ARRAY'',
      ''PREINIT_ARRAY'', ''GROUP'']"

definition elf_section_flags_str :: "string list" where
  "elf_section_flags_str =
     [''COMPRESSED'', ''TLS'', ''OS_NONCONFORMING'', ''LINK_ORDER'', ''INFO_LINK'',
      ''STRINGS'', ''MERGE'', ''EXECINSTR'', ''ALLOC'', ''WRITE'']"

definition elf_symbol_binding_str :: name_table where
  "elf_symbol_binding_str = names_from 0 [''LOCAL'', ''GLOBAL'', ''WEAK'']"

definition elf_symbol_type_str :: name_table where
  "elf_symbol_type_str = names_from 0
     [''NOTYPE'', ''OBJECT'', ''FUNC'', ''SECTION'', ''FILE'', ''COMMON'', ''TLS'']"

definition elf_relocation_type_str :: name_table where
  "elf_relocation_type_str = names_from 0
     [''NONE'', ''64'', ''PC32'', ''GOT32'', ''PLT32'', ''COPY'', ''GLOB_DAT'', ''JUMP_SLOT'',
      ''RELATIVE'', ''GOTPCREL'', ''32'', ''32S'', ''16'', ''PC16'', ''8'', ''PC8'',
      ''DTPMOD64'', ''DTPOFF64'', ''TPOFF64'', ''TLSGD'', ''TLSLD'', ''DTPOFF32'', ''GOTTPOFF'',
      ''TPOFF32'', ''PC64'', ''GOTOFF64'', ''GOTPC32'']
   @ names_from 32
     [''SIZE32'', ''SIZE64'', ''GOTPC32_TLSDESC'', ''TLSDESC_CALL'', ''TLSDESC'', ''IRELATIVE'',
      ''RELATIVE64'', ''DEPRECATED_39'', ''DEPRECATED_40'', ''GOTPCRELX'', ''REX_GOTPCRELX'']"

definition elf_segment_type_str :: name_table where
  "elf_segment_type_str =
     names_from 0 [''NULL'', ''LOAD'', ''DYNAMIC'', ''INTERP'', ''NOTE'', ''SHLIB'', ''PHDR'', ''TLS'']
     @ [(unat PT_NUM + 0, ''STACK''), (unat PT_NUM + 1, ''RELRO'')]"

definition elf_dyn_tag_str :: name_table where
  "elf_dyn_tag_str = names_from 0
     [''NULL'', ''NEEDED'', ''PLTRELSZ'', ''PLTGOT'', ''HASH'', ''STRTAB'', ''SYMTAB'', ''RELA'',
      ''RELASZ'', ''RELAENT'', ''STRSZ'', ''SYMENT'', ''INIT'', ''FINI'', ''SONAME'', ''RPATH'',
      ''SYMBOLIC'', ''REL'', ''RELSZ'', ''RELENT'', ''PLTREL'', ''DEBUG'', ''TEXTREL'', ''JMPREL'',
      ''BIND_NOW'', ''INIT_ARRAY'', ''FINI_ARRAY'', ''INIT_ARRAYSZ'', ''FINI_ARRAYSZ'']"

section \<open>Lookups\<close>

lemma table_length_append [simp]: "table_length (t @ u) = max (table_length t) (table_length u)"
  by (induction t) (auto simp: table_length_def)

lemma table_length_single [simp]: "table_length [(i, s)] = Suc i"
  by (simp add: table_length_def)

lemma table_length_Cons [simp]: "table_length ((i, s) # t) = max (Suc i) (table_length t)"
  by (simp add: table_length_def)

lemma names_from_Cons: "names_from k (n # ns) = (k, n) # names_from (Suc k) ns"
  by (simp add: names_from_def upt_conv_Cons del: upt_Suc)

lemma names_from_Nil: "names_from k [] = []"
  by (simp add: names_from_def)

lemma table_length_names_from [simp]:
  "table_length (names_from k ns) = (if ns = [] then 0 else k + length ns)"
  by (induction ns arbitrary: k) (auto simp: names_from_Cons names_from_Nil table_length_def)

lemma map_of_names_from [simp]:
  "map_of (names_from k ns) i = (if k \<le> i \<and> i < k + length ns then Some (ns ! (i - k)) else None)"
  by (induction ns arbitrary: k) (auto simp: names_from_Cons names_from_Nil nth_Cons' Suc_diff_le)

text \<open>A table without gaps names exactly the indices below its length.\<close>

lemma name_at_names_from:
  "name_at (names_from 0 ns) i = (if i < length ns then Named (ns ! i) else Outside)"
  by (auto simp: name_at_def)

lemma name_at_relocation:
  "name_at elf_relocation_type_str i = Outside \<longleftrightarrow> 43 \<le> i"
  "name_at elf_relocation_type_str i = Null \<longleftrightarrow> i \<in> {27..31}"
  by (auto simp: name_at_def elf_relocation_type_str_def split: option.splits if_splits)

definition ascii :: "char \<Rightarrow> bool" where
  "ascii c \<longleftrightarrow> 0 < (of_char c :: nat) \<and> (of_char c :: nat) < 128"

text \<open>Every element of the segment names is initialized, with a short name.\<close>

definition short_name :: "name_cell \<Rightarrow> bool" where
  "short_name c = (case c of Named s \<Rightarrow> length s \<le> 8 \<and> list_all ascii s | _ \<Rightarrow> False)"

lemma short_nameE:
  assumes "short_name c"
  obtains s where "c = Named s" and "length s \<le> 8" and "list_all ascii s"
  using assms by (cases c) (auto simp: short_name_def)

lemma name_at_segment:
  assumes "i < 10"
  shows "short_name (name_at elf_segment_type_str i)"
proof -
  have "list_all (\<lambda>i. short_name (name_at elf_segment_type_str i)) [0..<10]" by code_simp
  then show ?thesis using assms by (simp only: list_all_iff set_upt) simp
qed

end
