(* ===== verification/Console.thy ===== *)
theory Console
  imports ElfNames MmapInit
begin

text \<open>
  What the boot loader prints: the control registers, the memory map and the program headers
  (\<open>efi/opsys-loader.c\<close>), the message of \<open>exit_status\<close> and the string conversion \<open>a2u\<close>
  (\<open>efi/efi-wrapper.c\<close>), with the name tables of \<open>efi/efi-wrapper.h\<close> and the flag
  enumerations of \<open>include/opsys/x86.h\<close>. gnu-efi's \<open>Print\<close> is not part of the program: output
  is the list of its calls, each a format with its arguments. \<open>None\<close> is undefined behaviour,
  a read outside a name table or a write outside the buffer of \<open>a2u\<close>.
\<close>

section \<open>Calls of Print\<close>

datatype print_arg = Lit string | Wide "u16 list" | Chr char | Num u64 | NullStr

type_synonym print_call = "string \<times> print_arg list"

definition LF :: string where "LF = [CHR 0x0A]"

fun all_calls :: "print_call list option list \<Rightarrow> print_call list option" where
  "all_calls [] = Some []"
| "all_calls (c # cs) =
     (case c of None \<Rightarrow> None | Some ps \<Rightarrow> map_option (\<lambda>qs. ps @ qs) (all_calls cs))"

section \<open>Flags\<close>

type_synonym flags = "(string \<times> u64) list"

definition cr0_flags :: flags where
  "cr0_flags =
     [(''PE'', push_bit 0 1), (''MP'', push_bit 1 1), (''EM'', push_bit 2 1), (''TS'', push_bit 3 1),
      (''ET'', push_bit 4 1), (''NE'', push_bit 5 1), (''WP'', push_bit 16 1), (''AM'', push_bit 18 1),
      (''NW'', push_bit 29 1), (''CD'', push_bit 30 1), (''PG'', push_bit 31 1)]"

definition cr4_flags :: flags where
  "cr4_flags =
     [(''VME'', push_bit 0 1), (''PVI'', push_bit 1 1), (''TSD'', push_bit 2 1), (''DE'', push_bit 3 1),
      (''PSE'', push_bit 4 1), (''PAE'', push_bit 5 1), (''MCE'', push_bit 6 1), (''PGE'', push_bit 7 1),
      (''PCE'', push_bit 8 1), (''OSFXSR'', push_bit 9 1), (''OSXMMEXCPT'', push_bit 10 1),
      (''UMIP'', push_bit 11 1), (''VMXE'', push_bit 13 1), (''SMXE'', push_bit 14 1),
      (''FSGSBASE'', push_bit 16 1), (''PCIDE'', push_bit 17 1), (''OSXSAVE'', push_bit 18 1),
      (''SMEP'', push_bit 20 1), (''SMAP'', push_bit 21 1), (''PKE'', push_bit 22 1)]"

definition IA32_EFER :: u32 where "IA32_EFER = 0xc0000080"

definition ia32_efer_flags :: flags where
  "ia32_efer_flags =
     [(''SYSCALL'', push_bit 0 1), (''LME'', push_bit 8 1), (''LMA'', push_bit 10 1),
      (''NXE'', push_bit 11 1)]"

text \<open>The macros \<open>PRINT_CR0\<close>, \<open>PRINT_CR4\<close>, \<open>PRINT_EFER\<close> and \<open>PRINT_ATTR\<close>, one call per set flag.\<close>

definition print_flags :: "string \<Rightarrow> flags \<Rightarrow> u64 \<Rightarrow> print_call list" where
  "print_flags fmt fs r = map (\<lambda>(n, _). (fmt, [Lit n])) (filter (\<lambda>(_, m). r AND m \<noteq> 0) fs)"

definition print_cr0 :: "u64 \<Rightarrow> print_call list" where
  "print_cr0 r = (''cr0: '', []) # print_flags ''%s '' cr0_flags r @ [(LF, [])]"

definition print_cr4 :: "u64 \<Rightarrow> print_call list" where
  "print_cr4 r = (''cr4: '', []) # print_flags ''%s '' cr4_flags r @ [(LF, [])]"

definition print_efer :: "(u32 \<Rightarrow> u32 \<times> u32) \<Rightarrow> print_call list" where
  "print_efer msr =
     (''ia32_efer: '', []) # print_flags ''%s '' ia32_efer_flags (read_msr msr IA32_EFER) @ [(LF, [])]"

text \<open>The registers are parameters: what \<open>get_cr0\<close>, \<open>get_cr3\<close> and \<open>get_cr4\<close> read.\<close>

definition efi_debug_entry ::
  "u64 \<Rightarrow> u64 \<Rightarrow> u64 \<Rightarrow> u64 \<Rightarrow> (u32 \<Rightarrow> u32 \<times> u32) \<Rightarrow> print_call list" where
  "efi_debug_entry ImageBase r0 r3 r4 msr =
     [(''ImageBase: 0x%lx'' @ LF, [Num ImageBase])] @ print_cr0 r0
     @ [(''cr3: 0x%lx'' @ LF, [Num r3])] @ print_cr4 r4 @ print_efer msr"

section \<open>Program headers\<close>

text \<open>
  \<open>a2u\<close> copies into a static array of 64 \<open>CHAR16\<close>; \<open>char\<close> is signed. The array is passed to
  \<open>Print\<close> at once, so its contents are the result.
\<close>

fun a2u_loop :: "u16 list \<Rightarrow> nat \<Rightarrow> u8 list \<Rightarrow> u16 list option" where
  "a2u_loop u k [] = None"
| "a2u_loop u k (c # a) =
     (if length u \<le> k then None
      else let u = u[k := scast c] in if c = 0 then Some u else a2u_loop u (k + 1) a)"

definition a2u :: "u16 list \<Rightarrow> u8 list \<Rightarrow> u16 list option" where
  "a2u u a = a2u_loop u 0 a"

definition print_name :: "u16 list \<Rightarrow> name_cell \<Rightarrow> print_call list option" where
  "print_name u c =
     (case c of
        Named s \<Rightarrow> map_option (\<lambda>w. [(''%-8s '', [Wide w])]) (a2u u (map of_char s @ [0]))
      | _ \<Rightarrow> None)"

text \<open>\<open>u\<close> is what the static array holds before; whatever it is, it has 64 elements.\<close>

definition print_program_header :: "u16 list \<Rightarrow> Elf64_Phdr \<Rightarrow> print_call list option" where
  "print_program_header u ph =
     all_calls
       [if p_type ph < PT_NUM then
          print_name u (name_at elf_segment_type_str (unat (p_type ph)))
        else if PT_GNU_STACK \<le> p_type ph \<and> p_type ph \<le> PT_GNU_RELRO then
          print_name u (name_at elf_segment_type_str (unat (PT_NUM + p_type ph - PT_GNU_STACK)))
        else Some [(''%-8x '', [Num (ucast (p_type ph))])],
        Some [(''%c%c%c   %8lx %8lx %16lx %8lx %8lx %lu'' @ LF,
          [Chr (if p_flags ph AND PF_R \<noteq> 0 then CHR ''R'' else CHR '' ''),
           Chr (if p_flags ph AND PF_W \<noteq> 0 then CHR ''W'' else CHR '' ''),
           Chr (if p_flags ph AND PF_X \<noteq> 0 then CHR ''X'' else CHR '' ''),
           Num (p_offset ph), Num (p_filesz ph), Num (p_vaddr ph), Num (p_memsz ph),
           Num (p_paddr ph), Num (NUM_PAGES (p_vaddr ph) (p_memsz ph))])]]"

definition program_headers_title :: "print_call list" where
  "program_headers_title =
     [(''program headers:'' @ LF, []),
      (''%-8s %5s %8s %8s %8s %16s %8s %s'' @ LF,
       [Lit ''type'', Lit ''flags'', Lit ''offset'', Lit ''filesz'', Lit ''vaddr'', Lit ''memsz'',
        Lit ''paddr'', Lit ''n pages''])]"

definition print_program_headers :: "u16 list \<Rightarrow> Elf64_Phdr list \<Rightarrow> print_call list option" where
  "print_program_headers u hs =
     (if hs = [] then Some []
      else all_calls (Some program_headers_title # map (print_program_header u) hs))"

section \<open>The memory map\<close>

definition efi_memory_type_str :: name_table where
  "efi_memory_type_str = names_from 0
     [''ReservedMemoryType'', ''LoaderCode'', ''LoaderData'', ''BootServicesCode'',
      ''BootServicesData'', ''RuntimeServicesCode'', ''RuntimeServicesData'', ''ConventionalMemory'',
      ''UnusableMemory'', ''ACPIReclaimMemory'', ''ACPIMemoryNVS'', ''MemoryMappedIO'',
      ''MemoryMappedIOPortSpace'', ''PalCode'']"

text \<open>The value of the 32-bit field.\<close>

fun memory_type_number :: "EFI_MEMORY_TYPE \<Rightarrow> u32" where
  "memory_type_number EfiReservedMemoryType = 0"
| "memory_type_number EfiLoaderCode = 1"
| "memory_type_number EfiLoaderData = 2"
| "memory_type_number EfiBootServicesCode = 3"
| "memory_type_number EfiBootServicesData = 4"
| "memory_type_number EfiRuntimeServicesCode = 5"
| "memory_type_number EfiRuntimeServicesData = 6"
| "memory_type_number EfiConventionalMemory = 7"
| "memory_type_number EfiUnusableMemory = 8"
| "memory_type_number EfiACPIReclaimMemory = 9"
| "memory_type_number EfiACPIMemoryNVS = 10"
| "memory_type_number EfiMemoryMappedIO = 11"
| "memory_type_number EfiMemoryMappedIOPortSpace = 12"
| "memory_type_number EfiPalCode = 13"
| "memory_type_number (EfiOtherMemoryType n) = n"

text \<open>The attribute bits are those of the UEFI specification.\<close>

definition memory_attributes :: flags where
  "memory_attributes =
     [(''XP'', 0x4000), (''RP'', 0x2000), (''WP'', 0x1000), (''UCE'', 0x10), (''WB'', 0x8),
      (''WT'', 0x4), (''WC'', 0x2), (''UC'', 0x1), (''RUNTIME'', EFI_MEMORY_RUNTIME)]"

text \<open>What \<open>%s\<close> is given for an element of an array of wide string literals.\<close>

definition name_arg :: "name_cell \<Rightarrow> print_arg option" where
  "name_arg c = (case c of Outside \<Rightarrow> None | Null \<Rightarrow> Some NullStr | Named s \<Rightarrow> Some (Lit s))"

definition print_memory_descriptor :: "EFI_MEMORY_DESCRIPTOR \<Rightarrow> print_call list option" where
  "print_memory_descriptor Memory =
     (case name_arg (name_at efi_memory_type_str (unat (memory_type_number (Type Memory)))) of
        None \<Rightarrow> None
      | Some n \<Rightarrow> Some ((''%24s %9lx %16lx %8lu '',
            [n, Num (PhysicalStart Memory), Num (VirtualStart Memory), Num (NumberOfPages Memory)])
          # print_flags ''%-3s '' memory_attributes (Attribute Memory) @ [(LF, [])]))"

definition print_memory_map :: "EFI_MEMORY_DESCRIPTOR list \<Rightarrow> print_call list option" where
  "print_memory_map mmap =
     all_calls
       (Some [(''MemoryMap: %lu entries'' @ LF, [Num (of_nat (length mmap))]),
          (''%24s %9s %16s %8s %s'' @ LF,
           [Lit ''type'', Lit ''paddr'', Lit ''vaddr'', Lit ''num'', Lit ''flags''])]
        # map print_memory_descriptor mmap)"

section \<open>Errors\<close>

text \<open>The codes of \<open>efierr.h\<close>, which are those of the UEFI specification, without the error bit.\<close>

definition efi_error_str :: name_table where
  "efi_error_str = names_from 0
     [''SUCCESS'', ''LOAD_ERROR'', ''INVALID_PARAMETER'', ''UNSUPPORTED'', ''BAD_BUFFER_SIZE'',
      ''BUFFER_TOO_SMALL'', ''NOT_READY'', ''DEVICE_ERROR'', ''WRITE_PROTECTED'',
      ''OUT_OF_RESOURCES'', ''VOLUME_CORRUPTED'', ''VOLUME_FULL'', ''NO_MEDIA'', ''MEDIA_CHANGED'',
      ''NOT_FOUND'', ''ACCESS_DENIED'', ''NO_RESPONSE'', ''NO_MAPPING'', ''TIMEOUT'', ''NOT_STARTED'',
      ''ALREADY_STARTED'', ''ABORTED'', ''ICMP_ERROR'', ''TFTP_ERROR'', ''PROTOCOL_ERROR'',
      ''INCOMPATIBLE_VERSION'', ''SECURITY_VIOLATION'', ''CRC_ERROR'', ''END_OF_MEDIA'']
     @ names_from 31 [''END_OF_FILE'', ''INVALID_LANGUAGE'', ''COMPROMISED_DATA'']"

definition EFI_ERROR_STR :: "u64 \<Rightarrow> name_cell" where
  "EFI_ERROR_STR Status = name_at efi_error_str (unat (Status AND NOT (push_bit 63 1)))"

text \<open>
  \<open>exit_status\<close>: the message, then \<open>Exit\<close> with the status. \<open>fmt\<close> and \<open>args\<close> are the caller's,
  printed by \<open>VPrint\<close>.
\<close>

definition exit_status ::
  "string \<Rightarrow> u64 \<Rightarrow> u64 \<Rightarrow> string \<Rightarrow> print_arg list \<Rightarrow> (print_call list \<times> stop) option" where
  "exit_status src line Status fmt args =
     (case name_arg (EFI_ERROR_STR Status) of
        None \<Rightarrow> None
      | Some n \<Rightarrow> Some ([(''%s:%d: '', [Lit src, Num line]), (fmt, args),
          (LF @ ''%d %s'' @ LF, [Num Status, n])], Exited Status))"

section \<open>Printed flags\<close>

declare push_bit_of_1 [simp del]

definition single :: "u64 \<Rightarrow> bool" where "single m \<longleftrightarrow> (\<exists>k. m = push_bit k 1)"

lemma single_push_bit: "single (push_bit k 1)"
  by (auto simp: single_def)

lemma bit_flag: "bit (push_bit k 1 :: u64) n \<longleftrightarrow> n = k \<and> k < 64"
  by (auto simp: bit_push_bit_iff bit_1_iff)

lemma and_flag: "(r :: u64) AND push_bit k 1 \<noteq> 0 \<longleftrightarrow> k < 64 \<and> bit r k"
  by (auto simp: word_eq_bits bit_and_iff bit_flag)

lemma set_print_flags:
  "distinct (map fst fs) \<Longrightarrow> (n, m) \<in> set fs \<Longrightarrow>
    (fmt, [Lit n]) \<in> set (print_flags fmt fs r) \<longleftrightarrow> r AND m \<noteq> 0"
  by (auto simp: print_flags_def image_iff dest: eq_key_imp_eq_value)

lemma print_flags_eq:
  assumes "distinct (map fst fs)"
  shows "print_flags fmt fs r = print_flags fmt fs r' \<longleftrightarrow>
    (\<forall>(n, m) \<in> set fs. (r AND m \<noteq> 0) = (r' AND m \<noteq> 0))"
proof
  assume "print_flags fmt fs r = print_flags fmt fs r'"
  then show "\<forall>(n, m) \<in> set fs. (r AND m \<noteq> 0) = (r' AND m \<noteq> 0)"
    using set_print_flags[OF assms, of _ _ fmt r] set_print_flags[OF assms, of _ _ fmt r'] by auto
next
  assume "\<forall>(n, m) \<in> set fs. (r AND m \<noteq> 0) = (r' AND m \<noteq> 0)"
  then show "print_flags fmt fs r = print_flags fmt fs r'"
    by (auto simp: print_flags_def intro!: arg_cong[where f = "map _"] filter_cong)
qed

text \<open>The mask of all the flags of a register.\<close>

definition flag_mask :: "flags \<Rightarrow> u64" where
  "flag_mask fs = foldr (\<lambda>(_, m) w. m OR w) fs 0"

lemma and_or_eq: "(r :: u64) AND (m OR w) = r' AND (m OR w) \<longleftrightarrow> r AND m = r' AND m \<and> r AND w = r' AND w"
  by (auto simp: bit_eq_iff bit_simps)

lemma and_flag_eq: "(r :: u64) AND push_bit k 1 = r' AND push_bit k 1 \<longleftrightarrow>
    (r AND push_bit k 1 \<noteq> 0) = (r' AND push_bit k 1 \<noteq> 0)"
  unfolding and_flag by (auto simp: word_eq_bits bit_and_iff bit_flag)

lemma flag_mask_eq:
  "list_all (\<lambda>(n, m). single m) fs \<Longrightarrow>
    r AND flag_mask fs = r' AND flag_mask fs \<longleftrightarrow>
      (\<forall>(n, m) \<in> set fs. (r AND m \<noteq> 0) = (r' AND m \<noteq> 0))"
proof (induction fs)
  case (Cons f fs)
  obtain n k where f: "f = (n, push_bit k 1)" using Cons.prems by (auto simp: single_def)
  have "flag_mask (f # fs) = push_bit k 1 OR flag_mask fs" by (simp add: flag_mask_def f)
  then show ?case using Cons by (simp add: f and_or_eq and_flag_eq)
qed (simp add: flag_mask_def)

lemma print_flags_mask:
  assumes "distinct (map fst fs)" and "list_all (\<lambda>(n, m). single m) fs"
  shows "print_flags fmt fs r = print_flags fmt fs r' \<longleftrightarrow> r AND flag_mask fs = r' AND flag_mask fs"
  by (simp add: print_flags_eq[OF assms(1)] flag_mask_eq[OF assms(2)])

lemma register_flags:
  "distinct (map fst cr0_flags)" "list_all (\<lambda>(n, m). single m) cr0_flags"
  "distinct (map fst cr4_flags)" "list_all (\<lambda>(n, m). single m) cr4_flags"
  "distinct (map fst ia32_efer_flags)" "list_all (\<lambda>(n, m). single m) ia32_efer_flags"
  by (simp_all only: cr0_flags_def cr4_flags_def ia32_efer_flags_def list.pred_inject prod.case
      single_push_bit simp_thms) simp_all

lemma register_masks:
  "flag_mask cr0_flags = 0xE005003F" "flag_mask cr4_flags = 0x776FFF" "flag_mask ia32_efer_flags = 0xD01"
  by (simp_all add: push_bit_of_1 flag_mask_def cr0_flags_def cr4_flags_def ia32_efer_flags_def)

section \<open>When printing is defined\<close>

lemma all_calls_None [simp]: "all_calls cs = None \<longleftrightarrow> None \<in> set cs"
  by (induction cs) (auto split: option.splits)

lemma all_calls_Some:
  "list_all2 (\<lambda>c n. \<exists>ps. c = Some ps \<and> length ps = n) cs ns \<Longrightarrow>
    \<exists>ps. all_calls cs = Some ps \<and> length ps = sum_list ns"
  by (induction rule: list_all2_induct) auto

lemma a2u_loop_fits:
  "k + length s < length u \<Longrightarrow> 0 \<notin> set s \<Longrightarrow>
    \<exists>w. a2u_loop u k (s @ [0]) = Some w \<and> length w = length u \<and>
      take (Suc (k + length s)) w = take k u @ map scast s @ [0]"
proof (induction s arbitrary: u k)
  case Nil
  then show ?case by (simp add: take_Suc_conv_app_nth)
next
  case (Cons c s)
  then have c: "c \<noteq> 0" "Suc k + length s < length (u[k := scast c])" "0 \<notin> set s" by auto
  from Cons.IH[OF c(2,3)] obtain w where
    "a2u_loop (u[k := scast c]) (Suc k) (s @ [0]) = Some w" "length w = length u"
    "take (Suc (Suc k + length s)) w = take (Suc k) (u[k := scast c]) @ map scast s @ [0]" by auto
  then show ?case using Cons.prems c(1) by (simp add: take_Suc_conv_app_nth)
qed

lemma scast_ascii: "unat (w :: u8) < 128 \<Longrightarrow> (scast w :: u16) = of_nat (unat w)"
proof -
  assume "unat w < 128"
  then have "int (unat w) < int 128" by (simp only: of_nat_less_iff)
  then have "uint w < 128" by simp
  then have "sint w = int (unat w)"
    by (simp add: sint_uint signed_take_bit_int_eq_self order_trans[OF _ unsigned_greater_eq])
  then show ?thesis by (simp only: scast_eq of_int_of_nat_eq)
qed

text \<open>A name shorter than the buffer arrives as its characters and a terminator.\<close>

lemma a2u_text:
  assumes "length s < length u" and "list_all ascii s"
  shows "\<exists>w. a2u u (map of_char s @ [0]) = Some w \<and> length w = length u \<and>
    take (Suc (length s)) w = map of_char s @ [0]"
proof -
  have c: "(of_char c :: u8) \<noteq> 0 \<and> (scast (of_char c :: u8) :: u16) = of_char c" if "c \<in> set s" for c
  proof -
    have n: "0 < (of_char c :: nat)" "(of_char c :: nat) < 128" using assms(2) that by (auto simp: list_all_iff ascii_def)
    have e: "(of_char c :: u8) = of_nat (of_char c)" "(of_char c :: u16) = of_nat (of_char c)"
      by (rule of_nat_of_char[symmetric])+
    have u: "unat (of_char c :: u8) = of_char c" unfolding e(1) using n by (intro unat_of_nat_small) simp
    then have "(scast (of_char c :: u8) :: u16) = of_char c"
      using n scast_ascii[of "of_char c"] by (simp add: e(2))
    then show ?thesis using n u by (auto simp: unat_eq_zero)
  qed
  then have "map (scast :: u8 \<Rightarrow> u16) (map of_char s) = map of_char s" "0 \<notin> set (map of_char s :: u8 list)"
    by force+
  moreover obtain w where "a2u_loop u 0 (map of_char s @ [0]) = Some w" "length w = length u"
    "take (Suc (length s)) w = map (scast :: u8 \<Rightarrow> u16) (map of_char s) @ [0]"
    using a2u_loop_fits[of 0 "map of_char s" u] assms(1) calculation(2) by auto
  ultimately show ?thesis by (auto simp: a2u_def)
qed

lemma print_name_short:
  assumes "length u = 64" and "short_name c"
  shows "\<exists>ps. print_name u c = Some ps \<and> length ps = Suc 0"
proof -
  obtain s where s: "c = Named s" "length s \<le> 8" "list_all ascii s" using assms(2) by (rule short_nameE)
  then obtain w where "a2u u (map of_char s @ [0]) = Some w" using a2u_text[of s u] assms(1) by auto
  then show ?thesis by (simp add: print_name_def s(1))
qed

lemma print_program_header_defined:
  assumes "length u = 64"
  shows "\<exists>ps. print_program_header u ph = Some ps \<and> length ps = Suc (Suc 0)"
proof -
  have "unat (p_type ph) < 10" if "p_type ph < PT_NUM"
    using that by (simp add: elf_consts word_less_nat_alt)
  moreover have "unat (PT_NUM + p_type ph - PT_GNU_STACK) < 10"
    if "PT_GNU_STACK \<le> p_type ph" "p_type ph \<le> PT_GNU_RELRO"
  proof -
    have "p_type ph = PT_GNU_STACK \<or> p_type ph = PT_GNU_RELRO"
      using that unfolding elf_consts word_le_nat_alt by (auto simp: word_unat_eq_iff)
    then show ?thesis by (auto simp: elf_consts)
  qed
  ultimately have "\<exists>ps. print_program_header u ph = Some ps \<and> length ps = sum_list [1, 1]"
    unfolding print_program_header_def
    by (intro all_calls_Some) (auto intro!: print_name_short[OF assms] name_at_segment)
  then show ?thesis by simp
qed

lemma print_flags_length: "length (print_flags fmt fs r) \<le> length fs"
  by (simp add: print_flags_def)

lemma name_arg_memory_type:
  "name_arg (name_at efi_memory_type_str i) = None \<longleftrightarrow> 14 \<le> i"
  by (auto simp: name_arg_def efi_memory_type_str_def name_at_names_from)

lemma name_arg_error: "name_arg (EFI_ERROR_STR Status) = None \<longleftrightarrow> 34 \<le> Status AND 0x7FFFFFFFFFFFFFFF"
proof -
  have "name_arg (name_at efi_error_str i) = None \<longleftrightarrow> 34 \<le> i" for i
    by (auto simp: name_arg_def name_at_def efi_error_str_def split: option.splits if_splits)
  moreover have "NOT (push_bit 63 1) = (0x7FFFFFFFFFFFFFFF :: u64)" by code_simp
  ultimately show ?thesis by (simp add: EFI_ERROR_STR_def word_le_nat_alt)
qed

section \<open>Properties\<close>


text \<open>C27: the listing of the program headers never leaves the table of segment names nor the buffer
of \<open>a2u\<close>, whatever types the kernel file contains: it makes two calls of \<open>Print\<close> per header
after two for the title, and none for a file without headers.\<close>

theorem program_headers_printed:
  assumes "length u = 64"
  shows "\<exists>ps. print_program_headers u hs = Some ps \<and>
    length ps = (if hs = [] then 0 else 2 + 2 * length hs)"
proof (cases "hs = []")
  case False
  have "\<exists>ps. all_calls (Some program_headers_title # map (print_program_header u) hs) = Some ps \<and>
    length ps = sum_list (2 # map (\<lambda>_. 2) hs)"
    by (intro all_calls_Some)
      (simp add: list.rel_map list_all2_same program_headers_title_def numeral_2_eq_2
        print_program_header_defined[OF assms])
  then show ?thesis
    using False by (simp add: print_program_headers_def sum_list_triv mult.commute)
qed (simp add: print_program_headers_def)

theorem program_headers_printed_witness:
  "\<exists>ps. print_program_headers (replicate 64 0) [\<lparr>p_type = PT_GNU_RELRO, p_flags = 4, p_offset = 0,
     p_vaddr = 0, p_paddr = 0, p_filesz = 0, p_memsz = 0, p_align = 0\<rparr>] = Some ps \<and> length ps = 4"
  using program_headers_printed[of "replicate 64 0" "[_]"] by simp

text \<open>C25: printing the memory map reads outside \<open>efi_memory_type_str\<close> exactly when some descriptor
has a type beyond \<open>EfiPalCode\<close>, such as the persistent memory (14) of newer firmware.\<close>

theorem memory_map_printed_iff:
  "print_memory_map mmap = None \<longleftrightarrow> \<not> list_all (\<lambda>d. memory_type_number (Type d) < 14) mmap"
proof -
  have "print_memory_descriptor d = None \<longleftrightarrow> \<not> memory_type_number (Type d) < 14" for d
    using name_arg_memory_type[of "unat (memory_type_number (Type d))"]
    by (auto simp: print_memory_descriptor_def word_less_nat_alt split: option.split)
  then show ?thesis by (auto simp: print_memory_map_def list_all_iff image_iff eq_commute[of None])
qed

text \<open>\<open>exit_status\<close> prints its message and ends the loader with the status it was given
exactly for the statuses up to \<open>EFI_COMPROMISED_DATA\<close>; for a later one it reads outside
\<open>efi_error_str\<close>.\<close>

theorem exit_status_reports:
  "(\<exists>calls. exit_status src line Status fmt args = Some (calls, Exited Status)) \<longleftrightarrow>
    Status AND 0x7FFFFFFFFFFFFFFF < 34"
  using name_arg_error[of Status] by (auto simp: exit_status_def not_le split: option.splits)

end
