(* ===== verification/ReadElf.thy ===== *)
theory ReadElf
  imports Elf "HOL-Library.Multiset"
begin

text \<open>
  The ELF reader \<open>lib/readelf.c\<close> with its buffers: a heap of allocated blocks, named by
  numbers that are never reused (0 is \<open>NULL\<close>). The functions the user of the library supplies
  (\<open>elf_read\<close>, \<open>elf_alloc\<close>) are the fields of an \<open>elf_io\<close>. An operation takes the heap and
  returns its C result with the new heap, or \<open>None\<close> for undefined behaviour: a free of a block
  that is not allocated, an index outside an array, a division by zero.
\<close>

section \<open>Heap and interface\<close>

type_synonym ptr = nat

record elf_symbol_table =
  sym_section :: "nat option"
  n_symbols :: Elf64_Word
  symbols :: ptr
  names :: ptr

record elf_rel_table =
  rel_section :: "nat option"
  n_relocations :: Elf64_Xword
  relocations :: ptr

datatype block =
    Raw u64                          \<comment> \<open>allocated, not yet written; its size\<close>
  | Data "u8 list"                   \<comment> \<open>bytes read from the file\<close>
  | Syms "elf_symbol_table list"
  | Rels "elf_rel_table list"
  | Relas "Elf64_Rela list"

record heap =
  blocks :: "ptr \<rightharpoonup> block"
  requests :: nat

text \<open>
  \<open>io_read off n\<close> is what \<open>elf_read\<close> puts in the buffer, \<open>None\<close> when it returns an error;
  \<open>io_alloc k n\<close> tells whether the \<open>k\<close>-th request of \<open>elf_alloc\<close>, of \<open>n\<close> bytes, succeeds.
\<close>

record elf_io =
  io_read :: "u64 \<Rightarrow> u64 \<Rightarrow> u8 list option"
  io_alloc :: "nat \<Rightarrow> u64 \<Rightarrow> bool"

type_synonym 'a action = "heap \<Rightarrow> ('a \<times> heap) option"

definition ret :: "'a \<Rightarrow> 'a action" where
  "ret x = (\<lambda>h. Some (x, h))"

definition andThen :: "'a action \<Rightarrow> ('a \<Rightarrow> 'b action) \<Rightarrow> 'b action" where
  "andThen m k = (\<lambda>h. case m h of None \<Rightarrow> None | Some (x, h') \<Rightarrow> k x h')"

definition elf_alloc :: "elf_io \<Rightarrow> u64 \<Rightarrow> ptr action" where
  "elf_alloc io n = (\<lambda>h.
     let p = Suc (requests h); h' = h\<lparr>requests := p\<rparr> in
     if io_alloc io (requests h) n then Some (p, h'\<lparr>blocks := (blocks h)(p \<mapsto> Raw n)\<rparr>)
     else Some (0, h'))"

definition elf_free :: "ptr \<Rightarrow> unit action" where
  "elf_free p = (\<lambda>h.
     if p = 0 then Some ((), h)
     else if p \<in> dom (blocks h) then Some ((), h\<lparr>blocks := (blocks h)(p := None)\<rparr>)
     else None)"

definition elf_read :: "elf_io \<Rightarrow> ptr \<Rightarrow> u64 \<Rightarrow> u64 \<Rightarrow> bool action" where
  "elf_read io p off n = (\<lambda>h.
     case blocks h p of
       Some (Raw room) \<Rightarrow>
         if n \<le> room then
           (case io_read io off n of
              None \<Rightarrow> Some (True, h)
            | Some bs \<Rightarrow> Some (False, h\<lparr>blocks := (blocks h)(p \<mapsto> Data bs)\<rparr>))
         else None
     | _ \<Rightarrow> None)"

definition elf_read2 :: "elf_io \<Rightarrow> u64 \<Rightarrow> u64 \<Rightarrow> ptr action" where
  "elf_read2 io off n =
     andThen (elf_alloc io n) (\<lambda>buf.
       if buf = 0 then andThen (elf_free buf) (\<lambda>_. ret 0)
       else andThen (elf_read io buf off n) (\<lambda>bad.
         if bad then andThen (elf_free buf) (\<lambda>_. ret 0) else ret buf))"

section \<open>The file\<close>

record elf_dynamic =
  dynamic :: ptr
  dyn_symbol_table :: "nat option"

record elf_file =
  header :: ptr
  program_headers :: ptr
  sections :: ptr
  section_names :: ptr
  interpreter :: ptr
  elf_dyn :: elf_dynamic
  n_symbol_tables :: Elf64_Half
  symbol_tables :: ptr
  n_rel_tables :: Elf64_Half
  rel_tables :: ptr

definition init_elf_file :: elf_file where
  "init_elf_file =
     \<lparr>header = 0, program_headers = 0, sections = 0, section_names = 0, interpreter = 0,
      elf_dyn = \<lparr>dynamic = 0, dyn_symbol_table = None\<rparr>,
      n_symbol_tables = 0, symbol_tables = 0, n_rel_tables = 0, rel_tables = 0\<rparr>"

text \<open>Reads through the pointers of the structure, with the bounds of the block they point to.\<close>

definition bytes_at :: "ptr \<Rightarrow> u8 list action" where
  "bytes_at p = (\<lambda>h. case blocks h p of Some (Data bs) \<Rightarrow> Some (bs, h) | _ \<Rightarrow> None)"

definition get_Ehdr :: "ptr \<Rightarrow> Elf64_Ehdr action" where
  "get_Ehdr p = andThen (bytes_at p) (\<lambda>bs h.
     if sizeof_Ehdr \<le> length bs then Some (decode_Ehdr bs, h) else None)"

definition get_element :: "(u8 list \<Rightarrow> 'a) \<Rightarrow> nat \<Rightarrow> ptr \<Rightarrow> nat \<Rightarrow> 'a action" where
  "get_element dec n p i = andThen (bytes_at p) (\<lambda>bs h.
     if n * (i + 1) \<le> length bs then Some (array_at dec n bs i, h) else None)"

definition get_Phdr :: "elf_file \<Rightarrow> nat \<Rightarrow> Elf64_Phdr action" where
  "get_Phdr f i = get_element decode_Phdr sizeof_Phdr (program_headers f) i"

definition get_Shdr :: "elf_file \<Rightarrow> nat \<Rightarrow> Elf64_Shdr action" where
  "get_Shdr f i = get_element decode_Shdr sizeof_Shdr (sections f) i"

definition get_syms :: "elf_file \<Rightarrow> elf_symbol_table list action" where
  "get_syms f = (\<lambda>h. case blocks h (symbol_tables f) of Some (Syms ts) \<Rightarrow> Some (ts, h) | _ \<Rightarrow> None)"

definition get_rels :: "elf_file \<Rightarrow> elf_rel_table list action" where
  "get_rels f = (\<lambda>h. case blocks h (rel_tables f) of Some (Rels ts) \<Rightarrow> Some (ts, h) | _ \<Rightarrow> None)"

definition upd_sym :: "elf_file \<Rightarrow> nat \<Rightarrow> (elf_symbol_table \<Rightarrow> elf_symbol_table) \<Rightarrow> unit action" where
  "upd_sym f k g = andThen (get_syms f) (\<lambda>ts h.
     if k < length ts
     then Some ((), h\<lparr>blocks := (blocks h)(symbol_tables f \<mapsto> Syms (ts[k := g (ts ! k)]))\<rparr>)
     else None)"

definition upd_rel :: "elf_file \<Rightarrow> nat \<Rightarrow> (elf_rel_table \<Rightarrow> elf_rel_table) \<Rightarrow> unit action" where
  "upd_rel f k g = andThen (get_rels f) (\<lambda>ts h.
     if k < length ts
     then Some ((), h\<lparr>blocks := (blocks h)(rel_tables f \<mapsto> Rels (ts[k := g (ts ! k)]))\<rparr>)
     else None)"

definition read_phdr_data :: "elf_io \<Rightarrow> elf_file \<Rightarrow> nat \<Rightarrow> ptr action" where
  "read_phdr_data io f i = andThen (get_Phdr f i) (\<lambda>ph. elf_read2 io (p_offset ph) (p_filesz ph))"

definition read_section_data :: "elf_io \<Rightarrow> elf_file \<Rightarrow> nat \<Rightarrow> ptr action" where
  "read_section_data io f i = andThen (get_Shdr f i) (\<lambda>s. elf_read2 io (sh_offset s) (sh_size s))"

section \<open>Freeing\<close>

fun free_all :: "ptr list \<Rightarrow> unit action" where
  "free_all [] = ret ()"
| "free_all (p # ps) = andThen (elf_free p) (\<lambda>_. free_all ps)"

definition free_symbol_tables :: "elf_file \<Rightarrow> unit action" where
  "free_symbol_tables f =
     (if n_symbol_tables f = 0 then ret ()
      else andThen (get_syms f) (\<lambda>ts.
        if unat (n_symbol_tables f) \<le> length ts
        then free_all (concat (map (\<lambda>t. [symbols t, names t]) (take (unat (n_symbol_tables f)) ts)))
        else (\<lambda>h. None)))"

definition free_rel_tables :: "elf_file \<Rightarrow> unit action" where
  "free_rel_tables f =
     (if n_rel_tables f = 0 then ret ()
      else andThen (get_rels f) (\<lambda>ts.
        if unat (n_rel_tables f) \<le> length ts
        then free_all (map relocations (take (unat (n_rel_tables f)) ts))
        else (\<lambda>h. None)))"

definition free_elf_file :: "elf_file \<Rightarrow> unit action" where
  "free_elf_file f =
     andThen (free_all [header f, program_headers f, sections f, section_names f, interpreter f,
                        dynamic (elf_dyn f)]) (\<lambda>_.
     andThen (free_symbol_tables f) (\<lambda>_.
     andThen (elf_free (symbol_tables f)) (\<lambda>_.
     andThen (free_rel_tables f) (\<lambda>_.
       elf_free (rel_tables f)))))"

section \<open>Reading\<close>

definition read_program_headers :: "elf_io \<Rightarrow> ptr \<Rightarrow> ptr \<Rightarrow> (bool \<times> ptr) action" where
  "read_program_headers io ehdr phdrs =
     andThen (elf_read io ehdr 0 (of_nat sizeof_Ehdr)) (\<lambda>bad.
       if bad then ret (True, phdrs)
       else andThen (get_Ehdr ehdr) (\<lambda>hdr.
         if \<not> ELF_VERIFY_MAGIC hdr then ret (True, phdrs)
         else if e_phnum hdr = 0 then ret (False, phdrs)
         else andThen (elf_read2 io (e_phoff hdr) (of_nat sizeof_Phdr * ucast (e_phnum hdr)))
           (\<lambda>p. ret (p = 0, p))))"

fun interpreter_loop :: "elf_io \<Rightarrow> elf_file \<Rightarrow> nat list \<Rightarrow> (bool \<times> elf_file) action" where
  "interpreter_loop io f [] = ret (False, f)"
| "interpreter_loop io f (i # is) =
     andThen (get_Phdr f i) (\<lambda>ph.
       if p_type ph \<noteq> PT_INTERP then interpreter_loop io f is
       else andThen (read_phdr_data io f i) (\<lambda>p. ret (p = 0, f\<lparr>interpreter := p\<rparr>)))"

definition read_interpreter :: "elf_io \<Rightarrow> elf_file \<Rightarrow> (bool \<times> elf_file) action" where
  "read_interpreter io f =
     andThen (get_Ehdr (header f)) (\<lambda>hdr. interpreter_loop io f [0..<unat (e_phnum hdr)])"

text \<open>The loops that count the sections of some types.\<close>

fun count_sections :: "Elf64_Word set \<Rightarrow> elf_file \<Rightarrow> nat list \<Rightarrow> Elf64_Half \<Rightarrow> Elf64_Half action" where
  "count_sections types f [] n = ret n"
| "count_sections types f (i # is) n =
     andThen (get_Shdr f i) (\<lambda>s.
       count_sections types f is (if sh_type s \<in> types then n + 1 else n))"

fun symbol_tables_loop :: "elf_io \<Rightarrow> elf_file \<Rightarrow> nat list \<Rightarrow> nat \<Rightarrow> bool action" where
  "symbol_tables_loop io f [] k = ret False"
| "symbol_tables_loop io f (i # is) k =
     andThen (get_Shdr f i) (\<lambda>s.
       if sh_type s \<noteq> SHT_SYMTAB \<and> sh_type s \<noteq> SHT_DYNSYM then symbol_tables_loop io f is k
       else
         andThen (upd_sym f k (\<lambda>t. t\<lparr>sym_section := Some i,
           n_symbols := ucast (sh_size s div of_nat sizeof_Sym)\<rparr>)) (\<lambda>_.
         andThen (read_section_data io f i) (\<lambda>p.
         andThen (upd_sym f k (\<lambda>t. t\<lparr>symbols := p\<rparr>)) (\<lambda>_.
           if p = 0 then ret True
           else andThen (read_section_data io f (unat (ucast (sh_link s) :: Elf64_Half))) (\<lambda>q.
             andThen (upd_sym f k (\<lambda>t. t\<lparr>names := q\<rparr>)) (\<lambda>_.
               if q = 0 then ret True else symbol_tables_loop io f is (k + 1)))))))"

definition empty_symbol_table :: elf_symbol_table where
  "empty_symbol_table = \<lparr>sym_section = None, n_symbols = 0, symbols = 0, names = 0\<rparr>"

definition sizeof_symbol_table :: nat where "sizeof_symbol_table = 32"

definition init_symbol_tables :: "elf_file \<Rightarrow> unit action" where
  "init_symbol_tables f = (\<lambda>h.
     if symbol_tables f \<in> dom (blocks h)
     then Some ((), h\<lparr>blocks := (blocks h)(symbol_tables f \<mapsto>
       Syms (replicate (unat (n_symbol_tables f)) empty_symbol_table))\<rparr>)
     else None)"

definition symbol_tables_error :: "elf_file \<Rightarrow> (bool \<times> elf_file) action" where
  "symbol_tables_error f =
     (if symbol_tables f \<noteq> 0 then
        andThen (free_symbol_tables f) (\<lambda>_.
        andThen (elf_free (symbol_tables f)) (\<lambda>_.
          ret (True, f\<lparr>symbol_tables := 0, n_symbol_tables := 0\<rparr>)))
      else ret (True, f\<lparr>n_symbol_tables := 0\<rparr>))"

definition read_symbol_tables :: "elf_io \<Rightarrow> elf_file \<Rightarrow> (bool \<times> elf_file) action" where
  "read_symbol_tables io f =
     andThen (get_Ehdr (header f)) (\<lambda>hdr.
     let is = [SHN_BEGIN..<unat (e_shnum hdr)] in
     andThen (count_sections {SHT_SYMTAB, SHT_DYNSYM} f is (n_symbol_tables f)) (\<lambda>n.
     andThen (elf_alloc io (of_nat sizeof_symbol_table * ucast n)) (\<lambda>p.
     let f = f\<lparr>n_symbol_tables := n, symbol_tables := p\<rparr> in
     if p = 0 then symbol_tables_error f
     else
       andThen (init_symbol_tables f) (\<lambda>_.
       andThen (symbol_tables_loop io f is 0) (\<lambda>bad.
         if bad then symbol_tables_error f else ret (False, f))))))"

fun first_phdr :: "elf_file \<Rightarrow> Elf64_Word \<Rightarrow> nat list \<Rightarrow> nat option action" where
  "first_phdr f t [] = ret None"
| "first_phdr f t (i # is) =
     andThen (get_Phdr f i) (\<lambda>ph. if p_type ph \<noteq> t then first_phdr f t is else ret (Some i))"

fun first_dynsym :: "elf_file \<Rightarrow> nat list \<Rightarrow> nat option action" where
  "first_dynsym f [] = ret None"
| "first_dynsym f (k # ks) =
     andThen (get_syms f) (\<lambda>ts.
       if k < length ts then
         (case sym_section (ts ! k) of
            None \<Rightarrow> (\<lambda>h. None)
          | Some i \<Rightarrow> andThen (get_Shdr f i) (\<lambda>s.
              if sh_type s \<noteq> SHT_DYNSYM then first_dynsym f ks else ret (Some k)))
       else (\<lambda>h. None))"

definition dynamic_error :: "elf_file \<Rightarrow> (bool \<times> elf_file) action" where
  "dynamic_error f =
     andThen (elf_free (dynamic (elf_dyn f))) (\<lambda>_.
       ret (True, f\<lparr>elf_dyn := (elf_dyn f)\<lparr>dyn_symbol_table := None\<rparr>\<rparr>))"

definition read_dynamic :: "elf_io \<Rightarrow> elf_file \<Rightarrow> (bool \<times> elf_file) action" where
  "read_dynamic io f =
     andThen (get_Ehdr (header f)) (\<lambda>hdr.
     andThen (first_phdr f PT_DYNAMIC [0..<unat (e_phnum hdr)]) (\<lambda>found.
     case found of
       None \<Rightarrow> ret (False, f)
     | Some i \<Rightarrow>
         andThen (read_phdr_data io f i) (\<lambda>p.
         let f = f\<lparr>elf_dyn := (elf_dyn f)\<lparr>dynamic := p\<rparr>\<rparr> in
         if p = 0 then dynamic_error f
         else andThen (first_dynsym f [0..<unat (n_symbol_tables f)]) (\<lambda>k.
           let f = (case k of None \<Rightarrow> f | Some k \<Rightarrow> f\<lparr>elf_dyn := (elf_dyn f)\<lparr>dyn_symbol_table := Some k\<rparr>\<rparr>) in
           if dyn_symbol_table (elf_dyn f) = None then dynamic_error f else ret (False, f)))))"

text \<open>
  \<open>convert_rel_to_rela\<close> counts its elements with \<open>sizeof(*rel_section)\<close>, the size of a section
  header. The final part frees the table it read in every case.
\<close>

definition rel_to_rela :: "Elf64_Rel \<Rightarrow> Elf64_Rela" where
  "rel_to_rela rel = \<lparr>r_offset = rel_offset rel, r_info = rel_info rel, r_addend = 0\<rparr>"

definition convert_entries :: "ptr \<Rightarrow> ptr \<Rightarrow> nat \<Rightarrow> unit action" where
  "convert_entries rel_table rela_table n = andThen (bytes_at rel_table) (\<lambda>bs h.
     if sizeof_Rel * n \<le> length bs
     then Some ((), h\<lparr>blocks := (blocks h)(rela_table \<mapsto>
       Relas (map (\<lambda>j. rel_to_rela (array_at decode_Rel sizeof_Rel bs j)) [0..<n]))\<rparr>)
     else None)"

definition convert_rel_to_rela :: "elf_io \<Rightarrow> elf_file \<Rightarrow> nat \<Rightarrow> ptr action" where
  "convert_rel_to_rela io f i =
     andThen (read_section_data io f i) (\<lambda>rel_table.
     if rel_table = 0 then andThen (elf_free rel_table) (\<lambda>_. andThen (elf_free 0) (\<lambda>_. ret 0))
     else
       andThen (get_Shdr f i) (\<lambda>s.
       let n_elems = sh_size s div of_nat sizeof_Shdr in
       andThen (elf_alloc io (of_nat sizeof_Rela * n_elems)) (\<lambda>rela_table.
       if rela_table = 0
       then andThen (elf_free rel_table) (\<lambda>_. andThen (elf_free rela_table) (\<lambda>_. ret 0))
       else
         andThen (convert_entries rel_table rela_table (unat n_elems)) (\<lambda>_.
         andThen (elf_free rel_table) (\<lambda>_. ret rela_table)))))"

fun rel_tables_loop :: "elf_io \<Rightarrow> elf_file \<Rightarrow> nat list \<Rightarrow> nat \<Rightarrow> bool action" where
  "rel_tables_loop io f [] k = ret False"
| "rel_tables_loop io f (i # is) k =
     andThen (get_Shdr f i) (\<lambda>s.
       if sh_type s \<noteq> SHT_REL \<and> sh_type s \<noteq> SHT_RELA then rel_tables_loop io f is k
       else if sh_entsize s = 0 then (\<lambda>h. None)
       else
         andThen (upd_rel f k (\<lambda>t. t\<lparr>rel_section := Some i,
           n_relocations := sh_size s div sh_entsize s\<rparr>)) (\<lambda>_.
         andThen (if sh_type s = SHT_RELA then read_section_data io f i
                  else convert_rel_to_rela io f i) (\<lambda>p.
         andThen (upd_rel f k (\<lambda>t. t\<lparr>relocations := p\<rparr>)) (\<lambda>_.
           if p = 0 then ret True else rel_tables_loop io f is (k + 1)))))"

definition empty_rel_table :: elf_rel_table where
  "empty_rel_table = \<lparr>rel_section = None, n_relocations = 0, relocations = 0\<rparr>"

definition sizeof_rel_table :: nat where "sizeof_rel_table = 24"

definition init_rel_tables :: "elf_file \<Rightarrow> unit action" where
  "init_rel_tables f = (\<lambda>h.
     if rel_tables f \<in> dom (blocks h)
     then Some ((), h\<lparr>blocks := (blocks h)(rel_tables f \<mapsto>
       Rels (replicate (unat (n_rel_tables f)) empty_rel_table))\<rparr>)
     else None)"

definition rel_tables_error :: "elf_file \<Rightarrow> (bool \<times> elf_file) action" where
  "rel_tables_error f =
     (if rel_tables f \<noteq> 0 then
        andThen (free_rel_tables f) (\<lambda>_.
        andThen (elf_free (rel_tables f)) (\<lambda>_.
          ret (True, f\<lparr>rel_tables := 0, n_rel_tables := 0\<rparr>)))
      else ret (True, f\<lparr>n_rel_tables := 0\<rparr>))"

definition read_relocations :: "elf_io \<Rightarrow> elf_file \<Rightarrow> (bool \<times> elf_file) action" where
  "read_relocations io f =
     andThen (get_Ehdr (header f)) (\<lambda>hdr.
     let is = [SHN_BEGIN..<unat (e_shnum hdr)] in
     andThen (count_sections {SHT_REL, SHT_RELA} f is (n_rel_tables f)) (\<lambda>n.
     andThen (elf_alloc io (of_nat sizeof_rel_table * ucast n)) (\<lambda>p.
     let f = f\<lparr>n_rel_tables := n, rel_tables := p\<rparr> in
     if p = 0 then rel_tables_error f
     else
       andThen (init_rel_tables f) (\<lambda>_.
       andThen (rel_tables_loop io f is 0) (\<lambda>bad.
         if bad then rel_tables_error f else ret (False, f))))))"

text \<open>
  \<open>readelf\<close>: the stages in order, each of which ends the function through \<open>error\<close> when it
  fails.
\<close>

definition readelf_error :: "elf_file \<Rightarrow> (bool \<times> elf_file) action" where
  "readelf_error f = andThen (free_elf_file f) (\<lambda>_. ret (True, init_elf_file))"

definition stage ::
  "(elf_file \<Rightarrow> (bool \<times> elf_file) action) \<Rightarrow> (elf_file \<Rightarrow> (bool \<times> elf_file) action)
    \<Rightarrow> elf_file \<Rightarrow> (bool \<times> elf_file) action" where
  "stage m k f = andThen (m f) (\<lambda>(bad, f). if bad then readelf_error f else k f)"

definition read_header :: "elf_io \<Rightarrow> elf_file \<Rightarrow> (bool \<times> elf_file) action" where
  "read_header io f = andThen (elf_alloc io (of_nat sizeof_Ehdr)) (\<lambda>p. ret (p = 0, f\<lparr>header := p\<rparr>))"

definition read_phdrs :: "elf_io \<Rightarrow> elf_file \<Rightarrow> (bool \<times> elf_file) action" where
  "read_phdrs io f = andThen (read_program_headers io (header f) (program_headers f))
     (\<lambda>(bad, p). ret (bad, f\<lparr>program_headers := p\<rparr>))"

definition read_sections :: "elf_io \<Rightarrow> elf_file \<Rightarrow> (bool \<times> elf_file) action" where
  "read_sections io f = andThen (get_Ehdr (header f)) (\<lambda>hdr.
     andThen (elf_read2 io (e_shoff hdr) (of_nat sizeof_Shdr * ucast (e_shnum hdr)))
       (\<lambda>p. ret (p = 0, f\<lparr>sections := p\<rparr>)))"

definition read_section_names :: "elf_io \<Rightarrow> elf_file \<Rightarrow> (bool \<times> elf_file) action" where
  "read_section_names io f = andThen (get_Ehdr (header f)) (\<lambda>hdr.
     andThen (read_section_data io f (unat (e_shstrndx hdr)))
       (\<lambda>p. ret (p = 0, f\<lparr>section_names := p\<rparr>)))"

definition readelf :: "elf_io \<Rightarrow> elf_file \<Rightarrow> (bool \<times> elf_file) action" where
  "readelf io =
     stage (read_header io) (stage (read_phdrs io) (stage (read_sections io)
       (stage (read_section_names io) (stage (read_interpreter io) (stage (read_symbol_tables io)
         (stage (read_dynamic io) (stage (read_relocations io) (\<lambda>f. ret (False, f)))))))))"

section \<open>The reader of the test program\<close>

text \<open>
  \<open>elf_read\<close> and \<open>elf_alloc\<close> of \<open>test/glibc-readelf.c\<close> over the system interface: whether
  \<open>lseek\<close> accepts an offset, the bytes \<open>read\<close> delivers there (\<open>None\<close> for -1) and whether
  \<open>malloc\<close> succeeds are parameters. \<open>read\<close> delivers at most the bytes asked for, and
  \<open>malloc\<close> refuses more than \<open>PTRDIFF_MAX\<close> bytes, as documented.
\<close>

definition sys_read_count :: "u8 list option \<Rightarrow> u64" where
  "sys_read_count r = (case r of None \<Rightarrow> - 1 | Some bs \<Rightarrow> of_nat (length bs))"

definition glibc_elf_read ::
  "(u64 \<Rightarrow> bool) \<Rightarrow> (u64 \<Rightarrow> u8 list option) \<Rightarrow> u64 \<Rightarrow> u64 \<Rightarrow> u8 list option" where
  "glibc_elf_read lseek file_at offset n =
     (if offset > 0x7fffffffffffffff then None
      else if \<not> lseek offset then None
      else
        let r = map_option (take (unat n)) (file_at offset) in
        if sys_read_count r \<noteq> n then None
        else Some (case r of None \<Rightarrow> [] | Some bs \<Rightarrow> bs))"

definition glibc_io ::
  "(u64 \<Rightarrow> bool) \<Rightarrow> (u64 \<Rightarrow> u8 list option) \<Rightarrow> (nat \<Rightarrow> u64 \<Rightarrow> bool) \<Rightarrow> elf_io" where
  "glibc_io lseek file_at malloc =
     \<lparr>io_read = glibc_elf_read lseek file_at,
      io_alloc = (\<lambda>k n. n \<le> 0x7fffffffffffffff \<and> malloc k n)\<rparr>"

text \<open>The defaults of the library itself, for a user who supplies neither function.\<close>

definition weak_io :: elf_io where
  "weak_io = \<lparr>io_read = (\<lambda>offset size. None), io_alloc = (\<lambda>k size. False)\<rparr>"

end
