(* ===== verification/ReadElfTables.thy ===== *)
theory ReadElfTables
  imports ReadElf
begin

text \<open>
  Reasoning about the ELF reader: what it means for an action to run to its end, who owns the
  blocks of the heap, the laws of a reader as the locale \<open>elf_reader\<close>, and the loops that
  build the symbol and relocation tables.
\<close>

section \<open>Running an action to its end\<close>

text \<open>\<open>run m h Q\<close>: the action has no undefined behaviour and its result satisfies \<open>Q\<close>.\<close>

definition run :: "'a action \<Rightarrow> heap \<Rightarrow> ('a \<Rightarrow> heap \<Rightarrow> bool) \<Rightarrow> bool" where
  "run m h Q = (case m h of None \<Rightarrow> False | Some (x, h') \<Rightarrow> Q x h')"

named_theorems run_rules \<open>what an action needs to reach a postcondition\<close>

lemma run_ret [run_rules, simp]: "run (ret x) h Q = Q x h"
  by (simp add: run_def ret_def)

lemma run_andThen [run_rules, simp]: "run (andThen m k) h Q = run m h (\<lambda>x h'. run (k x) h' Q)"
  by (auto simp: run_def andThen_def split: option.splits)

lemma run_mono: "run m h P \<Longrightarrow> (\<And>x h'. P x h' \<Longrightarrow> Q x h') \<Longrightarrow> run m h Q"
  by (auto simp: run_def split: option.splits)

lemma run_conj: "run m h P \<Longrightarrow> run m h Q \<Longrightarrow> run m h (\<lambda>x h'. P x h' \<and> Q x h')"
  by (auto simp: run_def split: option.splits)

lemma run_value: "m h = Some (x, h') \<Longrightarrow> run m h Q = Q x h'"
  by (simp add: run_def)

lemma runE:
  assumes "run m h Q"
  obtains x h' where "m h = Some (x, h')" and "Q x h'"
  using assms by (auto simp: run_def split: option.splits)

section \<open>Ownership\<close>

text \<open>
  \<open>owns h0 M h\<close>: since the heap \<open>h0\<close>, exactly the blocks of the multiset \<open>M\<close> were allocated,
  each once, and the blocks of \<open>h0\<close> are as they were. \<open>kept X h h'\<close>: the blocks outside \<open>X\<close>
  are still there with the same contents.
\<close>

definition heap_ok :: "heap \<Rightarrow> bool" where
  "heap_ok h \<longleftrightarrow> (\<forall>p \<in> dom (blocks h). 0 < p \<and> p \<le> requests h)"

definition owns :: "heap \<Rightarrow> ptr multiset \<Rightarrow> heap \<Rightarrow> bool" where
  "owns h0 M h \<longleftrightarrow> heap_ok h \<and> blocks h0 \<subseteq>\<^sub>m blocks h \<and>
     (\<forall>p. count M p = (if p \<in> dom (blocks h) \<and> p \<notin> dom (blocks h0) then 1 else 0))"

definition kept :: "ptr set \<Rightarrow> heap \<Rightarrow> heap \<Rightarrow> bool" where
  "kept X h h' \<longleftrightarrow> (\<forall>p b. p \<notin> X \<longrightarrow> blocks h p = Some b \<longrightarrow> blocks h' p = Some b)"

definition blk :: "ptr \<Rightarrow> ptr multiset" where
  "blk p = (if p = 0 then {#} else {#p#})"

lemma blk_0 [simp]: "blk 0 = {#}"
  by (simp add: blk_def)

lemma mem_blk [simp]: "q \<in># blk p \<longleftrightarrow> q = p \<and> p \<noteq> 0"
  by (auto simp: blk_def)

lemma kept_refl [simp]: "kept X h h"
  by (simp add: kept_def)

lemma kept_trans [trans]: "kept X h h' \<Longrightarrow> kept X h' h'' \<Longrightarrow> kept X h h''"
  by (simp add: kept_def)

lemma kept_weaken: "kept {} h h' \<Longrightarrow> kept X h h'"
  by (simp add: kept_def)

lemma keptD: "kept X h h' \<Longrightarrow> blocks h p = Some b \<Longrightarrow> p \<notin> X \<Longrightarrow> blocks h' p = Some b"
  by (simp add: kept_def)

lemma owns_start: "heap_ok h \<Longrightarrow> owns h {#} h"
  by (simp add: owns_def)

lemma owns_none: "owns h0 {#} h \<Longrightarrow> blocks h = blocks h0"
proof (rule ext)
  fix p assume o: "owns h0 {#} h"
  show "blocks h p = blocks h0 p"
  proof (cases "blocks h p")
    case None
    moreover have "\<forall>q \<in> dom (blocks h0). blocks h0 q = blocks h q"
      using o by (simp add: owns_def map_le_def)
    ultimately show ?thesis by (metis domIff)
  next
    case (Some b)
    then have "p \<in> dom (blocks h0)" using o by (auto simp: owns_def split: if_splits)
    then show ?thesis using o by (auto simp: owns_def map_le_def)
  qed
qed

lemma owns_member: "owns h0 M h \<Longrightarrow> p \<in># M \<Longrightarrow> p \<in> dom (blocks h) \<and> p \<noteq> 0"
  by (force simp: owns_def heap_ok_def simp flip: count_greater_zero_iff split: if_splits)

lemma owns_new:
  assumes "owns h0 M h" and "owns h0 (blk r + M) h1" and "r \<noteq> 0"
  shows "r \<notin> dom (blocks h)"
proof
  assume "r \<in> dom (blocks h)"
  moreover have "\<forall>p. count ({#r#} + M) p = (if p \<in> dom (blocks h1) \<and> p \<notin> dom (blocks h0) then 1 else 0)"
    using assms(2,3) by (simp only: owns_def blk_def if_False simp_thms)
  then have "count ({#r#} + M) r = (if r \<in> dom (blocks h1) \<and> r \<notin> dom (blocks h0) then 1 else 0)"
    by (rule spec)
  moreover have "count M r = (if r \<in> dom (blocks h) \<and> r \<notin> dom (blocks h0) then 1 else 0)"
    using assms(1) by (simp add: owns_def)
  ultimately show False by (simp split: if_splits)
qed

lemma owns_write:
  assumes "owns h0 M h" and "p \<in># M"
  shows "owns h0 M (h\<lparr>blocks := (blocks h)(p \<mapsto> b)\<rparr>)"
proof -
  have p: "p \<in> dom (blocks h)" "p \<notin> dom (blocks h0)"
    using assms by (auto simp: owns_def simp flip: count_greater_zero_iff split: if_splits)
  then show ?thesis
    using assms(1) by (auto simp: owns_def heap_ok_def map_le_def)
qed

lemma run_elf_free:
  assumes "owns h0 (blk p + M) h"
  shows "run (elf_free p) h (\<lambda>_ h'. owns h0 M h' \<and> kept {p} h h' \<and> blocks h' \<subseteq>\<^sub>m blocks h)"
proof (cases "p = 0")
  case True
  then show ?thesis using assms by (simp add: elf_free_def run_def)
next
  case False
  then have c: "count (add_mset p M) q = (if q \<in> dom (blocks h) \<and> q \<notin> dom (blocks h0) then 1 else 0)" for q
    using assms by (simp add: owns_def blk_def)
  have p: "p \<in> dom (blocks h)" "p \<notin> dom (blocks h0)" "count M p = 0"
    using c[of p] by (auto split: if_splits)
  have "count M q = (if q \<in> dom ((blocks h)(p := None)) \<and> q \<notin> dom (blocks h0) then 1 else 0)" for q
    using c[of q] p by (cases "q = p") auto
  then have "owns h0 M (h\<lparr>blocks := (blocks h)(p := None)\<rparr>)"
    using assms p(2) unfolding owns_def heap_ok_def map_le_def by (auto simp: domIff)
  then show ?thesis using False p by (simp add: elf_free_def run_def kept_def map_le_def)
qed

lemma run_free_null [simp]: "run (elf_free 0) h Q = Q () h"
  by (simp add: run_def elf_free_def)

lemma run_free_all:
  "owns h0 (sum_list (map blk ps) + M) h \<Longrightarrow>
    run (free_all ps) h (\<lambda>_ h'. owns h0 M h' \<and> blocks h' \<subseteq>\<^sub>m blocks h)"
proof (induction ps arbitrary: h)
  case (Cons p ps)
  have "run (elf_free p) h (\<lambda>_ h'. owns h0 (sum_list (map blk ps) + M) h' \<and> kept {p} h h'
      \<and> blocks h' \<subseteq>\<^sub>m blocks h)"
    using Cons.prems by (intro run_elf_free) (simp add: add.assoc)
  then show ?case
    unfolding free_all.simps run_andThen
    by (rule run_mono) (auto intro!: run_mono[OF Cons.IH] intro: map_le_trans)
qed simp

lemma run_elf_alloc:
  assumes "owns h0 M h"
  shows "run (elf_alloc io n) h (\<lambda>p h'. owns h0 (blk p + M) h' \<and> kept {} h h' \<and>
    (p \<noteq> 0 \<longrightarrow> blocks h' p = Some (Raw n) \<and> p \<notin> dom (blocks h) \<and> (\<exists>k. io_alloc io k n)) \<and>
    (p = 0 \<longrightarrow> (\<exists>k. \<not> io_alloc io k n)))"
proof -
  let ?p = "Suc (requests h)"
  have "\<forall>q \<in> dom (blocks h). q \<le> requests h" using assms by (simp add: owns_def heap_ok_def)
  then have new: "?p \<notin> dom (blocks h)" using not_less_eq_eq by blast
  have new0: "?p \<notin> dom (blocks h0)"
    using new assms unfolding owns_def map_le_def by (metis domIff)
  have ok: "heap_ok h" "blocks h0 \<subseteq>\<^sub>m blocks h"
    and c: "count M q = (if q \<in> dom (blocks h) \<and> q \<notin> dom (blocks h0) then 1 else 0)" for q
    using assms by (simp_all add: owns_def)
  have ok': "\<forall>q \<in> dom (blocks h). 0 < q \<and> q \<le> ?p"
    using ok(1) by (simp add: heap_ok_def le_Suc_eq)
  have "blocks h0 \<subseteq>\<^sub>m (blocks h)(?p \<mapsto> Raw n)"
    using ok(2) new0 by (auto simp: map_le_def)
  moreover have "count (add_mset ?p M) q =
      (if q \<in> dom ((blocks h)(?p \<mapsto> Raw n)) \<and> q \<notin> dom (blocks h0) then 1 else 0)" for q
    using c[of q] new new0 by (cases "q = ?p") auto
  ultimately have "owns h0 (add_mset ?p M) (h\<lparr>requests := ?p, blocks := (blocks h)(?p \<mapsto> Raw n)\<rparr>)"
    using ok' unfolding owns_def heap_ok_def by simp
  moreover have "owns h0 M (h\<lparr>requests := ?p\<rparr>)"
    using ok' ok(2) c unfolding owns_def heap_ok_def by simp
  ultimately show ?thesis
    using new by (auto simp: run_def elf_alloc_def Let_def blk_def kept_def domIff)
qed

section \<open>What the file says\<close>

text \<open>
  The headers and section bytes a reader delivers; meaningful when the reads succeed.
\<close>

definition the_bytes :: "elf_io \<Rightarrow> u64 \<Rightarrow> u64 \<Rightarrow> u8 list" where
  "the_bytes io off n = (case io_read io off n of None \<Rightarrow> [] | Some bs \<Rightarrow> bs)"

definition the_ehdr :: "elf_io \<Rightarrow> Elf64_Ehdr" where
  "the_ehdr io = decode_Ehdr (the_bytes io 0 (of_nat sizeof_Ehdr))"

definition phdr_table_size :: "elf_io \<Rightarrow> u64" where
  "phdr_table_size io = of_nat sizeof_Phdr * ucast (e_phnum (the_ehdr io))"

definition shdr_table_size :: "elf_io \<Rightarrow> u64" where
  "shdr_table_size io = of_nat sizeof_Shdr * ucast (e_shnum (the_ehdr io))"

definition the_phdr :: "elf_io \<Rightarrow> nat \<Rightarrow> Elf64_Phdr" where
  "the_phdr io = array_at decode_Phdr sizeof_Phdr
     (the_bytes io (e_phoff (the_ehdr io)) (phdr_table_size io))"

definition the_shdr :: "elf_io \<Rightarrow> nat \<Rightarrow> Elf64_Shdr" where
  "the_shdr io = array_at decode_Shdr sizeof_Shdr
     (the_bytes io (e_shoff (the_ehdr io)) (shdr_table_size io))"

abbreviation n_phdrs :: "elf_io \<Rightarrow> nat" where
  "n_phdrs io \<equiv> unat (e_phnum (the_ehdr io))"

abbreviation n_shdrs :: "elf_io \<Rightarrow> nat" where
  "n_shdrs io \<equiv> unat (e_shnum (the_ehdr io))"

definition sections_of :: "elf_io \<Rightarrow> Elf64_Word set \<Rightarrow> nat list" where
  "sections_of io types = filter (\<lambda>i. sh_type (the_shdr io i) \<in> types) [SHN_BEGIN..<n_shdrs io]"

abbreviation symtab_types :: "Elf64_Word set" where
  "symtab_types \<equiv> {SHT_SYMTAB, SHT_DYNSYM}"

abbreviation rel_types :: "Elf64_Word set" where
  "rel_types \<equiv> {SHT_REL, SHT_RELA}"

definition phdr_of :: "elf_io \<Rightarrow> Elf64_Word \<Rightarrow> nat option" where
  "phdr_of io t = find (\<lambda>i. p_type (the_phdr io i) = t) [0..<n_phdrs io]"

definition dynsym_of :: "elf_io \<Rightarrow> nat option" where
  "dynsym_of io = find (\<lambda>k. sh_type (the_shdr io (sections_of io symtab_types ! k)) = SHT_DYNSYM)
     [0..<length (sections_of io symtab_types)]"

definition link_of :: "elf_io \<Rightarrow> nat \<Rightarrow> nat" where
  "link_of io i = unat (ucast (sh_link (the_shdr io i)) :: Elf64_Half)"

text \<open>
  What \<open>readelf\<close> takes for granted: the section indices in the headers are in range, a
  relocation section has an entry size, and a file with a dynamic segment has a dynamic symbol
  table.
\<close>

definition sane :: "elf_io \<Rightarrow> bool" where
  "sane io \<longleftrightarrow>
     unat (e_shstrndx (the_ehdr io)) < n_shdrs io \<and>
     list_all (\<lambda>i. link_of io i < n_shdrs io) (sections_of io symtab_types) \<and>
     list_all (\<lambda>i. sh_entsize (the_shdr io i) \<noteq> 0) (sections_of io rel_types) \<and>
     (phdr_of io PT_DYNAMIC \<noteq> None \<longrightarrow> dynsym_of io \<noteq> None)"

text \<open>What can make \<open>readelf\<close> fail: a read or an allocation that is refused, or a bad magic.\<close>

definition refuses :: "elf_io \<Rightarrow> u64 \<Rightarrow> u64 \<Rightarrow> bool" where
  "refuses io off n \<longleftrightarrow> io_read io off n = None \<or> (\<exists>k. \<not> io_alloc io k n)"

definition refuses_section :: "elf_io \<Rightarrow> nat \<Rightarrow> bool" where
  "refuses_section io i = refuses io (sh_offset (the_shdr io i)) (sh_size (the_shdr io i))"

definition refuses_segment :: "elf_io \<Rightarrow> nat \<Rightarrow> bool" where
  "refuses_segment io i = refuses io (p_offset (the_phdr io i)) (p_filesz (the_phdr io i))"

definition refuses_symtab :: "elf_io \<Rightarrow> nat \<Rightarrow> bool" where
  "refuses_symtab io i \<longleftrightarrow> refuses_section io i \<or> refuses_section io (link_of io i)"

definition refuses_rel :: "elf_io \<Rightarrow> nat \<Rightarrow> bool" where
  "refuses_rel io i \<longleftrightarrow> refuses_section io i \<or>
     (\<exists>k. \<not> io_alloc io k (of_nat sizeof_Rela * (sh_size (the_shdr io i) div of_nat sizeof_Shdr)))"

definition refuses_table :: "elf_io \<Rightarrow> nat \<Rightarrow> Elf64_Word set \<Rightarrow> bool" where
  "refuses_table io sz types \<longleftrightarrow>
     (\<exists>k. \<not> io_alloc io k (of_nat sz * ucast (of_nat (length (sections_of io types)) :: Elf64_Half)))"

definition unavailable :: "elf_io \<Rightarrow> bool" where
  "unavailable io \<longleftrightarrow>
     refuses io 0 (of_nat sizeof_Ehdr) \<or> \<not> ELF_VERIFY_MAGIC (the_ehdr io) \<or>
     (e_phnum (the_ehdr io) \<noteq> 0 \<and> refuses io (e_phoff (the_ehdr io)) (phdr_table_size io)) \<or>
     refuses io (e_shoff (the_ehdr io)) (shdr_table_size io) \<or>
     refuses_section io (unat (e_shstrndx (the_ehdr io))) \<or>
     (\<exists>t \<in> {PT_INTERP, PT_DYNAMIC}. \<exists>i. phdr_of io t = Some i \<and> refuses_segment io i) \<or>
     (\<exists>i \<in> set (sections_of io symtab_types). refuses_symtab io i) \<or>
     (\<exists>i \<in> set (sections_of io rel_types). refuses_rel io i) \<or>
     refuses_table io sizeof_symbol_table symtab_types \<or> refuses_table io sizeof_rel_table rel_types"

text \<open>\<open>holds io h p off n\<close>: the block \<open>p\<close> is the \<open>n\<close> bytes of the file at \<open>off\<close>.\<close>

definition holds :: "elf_io \<Rightarrow> heap \<Rightarrow> ptr \<Rightarrow> u64 \<Rightarrow> u64 \<Rightarrow> bool" where
  "holds io h p off n \<longleftrightarrow>
     io_read io off n = Some (the_bytes io off n) \<and> length (the_bytes io off n) = unat n \<and>
     blocks h p = Some (Data (the_bytes io off n))"

definition holds_section :: "elf_io \<Rightarrow> heap \<Rightarrow> ptr \<Rightarrow> nat \<Rightarrow> bool" where
  "holds_section io h p i = holds io h p (sh_offset (the_shdr io i)) (sh_size (the_shdr io i))"

definition holds_segment :: "elf_io \<Rightarrow> heap \<Rightarrow> ptr \<Rightarrow> nat \<Rightarrow> bool" where
  "holds_segment io h p i = holds io h p (p_offset (the_phdr io i)) (p_filesz (the_phdr io i))"

lemma holds_kept: "holds io h p off n \<Longrightarrow> kept X h h' \<Longrightarrow> p \<notin> X \<Longrightarrow> holds io h' p off n"
  by (simp add: holds_def keptD)

definition has_ehdr :: "elf_io \<Rightarrow> heap \<Rightarrow> elf_file \<Rightarrow> bool" where
  "has_ehdr io h f \<longleftrightarrow> holds io h (header f) 0 (of_nat sizeof_Ehdr) \<and> ELF_VERIFY_MAGIC (the_ehdr io)"

definition has_phdrs :: "elf_io \<Rightarrow> heap \<Rightarrow> elf_file \<Rightarrow> bool" where
  "has_phdrs io h f \<longleftrightarrow>
     (if e_phnum (the_ehdr io) = 0 then program_headers f = 0
      else holds io h (program_headers f) (e_phoff (the_ehdr io)) (phdr_table_size io))"

definition has_shdrs :: "elf_io \<Rightarrow> heap \<Rightarrow> elf_file \<Rightarrow> bool" where
  "has_shdrs io h f \<longleftrightarrow> holds io h (sections f) (e_shoff (the_ehdr io)) (shdr_table_size io)"

lemma run_get_Ehdr:
  assumes "has_ehdr io h f"
  shows "run (get_Ehdr (header f)) h Q = Q (the_ehdr io) h"
  using assms by (auto simp: run_def get_Ehdr_def andThen_def bytes_at_def has_ehdr_def holds_def
      the_ehdr_def sizeof_Ehdr_def)

lemma unat_table_size:
  "k \<le> 64 \<Longrightarrow> unat (of_nat k * ucast (n :: u16) :: u64) = k * unat n"
proof -
  assume k: "k \<le> 64"
  have n: "unat n < 65536" using unsigned_less[of n, where ?'a = nat] by simp
  have "k * unat n \<le> 64 * 65535" using k n by (intro mult_le_mono) simp_all
  then have "unat (of_nat (k * unat n) :: u64) = k * unat n" by (intro unat_of_nat64) simp
  then show ?thesis by simp
qed

lemma run_get_Shdr:
  assumes "has_shdrs io h f" and "i < n_shdrs io"
  shows "run (get_Shdr f i) h Q = Q (the_shdr io i) h"
proof -
  have "length (the_bytes io (e_shoff (the_ehdr io)) (shdr_table_size io)) = 64 * n_shdrs io"
    using assms(1) unat_table_size[of 64 "e_shnum (the_ehdr io)"]
    by (simp add: has_shdrs_def holds_def shdr_table_size_def sizeof_Shdr_def)
  then show ?thesis
    using assms by (auto simp: run_def get_Shdr_def get_element_def andThen_def bytes_at_def
        has_shdrs_def holds_def the_shdr_def sizeof_Shdr_def)
qed

lemma run_get_Phdr:
  assumes "has_phdrs io h f" and "i < n_phdrs io"
  shows "run (get_Phdr f i) h Q = Q (the_phdr io i) h"
proof -
  have nz: "e_phnum (the_ehdr io) \<noteq> 0" using assms(2) by auto
  then have "length (the_bytes io (e_phoff (the_ehdr io)) (phdr_table_size io)) = 56 * n_phdrs io"
    using assms(1) unat_table_size[of 56 "e_phnum (the_ehdr io)"]
    by (simp add: has_phdrs_def holds_def phdr_table_size_def sizeof_Phdr_def)
  then show ?thesis
    using assms nz by (auto simp: run_def get_Phdr_def get_element_def andThen_def bytes_at_def
        has_phdrs_def holds_def the_phdr_def sizeof_Phdr_def)
qed

section \<open>The laws of a reader\<close>

locale elf_reader =
  fixes io :: elf_io
  assumes reads: "io_read io off n = Some bs \<Longrightarrow> n \<le> 0x7fffffffffffffff \<Longrightarrow> length bs = unat n"
    and allocs: "io_alloc io k n \<Longrightarrow> n \<le> 0x7fffffffffffffff"
begin

lemma run_elf_read2:
  assumes "owns h0 M h"
  shows "run (elf_read2 io off n) h (\<lambda>p h'. owns h0 (blk p + M) h' \<and> kept {} h h' \<and>
    (p \<noteq> 0 \<longrightarrow> holds io h' p off n) \<and> (p = 0 \<longrightarrow> refuses io off n))"
  unfolding elf_read2_def run_andThen
proof (rule run_mono[OF run_elf_alloc[OF assms]])
  fix p h1
  assume a: "owns h0 (blk p + M) h1 \<and> kept {} h h1 \<and>
    (p \<noteq> 0 \<longrightarrow> blocks h1 p = Some (Raw n) \<and> p \<notin> dom (blocks h) \<and> (\<exists>k. io_alloc io k n)) \<and>
    (p = 0 \<longrightarrow> (\<exists>k. \<not> io_alloc io k n))"
  show "run (if p = 0 then andThen (elf_free p) (\<lambda>_. ret 0)
      else andThen (elf_read io p off n) (\<lambda>bad. if bad then andThen (elf_free p) (\<lambda>_. ret 0) else ret p))
      h1 (\<lambda>p h'. owns h0 (blk p + M) h' \<and> kept {} h h' \<and> (p \<noteq> 0 \<longrightarrow> holds io h' p off n) \<and>
        (p = 0 \<longrightarrow> refuses io off n))"
  proof (cases "p = 0")
    case True
    then show ?thesis using a by (simp add: refuses_def)
  next
    case False
    then have p: "blocks h1 p = Some (Raw n)" "p \<notin> dom (blocks h)" "n \<le> 0x7fffffffffffffff"
      using a allocs by blast+
    show ?thesis
    proof (cases "io_read io off n")
      case None
      then have "elf_read io p off n h1 = Some (True, h1)" by (simp add: elf_read_def p)
      moreover have "run (elf_free p) h1 (\<lambda>_ h'. owns h0 M h' \<and> kept {p} h1 h' \<and> blocks h' \<subseteq>\<^sub>m blocks h1)"
        using a by (intro run_elf_free) simp
      moreover have "kept {} h h'" if "kept {p} h1 h'" for h'
        using that a p(2) unfolding kept_def by (metis domI empty_iff insertE)
      ultimately show ?thesis
        using False None by (auto simp: run_value refuses_def elim: run_mono)
    next
      case (Some bs)
      let ?h = "h1\<lparr>blocks := (blocks h1)(p \<mapsto> Data bs)\<rparr>"
      have r: "elf_read io p off n h1 = Some (False, ?h)" by (simp add: elf_read_def p Some)
      have "owns h0 (blk p + M) ?h"
        using a False by (intro owns_write) (auto simp: blk_def)
      moreover have "holds io ?h p off n"
        using reads[OF Some p(3)] by (simp add: holds_def the_bytes_def Some)
      moreover have "kept {} h ?h" using a p(2) by (auto simp: kept_def domIff)
      ultimately show ?thesis using False by (simp add: run_value[of "elf_read io p off n" h1 False ?h, OF r])
    qed
  qed
qed

lemma run_read_section_data:
  assumes "owns h0 M h" and "has_shdrs io h f" and "i < n_shdrs io"
  shows "run (read_section_data io f i) h (\<lambda>p h'. owns h0 (blk p + M) h' \<and> kept {} h h' \<and>
    (p \<noteq> 0 \<longrightarrow> holds_section io h' p i) \<and> (p = 0 \<longrightarrow> refuses_section io i))"
  using run_elf_read2[OF assms(1)]
  by (simp add: read_section_data_def run_get_Shdr[OF assms(2,3)] holds_section_def refuses_section_def)

lemma run_read_phdr_data:
  assumes "owns h0 M h" and "has_phdrs io h f" and "i < n_phdrs io"
  shows "run (read_phdr_data io f i) h (\<lambda>p h'. owns h0 (blk p + M) h' \<and> kept {} h h' \<and>
    (p \<noteq> 0 \<longrightarrow> holds_segment io h' p i) \<and> (p = 0 \<longrightarrow> refuses_segment io i))"
  using run_elf_read2[OF assms(1)]
  by (simp add: read_phdr_data_def run_get_Phdr[OF assms(2,3)] holds_segment_def refuses_segment_def)

end

section \<open>What a structure owns\<close>

definition sym_blks :: "elf_symbol_table list \<Rightarrow> ptr multiset" where
  "sym_blks ts = sum_list (map (\<lambda>t. blk (symbols t) + blk (names t)) ts)"

definition rel_blks :: "elf_rel_table list \<Rightarrow> ptr multiset" where
  "rel_blks rs = sum_list (map (\<lambda>t. blk (relocations t)) rs)"

lemma sym_blks_simps [simp]:
  "sym_blks [] = {#}" "sym_blks (t # ts) = blk (symbols t) + blk (names t) + sym_blks ts"
  "sym_blks (ts @ us) = sym_blks ts + sym_blks us"
  by (simp_all add: sym_blks_def)

lemma rel_blks_simps [simp]:
  "rel_blks [] = {#}" "rel_blks (t # rs) = blk (relocations t) + rel_blks rs"
  "rel_blks (rs @ us) = rel_blks rs + rel_blks us"
  by (simp_all add: rel_blks_def)

lemma empty_tables [simp]:
  "symbols empty_symbol_table = 0" "names empty_symbol_table = 0" "relocations empty_rel_table = 0"
  by (simp_all add: empty_symbol_table_def empty_rel_table_def)

lemma sym_blks_empty [simp]: "sym_blks (replicate n empty_symbol_table) = {#}"
  by (induction n) (simp_all add: empty_symbol_table_def)

lemma rel_blks_empty [simp]: "rel_blks (replicate n empty_rel_table) = {#}"
  by (induction n) (simp_all add: empty_rel_table_def)

definition own :: "elf_file \<Rightarrow> elf_symbol_table list \<Rightarrow> elf_rel_table list \<Rightarrow> ptr multiset" where
  "own f ts rs = blk (header f) + blk (program_headers f) + blk (sections f)
     + blk (section_names f) + blk (interpreter f) + blk (dynamic (elf_dyn f))
     + sym_blks ts + blk (symbol_tables f) + rel_blks rs + blk (rel_tables f)"

definition tables_ok :: "elf_file \<Rightarrow> elf_symbol_table list \<Rightarrow> elf_rel_table list \<Rightarrow> heap \<Rightarrow> bool" where
  "tables_ok f ts rs h \<longleftrightarrow>
     length ts = unat (n_symbol_tables f) \<and> length rs = unat (n_rel_tables f) \<and>
     (if symbol_tables f = 0 then ts = [] else blocks h (symbol_tables f) = Some (Syms ts)) \<and>
     (if rel_tables f = 0 then rs = [] else blocks h (rel_tables f) = Some (Rels rs))"

definition file_ok ::
  "heap \<Rightarrow> elf_file \<Rightarrow> elf_symbol_table list \<Rightarrow> elf_rel_table list \<Rightarrow> heap \<Rightarrow> bool" where
  "file_ok h0 f ts rs h \<longleftrightarrow> owns h0 (own f ts rs) h \<and> tables_ok f ts rs h"

lemma sum_list_pairs: "sum_list (map blk (concat (map (\<lambda>t. [symbols t, names t]) ts))) = sym_blks ts"
  by (induction ts) (simp_all add: add.assoc)

lemma sum_list_relocations: "sum_list (map blk (map relocations rs)) = rel_blks rs"
  by (induction rs) simp_all

lemma smaller_heap:
  "blocks h' \<subseteq>\<^sub>m blocks h \<Longrightarrow> owns h0 M h' \<Longrightarrow> p \<in># M \<Longrightarrow> blocks h p = Some b \<Longrightarrow> blocks h' p = Some b"
  using owns_member[of h0 M h' p] by (auto simp: map_le_def)

lemma run_free_symbol_tables:
  assumes "owns h0 (sym_blks ts + M) h" and "length ts = unat (n_symbol_tables f)"
    and "n_symbol_tables f = 0 \<or> blocks h (symbol_tables f) = Some (Syms ts)"
  shows "run (free_symbol_tables f) h (\<lambda>_ h'. owns h0 M h' \<and> blocks h' \<subseteq>\<^sub>m blocks h)"
proof (cases "n_symbol_tables f = 0")
  case True
  then show ?thesis using assms(1,2) by (simp add: free_symbol_tables_def)
next
  case False
  then have "get_syms f h = Some (ts, h)" using assms(3) by (simp add: get_syms_def)
  then show ?thesis
    using run_free_all[of h0 "concat (map (\<lambda>t. [symbols t, names t]) ts)" M h] assms(1,2) False
    by (simp add: free_symbol_tables_def run_value sum_list_pairs)
qed

lemma run_free_rel_tables:
  assumes "owns h0 (rel_blks rs + M) h" and "length rs = unat (n_rel_tables f)"
    and "n_rel_tables f = 0 \<or> blocks h (rel_tables f) = Some (Rels rs)"
  shows "run (free_rel_tables f) h (\<lambda>_ h'. owns h0 M h' \<and> blocks h' \<subseteq>\<^sub>m blocks h)"
proof (cases "n_rel_tables f = 0")
  case True
  then show ?thesis using assms(1,2) by (simp add: free_rel_tables_def)
next
  case False
  then have "get_rels f h = Some (rs, h)" using assms(3) by (simp add: get_rels_def)
  then show ?thesis
    using run_free_all[of h0 "map relocations rs" M h] assms(1,2) False
    by (simp add: free_rel_tables_def run_value sum_list_relocations del: map_map)
qed

lemma run_free_elf_file:
  assumes "file_ok h0 f ts rs h"
  shows "run (free_elf_file f) h (\<lambda>_ h'. blocks h' = blocks h0)"
proof -
  let ?s = "symbol_tables f" and ?r = "rel_tables f"
  let ?ps = "[header f, program_headers f, sections f, section_names f, interpreter f,
    dynamic (elf_dyn f)]"
  let ?R = "rel_blks rs + blk ?r"
  have ok: "length ts = unat (n_symbol_tables f)" "length rs = unat (n_rel_tables f)"
    "?s \<noteq> 0 \<Longrightarrow> blocks h ?s = Some (Syms ts)" "?r \<noteq> 0 \<Longrightarrow> blocks h ?r = Some (Rels rs)"
    "?s = 0 \<Longrightarrow> ts = []" "?r = 0 \<Longrightarrow> rs = []"
    using assms by (auto simp: file_ok_def tables_ok_def)
  have n0: "?s = 0 \<Longrightarrow> n_symbol_tables f = 0" "?r = 0 \<Longrightarrow> n_rel_tables f = 0"
    using ok by (auto simp: unat_eq_zero)
  have 1: "run (free_all ?ps) h (\<lambda>_ h'. owns h0 (sym_blks ts + (blk ?s + ?R)) h' \<and> blocks h' \<subseteq>\<^sub>m blocks h)"
    using assms by (intro run_free_all) (simp add: file_ok_def own_def add_ac)
  have 2: "run (free_symbol_tables f) h' (\<lambda>_ h''. owns h0 (blk ?s + ?R) h'' \<and> blocks h'' \<subseteq>\<^sub>m blocks h')"
    if "owns h0 (sym_blks ts + (blk ?s + ?R)) h'" "blocks h' \<subseteq>\<^sub>m blocks h" for h'
  proof -
    have "n_symbol_tables f = 0 \<or> blocks h' ?s = Some (Syms ts)"
      using that ok(1,3) n0(1) smaller_heap[OF that(2,1), of ?s] by (cases "?s = 0") auto
    then show ?thesis using that(1) ok(1) by (intro run_free_symbol_tables) auto
  qed
  have 3: "run (free_rel_tables f) h' (\<lambda>_ h''. owns h0 (blk ?r) h'' \<and> blocks h'' \<subseteq>\<^sub>m blocks h')"
    if "owns h0 ?R h'" "blocks h' \<subseteq>\<^sub>m blocks h" for h'
  proof -
    have "n_rel_tables f = 0 \<or> blocks h' ?r = Some (Rels rs)"
      using that ok(2,4) n0(2) smaller_heap[OF that(2,1), of ?r] by (cases "?r = 0") auto
    then show ?thesis using that(1) ok(2) by (intro run_free_rel_tables) auto
  qed
  have 4: "run (elf_free ?r) h' (\<lambda>_ h''. blocks h'' = blocks h0)" if "owns h0 (blk ?r) h'" for h'
    using run_elf_free[of h0 ?r "{#}" h'] that by (auto elim!: run_mono dest: owns_none)
  show ?thesis
    unfolding free_elf_file_def run_andThen
    by (rule run_mono[OF 1], elim conjE, rule run_mono[OF 2], assumption+, elim conjE,
        rule run_mono[OF run_elf_free], assumption, elim conjE, rule run_mono[OF 3], assumption,
        blast intro: map_le_trans, rule 4, simp)
qed

section \<open>Symbol tables\<close>

definition sym_entry :: "elf_io \<Rightarrow> heap \<Rightarrow> nat \<Rightarrow> elf_symbol_table \<Rightarrow> bool" where
  "sym_entry io h i t \<longleftrightarrow> sym_section t = Some i \<and>
     n_symbols t = ucast (sh_size (the_shdr io i) div of_nat sizeof_Sym) \<and>
     holds_section io h (symbols t) i \<and> holds_section io h (names t) (link_of io i)"

lemma array_not_data: "holds io h p off n \<Longrightarrow> blocks h q = Some (Syms ts) \<Longrightarrow> p \<noteq> q"
  "holds io h p off n \<Longrightarrow> blocks h q = Some (Rels rs) \<Longrightarrow> p \<noteq> q"
  by (auto simp: holds_def)

lemma kept_has_shdrs:
  "has_shdrs io h f \<Longrightarrow> kept {q} h h' \<Longrightarrow> (\<forall>bs. blocks h q \<noteq> Some (Data bs)) \<Longrightarrow> has_shdrs io h' f"
  "has_shdrs io h f \<Longrightarrow> kept {} h h' \<Longrightarrow> has_shdrs io h' f"
  by (auto simp: has_shdrs_def holds_def kept_def)

lemma kept_sym_entry:
  "sym_entry io h i t \<Longrightarrow> kept {q} h h' \<Longrightarrow> (\<forall>bs. blocks h q \<noteq> Some (Data bs)) \<Longrightarrow> sym_entry io h' i t"
  "sym_entry io h i t \<Longrightarrow> kept {} h h' \<Longrightarrow> sym_entry io h' i t"
  by (auto simp: sym_entry_def holds_section_def holds_def kept_def)

lemma run_upd_sym:
  assumes "blocks h (symbol_tables f) = Some (Syms (xs @ t # ys))" and "k = length xs"
  shows "run (upd_sym f k g) h Q =
    Q () (h\<lparr>blocks := (blocks h)(symbol_tables f \<mapsto> Syms (xs @ g t # ys))\<rparr>)"
  using assms by (simp add: run_def upd_sym_def andThen_def get_syms_def)

lemma run_upd_rel:
  assumes "blocks h (rel_tables f) = Some (Rels (xs @ t # ys))" and "k = length xs"
  shows "run (upd_rel f k g) h Q =
    Q () (h\<lparr>blocks := (blocks h)(rel_tables f \<mapsto> Rels (xs @ g t # ys))\<rparr>)"
  using assms by (simp add: run_def upd_rel_def andThen_def get_rels_def)

lemma kept_write: "kept {q} h (h\<lparr>blocks := (blocks h)(q \<mapsto> b)\<rparr>)"
  by (simp add: kept_def)

text \<open>
  What the loop over the sections promises: \<open>js\<close> are the symbol tables it has read already,
  \<open>is\<close> the ones it has still to read.
\<close>

definition syms_post ::
  "elf_io \<Rightarrow> elf_file \<Rightarrow> ptr multiset \<Rightarrow> heap \<Rightarrow> heap \<Rightarrow> nat \<Rightarrow> nat list \<Rightarrow> nat list \<Rightarrow> bool \<Rightarrow> heap \<Rightarrow> bool" where
  "syms_post io f R h0 h n js is = (\<lambda>bad h'. \<exists>ts. length ts = n \<and>
     owns h0 (sym_blks ts + R) h' \<and> blocks h' (symbol_tables f) = Some (Syms ts) \<and>
     kept {symbol_tables f} h h' \<and>
     (bad \<longrightarrow> list_ex (refuses_symtab io) is) \<and>
     (\<not> bad \<longrightarrow> list_all2 (sym_entry io h') (js @ is) ts))"

text \<open>
  One step of the loop over the symbol tables: a section is read into a block \<open>p\<close> and the
  entry \<open>k\<close> gets it.
\<close>

context elf_reader
begin

lemma run_sym_step:
  assumes own: "owns h0 (B + R) h" and tab: "symbol_tables f \<in># R"
    and arr: "blocks h (symbol_tables f) = Some (Syms (xs @ t # ys))" and k: "k = length xs"
    and sh: "has_shdrs io h f" and i: "i < n_shdrs io"
    and post: "\<And>p h'. owns h0 (blk p + (B + R)) h' \<Longrightarrow> kept {symbol_tables f} h h' \<Longrightarrow>
      blocks h' (symbol_tables f) = Some (Syms (xs @ g p t # ys)) \<Longrightarrow> has_shdrs io h' f \<Longrightarrow>
      (p \<noteq> 0 \<longrightarrow> holds_section io h' p i) \<Longrightarrow> (p = 0 \<longrightarrow> refuses_section io i) \<Longrightarrow> run (c p) h' Q"
  shows "run (andThen (read_section_data io f i) (\<lambda>p. andThen (upd_sym f k (g p)) (\<lambda>_. c p))) h Q"
  unfolding run_andThen
proof (rule run_mono[OF run_read_section_data[OF own sh i]])
  fix p :: ptr and h1 :: heap
  let ?q = "symbol_tables f"
  let ?h = "h1\<lparr>blocks := (blocks h1)(?q \<mapsto> Syms (xs @ g p t # ys))\<rparr>"
  assume a: "owns h0 (blk p + (B + R)) h1 \<and> kept {} h h1 \<and> (p \<noteq> 0 \<longrightarrow> holds_section io h1 p i) \<and>
    (p = 0 \<longrightarrow> refuses_section io i)"
  then have arr1: "blocks h1 ?q = Some (Syms (xs @ t # ys))" using keptD[OF _ arr] by auto
  have kw: "kept {?q} h1 ?h" by (rule kept_write)
  have "owns h0 (blk p + (B + R)) ?h" using a tab by (intro owns_write) auto
  moreover have "kept {?q} h ?h" using a kw by (blast intro: kept_trans kept_weaken)
  moreover have "has_shdrs io ?h f"
    using kept_has_shdrs(1)[OF _ kw] kept_has_shdrs(2)[OF sh] a arr1 by simp
  moreover have "p \<noteq> 0 \<longrightarrow> holds_section io ?h p i"
    using a array_not_data(1)[OF _ arr1] holds_kept[OF _ kw] by (auto simp: holds_section_def)
  ultimately have "run (c p) ?h Q" using a by (intro post) simp_all
  then show "run (upd_sym f k (g p)) h1 (\<lambda>_ h'. run (c p) h' Q)"
    by (simp add: run_upd_sym[OF arr1 k])
qed

text \<open>One symbol table: both of its sections are read, or the entry is left where reading failed.\<close>

lemma run_sym_entry:
  fixes f :: elf_file and h :: heap and i :: nat
  defines "t1 \<equiv> empty_symbol_table\<lparr>sym_section := Some i,
      n_symbols := ucast (sh_size (the_shdr io i) div of_nat sizeof_Sym)\<rparr>"
  assumes own: "owns h0 (B + R) h" and R: "symbol_tables f \<in># R"
    and arr: "blocks h (symbol_tables f) = Some (Syms (xs @ t1 # ys))" and sh: "has_shdrs io h f"
    and i: "i < n_shdrs io" and link: "link_of io i < n_shdrs io"
    and bad: "\<And>t h'. owns h0 (blk (symbols t) + blk (names t) + (B + R)) h' \<Longrightarrow>
      blocks h' (symbol_tables f) = Some (Syms (xs @ t # ys)) \<Longrightarrow> kept {symbol_tables f} h h' \<Longrightarrow>
      refuses_symtab io i \<Longrightarrow> Q True h'"
    and good: "\<And>t h'. owns h0 (blk (symbols t) + blk (names t) + (B + R)) h' \<Longrightarrow>
      blocks h' (symbol_tables f) = Some (Syms (xs @ t # ys)) \<Longrightarrow> kept {symbol_tables f} h h' \<Longrightarrow>
      has_shdrs io h' f \<Longrightarrow> sym_entry io h' i t \<Longrightarrow> run c h' Q"
  shows "run (andThen (read_section_data io f i) (\<lambda>p.
      andThen (upd_sym f (length xs) (\<lambda>t. t\<lparr>symbols := p\<rparr>)) (\<lambda>_.
        if p = 0 then ret True
        else andThen (read_section_data io f (link_of io i)) (\<lambda>q.
          andThen (upd_sym f (length xs) (\<lambda>t. t\<lparr>names := q\<rparr>)) (\<lambda>_.
            if q = 0 then ret True else c))))) h Q"
proof (rule run_sym_step[OF own R arr refl sh i])
  fix p h2
  let ?q = "symbol_tables f" and ?t2 = "t1\<lparr>symbols := p\<rparr>"
  assume a: "owns h0 (blk p + (B + R)) h2" "kept {?q} h h2"
    "blocks h2 ?q = Some (Syms (xs @ ?t2 # ys))" "has_shdrs io h2 f"
    "p \<noteq> 0 \<longrightarrow> holds_section io h2 p i" "p = 0 \<longrightarrow> refuses_section io i"
  have names: "names t1 = 0" by (simp add: t1_def)
  have "run (andThen (read_section_data io f (link_of io i)) (\<lambda>q.
      andThen (upd_sym f (length xs) (\<lambda>t. t\<lparr>names := q\<rparr>)) (\<lambda>_.
        if q = 0 then ret True else c))) h2 Q" if p: "p \<noteq> 0"
  proof (rule run_sym_step[OF a(1)[folded add.assoc] R a(3) refl a(4) link])
    fix q h3
    let ?t3 = "?t2\<lparr>names := q\<rparr>"
    assume b: "owns h0 (blk q + (blk p + B + R)) h3" "kept {?q} h2 h3"
      "blocks h3 ?q = Some (Syms (xs @ ?t3 # ys))" "has_shdrs io h3 f"
      "q \<noteq> 0 \<longrightarrow> holds_section io h3 q (link_of io i)"
      "q = 0 \<longrightarrow> refuses_section io (link_of io i)"
    have own3: "owns h0 (blk (symbols ?t3) + blk (names ?t3) + (B + R)) h3"
      using b(1) by (simp add: add_ac)
    have k: "kept {?q} h h3" using a(2) b(2) by (rule kept_trans)
    have "holds_section io h3 p i"
      using a(5) p array_not_data(1)[OF _ a(3)] holds_kept[OF _ b(2)]
      by (auto simp: holds_section_def)
    then have "sym_entry io h3 i ?t3" if "q \<noteq> 0"
      using b(5) that by (simp add: sym_entry_def t1_def)
    then show "run (if q = 0 then ret True else c) h3 Q"
      using bad[OF own3 b(3) k] good[OF own3 b(3) k b(4)] b(6) by (simp add: refuses_symtab_def)
  qed
  then show "run (if p = 0 then ret True
      else andThen (read_section_data io f (link_of io i)) (\<lambda>q.
        andThen (upd_sym f (length xs) (\<lambda>t. t\<lparr>names := q\<rparr>)) (\<lambda>_.
          if q = 0 then ret True else c))) h2 Q"
    using bad[OF _ a(3,2)] a(1,6) by (simp add: names refuses_symtab_def)
qed

lemma run_symbol_tables_post:
  assumes R: "symbol_tables f \<in># R" and "\<forall>i \<in> set is. i < n_shdrs io"
    and "\<forall>i \<in> set is. sh_type (the_shdr io i) \<in> symtab_types \<longrightarrow> link_of io i < n_shdrs io"
  shows "owns h0 (sym_blks (done @ replicate m empty_symbol_table) + R) h \<Longrightarrow>
    blocks h (symbol_tables f) = Some (Syms (done @ replicate m empty_symbol_table)) \<Longrightarrow>
    m = length (filter (\<lambda>i. sh_type (the_shdr io i) \<in> symtab_types) is) \<Longrightarrow>
    has_shdrs io h f \<Longrightarrow> list_all2 (sym_entry io h) js done \<Longrightarrow>
    run (symbol_tables_loop io f is (length done)) h (syms_post io f R h0 h (length done + m) js
      (filter (\<lambda>i. sh_type (the_shdr io i) \<in> symtab_types) is))"
  using assms(2,3)
proof (induction "is" arbitrary: h "done" m js)
  case Nil
  then show ?case by (auto simp: syms_post_def)
next
  case (Cons i "is")
  let ?q = "symbol_tables f" and ?s = "the_shdr io i"
  let ?types = "\<lambda>i. sh_type (the_shdr io i) \<in> symtab_types"
  let ?Q = "syms_post io f R h0 h (length done + m) js (filter ?types (i # is))"
  have i: "i < n_shdrs io" using Cons.prems by simp
  show ?case
  proof (cases "?types i")
    case False
    then show ?thesis
      using Cons.IH[of "done" m h js] Cons.prems by (simp add: run_get_Shdr[OF Cons.prems(4) i])
  next
    case True
    define ys where "ys = replicate (m - 1) empty_symbol_table"
    have m: "replicate m empty_symbol_table = empty_symbol_table # ys" "m = Suc (m - 1)"
      using True Cons.prems(3) by (simp_all add: ys_def)
    let ?t1 = "empty_symbol_table\<lparr>sym_section := Some i,
      n_symbols := ucast (sh_size ?s div of_nat sizeof_Sym)\<rparr>"
    let ?h1 = "h\<lparr>blocks := (blocks h)(?q \<mapsto> Syms (done @ ?t1 # ys))\<rparr>"
    have arr: "blocks h ?q = Some (Syms (done @ empty_symbol_table # ys))"
      using Cons.prems(2) by (simp add: m(1))
    have k1: "kept {?q} h ?h1" by (rule kept_write)
    have o1: "owns h0 (sym_blks done + R) ?h1"
      using Cons.prems(1) R by (intro owns_write) simp_all
    have s1: "has_shdrs io ?h1 f" using Cons.prems(4) arr by (intro kept_has_shdrs(1)[OF _ k1]) auto
    have link: "link_of io i < n_shdrs io" using Cons.prems(7) True by auto
    have nt: "\<not> (sh_type ?s \<noteq> SHT_SYMTAB \<and> sh_type ?s \<noteq> SHT_DYNSYM)" using True by simp
    note entry = run_sym_entry[OF o1 R _ s1 i link, where xs = "done" and ys = ys and Q = ?Q]
    show ?thesis
      unfolding symbol_tables_loop.simps run_andThen run_get_Shdr[OF Cons.prems(4) i]
        if_not_P[OF nt] run_upd_sym[OF arr refl] link_of_def[symmetric]
    proof (rule entry[unfolded run_andThen])
      show "blocks ?h1 ?q = Some (Syms (done @ ?t1 # ys))" by simp
    next
      fix t h'
      assume "owns h0 (blk (symbols t) + blk (names t) + (sym_blks done + R)) h'"
        "blocks h' ?q = Some (Syms (done @ t # ys))" "kept {?q} ?h1 h'" "refuses_symtab io i"
      then show "?Q True h'"
        using m(2) kept_trans[OF k1] True unfolding syms_post_def
        by (intro exI[of _ "done @ t # ys"]) (simp add: ys_def add_ac)
    next
      fix t h'
      assume a: "owns h0 (blk (symbols t) + blk (names t) + (sym_blks done + R)) h'"
        "blocks h' ?q = Some (Syms (done @ t # ys))" "kept {?q} ?h1 h'" "has_shdrs io h' f"
        "sym_entry io h' i t"
      have k2: "kept {?q} h h'" using k1 a(3) by (rule kept_trans)
      have "list_all2 (sym_entry io h') (js @ [i]) (done @ [t])"
        using Cons.prems(5) a(5) arr
        by (auto intro!: list_all2_appendI kept_sym_entry(1)[OF _ k2] elim!: list_all2_mono)
      then have "run (symbol_tables_loop io f is (length (done @ [t]))) h' (syms_post io f R h0 h'
          (length (done @ [t]) + (m - 1)) (js @ [i]) (filter ?types is))"
        using a Cons.prems True by (intro Cons.IH) (auto simp: ys_def add_ac)
      then show "run (symbol_tables_loop io f is (length done + 1)) h' ?Q"
        using m(2) kept_trans[OF k2] True unfolding syms_post_def
        by (auto elim!: run_mono)
    qed
  qed
qed

lemmas run_symbol_tables_loop = run_symbol_tables_post[unfolded syms_post_def]

end

section \<open>Relocation tables\<close>

definition section_bytes :: "elf_io \<Rightarrow> nat \<Rightarrow> u8 list" where
  "section_bytes io i = the_bytes io (sh_offset (the_shdr io i)) (sh_size (the_shdr io i))"

definition converted :: "elf_io \<Rightarrow> nat \<Rightarrow> Elf64_Rela list" where
  "converted io i =
     map (\<lambda>j. rel_to_rela (array_at decode_Rel sizeof_Rel (section_bytes io i) j))
       [0..<unat (sh_size (the_shdr io i) div of_nat sizeof_Shdr)]"

definition holds_relas :: "elf_io \<Rightarrow> heap \<Rightarrow> ptr \<Rightarrow> nat \<Rightarrow> bool" where
  "holds_relas io h p i \<longleftrightarrow>
     (if sh_type (the_shdr io i) = SHT_RELA then holds_section io h p i
      else io_read io (sh_offset (the_shdr io i)) (sh_size (the_shdr io i)) = Some (section_bytes io i)
        \<and> blocks h p = Some (Relas (converted io i)))"

definition rel_entry :: "elf_io \<Rightarrow> heap \<Rightarrow> nat \<Rightarrow> elf_rel_table \<Rightarrow> bool" where
  "rel_entry io h i t \<longleftrightarrow> rel_section t = Some i \<and>
     n_relocations t = sh_size (the_shdr io i) div sh_entsize (the_shdr io i) \<and>
     holds_relas io h (relocations t) i"

lemma kept_holds_relas:
  assumes "holds_relas io h p i" and "kept {q} h h'" and "blocks h q = Some (Rels rs)"
  shows "holds_relas io h' p i"
proof -
  have "p \<noteq> q"
    using assms(1,3) by (auto simp: holds_relas_def holds_section_def holds_def split: if_splits)
  then show ?thesis
    using assms(1,2) by (auto simp: holds_relas_def holds_section_def holds_def kept_def split: if_splits)
qed

lemma kept_rel_entry:
  "rel_entry io h i t \<Longrightarrow> kept {q} h h' \<Longrightarrow> blocks h q = Some (Rels rs) \<Longrightarrow> rel_entry io h' i t"
  using kept_holds_relas by (auto simp: rel_entry_def)

text \<open>What the loop over the sections promises of the relocation tables, \<open>js\<close> and \<open>is\<close> as above.\<close>

definition rels_post ::
  "elf_io \<Rightarrow> elf_file \<Rightarrow> ptr multiset \<Rightarrow> heap \<Rightarrow> heap \<Rightarrow> nat \<Rightarrow> nat list \<Rightarrow> nat list \<Rightarrow> bool \<Rightarrow> heap \<Rightarrow> bool" where
  "rels_post io f R h0 h n js is = (\<lambda>bad h'. \<exists>rs. length rs = n \<and>
     owns h0 (rel_blks rs + R) h' \<and> blocks h' (rel_tables f) = Some (Rels rs) \<and>
     kept {rel_tables f} h h' \<and>
     (bad \<longrightarrow> list_ex (refuses_rel io) is) \<and>
     (\<not> bad \<longrightarrow> list_all2 (rel_entry io h') (js @ is) rs))"

context elf_reader
begin

lemma run_convert_entries:
  assumes own: "owns h0 (blk q + (blk r + M)) h" and r: "blocks h r = Some (Data bs)"
    and fits: "sizeof_Rel * n \<le> length bs" and q: "q \<noteq> 0" "q \<noteq> r"
  shows "run (andThen (convert_entries r q n) (\<lambda>_. andThen (elf_free r) (\<lambda>_. ret q))) h
    (\<lambda>p h'. p = q \<and> owns h0 (blk q + M) h' \<and> kept {q, r} h h' \<and>
      blocks h' q = Some (Relas (map (\<lambda>j. rel_to_rela (array_at decode_Rel sizeof_Rel bs j)) [0..<n])))"
proof -
  let ?as = "map (\<lambda>j. rel_to_rela (array_at decode_Rel sizeof_Rel bs j)) [0..<n]"
  let ?h = "h\<lparr>blocks := (blocks h)(q \<mapsto> Relas ?as)\<rparr>"
  have "owns h0 (blk r + (blk q + M)) ?h"
    using own q(1) by (intro owns_write) (simp_all add: add_ac)
  then have "run (elf_free r) ?h (\<lambda>_ h'. owns h0 (blk q + M) h' \<and> kept {r} ?h h' \<and> blocks h' \<subseteq>\<^sub>m blocks ?h)"
    by (rule run_elf_free)
  moreover have "convert_entries r q n h = Some ((), ?h)"
    using fits by (simp add: convert_entries_def andThen_def bytes_at_def r)
  ultimately show ?thesis
    using q(2) by (auto simp: run_value[of "convert_entries r q n" h "()" ?h] kept_def elim!: run_mono)
qed

lemma run_convert_rest:
  assumes own: "owns h0 (blk r + M) h" and r: "blocks h r = Some (Data bs)"
    and fits: "sizeof_Rel * unat n \<le> length bs"
  shows "run (andThen (elf_alloc io (of_nat sizeof_Rela * n)) (\<lambda>q.
      if q = 0 then andThen (elf_free r) (\<lambda>_. andThen (elf_free q) (\<lambda>_. ret 0))
      else andThen (convert_entries r q (unat n)) (\<lambda>_. andThen (elf_free r) (\<lambda>_. ret q)))) h
    (\<lambda>p h'. owns h0 (blk p + M) h' \<and> kept {r} h h' \<and>
      (p \<noteq> 0 \<longrightarrow> blocks h' p =
        Some (Relas (map (\<lambda>j. rel_to_rela (array_at decode_Rel sizeof_Rel bs j)) [0..<unat n]))) \<and>
      (p = 0 \<longrightarrow> (\<exists>k. \<not> io_alloc io k (of_nat sizeof_Rela * n))))"
  unfolding run_andThen
proof (rule run_mono[OF run_elf_alloc[OF own]], elim conjE)
  fix q h1
  assume o1: "owns h0 (blk q + (blk r + M)) h1" and k1: "kept {} h h1"
    and ok: "q \<noteq> 0 \<longrightarrow> blocks h1 q = Some (Raw (of_nat sizeof_Rela * n)) \<and> q \<notin> dom (blocks h) \<and>
        (\<exists>k. io_alloc io k (of_nat sizeof_Rela * n))"
    and no: "q = 0 \<longrightarrow> (\<exists>k. \<not> io_alloc io k (of_nat sizeof_Rela * n))"
  have r1: "blocks h1 r = Some (Data bs)" using keptD[OF k1 r] by simp
  show "run (if q = 0 then andThen (elf_free r) (\<lambda>_. andThen (elf_free q) (\<lambda>_. ret 0))
      else andThen (convert_entries r q (unat n)) (\<lambda>_. andThen (elf_free r) (\<lambda>_. ret q))) h1
    (\<lambda>p h'. owns h0 (blk p + M) h' \<and> kept {r} h h' \<and>
      (p \<noteq> 0 \<longrightarrow> blocks h' p =
        Some (Relas (map (\<lambda>j. rel_to_rela (array_at decode_Rel sizeof_Rel bs j)) [0..<unat n]))) \<and>
      (p = 0 \<longrightarrow> (\<exists>k. \<not> io_alloc io k (of_nat sizeof_Rela * n))))"
  proof (cases "q = 0")
    case True
    have "run (elf_free r) h1 (\<lambda>_ h'. owns h0 M h' \<and> kept {r} h1 h' \<and> blocks h' \<subseteq>\<^sub>m blocks h1)"
      using o1 True by (intro run_elf_free) simp
    then show ?thesis using k1 no True by (auto simp: kept_def elim!: run_mono)
  next
    case False
    then have q: "q \<notin> dom (blocks h)" "q \<noteq> r" using ok r by auto
    then have "kept {r} h h'" if "kept {q, r} h1 h'" for h'
      using that k1 unfolding kept_def by (metis domI empty_iff insertE)
    then show ?thesis
      using run_convert_entries[OF o1 r1 fits False q(2)] False by (auto elim!: run_mono)
  qed
qed

lemma run_convert:
  assumes own: "owns h0 M h" and sh: "has_shdrs io h f" and i: "i < n_shdrs io"
  shows "run (convert_rel_to_rela io f i) h (\<lambda>p h'. owns h0 (blk p + M) h' \<and> kept {} h h' \<and>
    (p \<noteq> 0 \<longrightarrow> io_read io (sh_offset (the_shdr io i)) (sh_size (the_shdr io i)) = Some (section_bytes io i)
      \<and> blocks h' p = Some (Relas (converted io i))) \<and> (p = 0 \<longrightarrow> refuses_rel io i))"
    (is "run _ h ?Q")
  unfolding convert_rel_to_rela_def run_andThen Let_def
proof (rule run_mono[OF run_read_section_data[OF own sh i]], elim conjE)
  let ?s = "the_shdr io i"
  let ?n = "sh_size ?s div of_nat sizeof_Shdr"
  fix r h1
  assume o1: "owns h0 (blk r + M) h1" and k1: "kept {} h h1"
    and hr: "r \<noteq> 0 \<longrightarrow> holds_section io h1 r i" and no: "r = 0 \<longrightarrow> refuses_section io i"
  let ?m = "andThen (get_Shdr f i) (\<lambda>s. andThen (elf_alloc io (of_nat sizeof_Rela * (sh_size s div of_nat sizeof_Shdr)))
      (\<lambda>q. if q = 0 then andThen (elf_free r) (\<lambda>_. andThen (elf_free q) (\<lambda>_. ret 0))
        else andThen (convert_entries r q (unat (sh_size s div of_nat sizeof_Shdr)))
          (\<lambda>_. andThen (elf_free r) (\<lambda>_. ret q))))"
  have rest: "run ?m h1 ?Q" if "r \<noteq> 0"
  proof -
    have sh1: "has_shdrs io h1 f" using k1 by (rule kept_has_shdrs(2)[OF sh])
    have bs: "io_read io (sh_offset ?s) (sh_size ?s) = Some (section_bytes io i)"
      "length (section_bytes io i) = unat (sh_size ?s)" "blocks h1 r = Some (Data (section_bytes io i))"
      using hr that by (auto simp: holds_section_def holds_def section_bytes_def)
    have fits: "sizeof_Rel * unat ?n \<le> length (section_bytes io i)"
      unfolding bs(2) sizeof_Rel_def sizeof_Shdr_def by (simp add: unat_div)
    have "r \<notin> dom (blocks h)" using owns_new[OF own o1] k1 that by blast
    then have "kept {} h h'" if "kept {r} h1 h'" for h'
      using that k1 unfolding kept_def by (metis domI empty_iff insertE)
    moreover have "run (?m) h1 Q = run (andThen (elf_alloc io (of_nat sizeof_Rela * ?n)) (\<lambda>q.
        if q = 0 then andThen (elf_free r) (\<lambda>_. andThen (elf_free q) (\<lambda>_. ret 0))
        else andThen (convert_entries r q (unat ?n)) (\<lambda>_. andThen (elf_free r) (\<lambda>_. ret q)))) h1 Q" for Q
      by (subst run_andThen) (rule run_get_Shdr[OF sh1 i])
    ultimately show ?thesis
      using run_convert_rest[OF o1 bs(3) fits] bs(1)
      by (auto simp: refuses_rel_def converted_def elim!: run_mono)
  qed
  show "run (if r = 0 then andThen (elf_free r) (\<lambda>_. andThen (elf_free 0) (\<lambda>_. ret 0)) else ?m) h1 ?Q"
  proof (cases "r = 0")
    case True
    then show ?thesis using o1 k1 no by (simp add: refuses_rel_def)
  next
    case False
    then show ?thesis unfolding if_not_P[OF False] by (rule rest)
  qed
qed

lemma run_rel_step:
  assumes act: "run m h (\<lambda>p h'. owns h0 (blk p + (B + R)) h' \<and> kept {} h h' \<and>
      (p \<noteq> 0 \<longrightarrow> holds_relas io h' p i) \<and> (p = 0 \<longrightarrow> refuses_rel io i))"
    and tab: "rel_tables f \<in># R" and arr: "blocks h (rel_tables f) = Some (Rels (xs @ t # ys))"
    and k: "k = length xs" and sh: "has_shdrs io h f"
    and post: "\<And>p h'. owns h0 (blk p + (B + R)) h' \<Longrightarrow> kept {rel_tables f} h h' \<Longrightarrow>
      blocks h' (rel_tables f) = Some (Rels (xs @ g p t # ys)) \<Longrightarrow> has_shdrs io h' f \<Longrightarrow>
      (p \<noteq> 0 \<longrightarrow> holds_relas io h' p i) \<Longrightarrow> (p = 0 \<longrightarrow> refuses_rel io i) \<Longrightarrow> run (c p) h' Q"
  shows "run (andThen m (\<lambda>p. andThen (upd_rel f k (g p)) (\<lambda>_. c p))) h Q"
  unfolding run_andThen
proof (rule run_mono[OF act])
  fix p :: ptr and h1 :: heap
  let ?q = "rel_tables f"
  let ?h = "h1\<lparr>blocks := (blocks h1)(?q \<mapsto> Rels (xs @ g p t # ys))\<rparr>"
  assume a: "owns h0 (blk p + (B + R)) h1 \<and> kept {} h h1 \<and> (p \<noteq> 0 \<longrightarrow> holds_relas io h1 p i) \<and>
    (p = 0 \<longrightarrow> refuses_rel io i)"
  then have arr1: "blocks h1 ?q = Some (Rels (xs @ t # ys))" using keptD[OF _ arr] by auto
  have kw: "kept {?q} h1 ?h" by (rule kept_write)
  have "owns h0 (blk p + (B + R)) ?h" using a tab by (intro owns_write) auto
  moreover have "kept {?q} h ?h" using a kw by (blast intro: kept_trans kept_weaken)
  moreover have "has_shdrs io ?h f"
    using kept_has_shdrs(1)[OF _ kw] kept_has_shdrs(2)[OF sh] a arr1 by simp
  moreover have "p \<noteq> 0 \<longrightarrow> holds_relas io ?h p i"
    using a kept_holds_relas[OF _ kw arr1] by blast
  ultimately have "run (c p) ?h Q" using a by (intro post) simp_all
  then show "run (upd_rel f k (g p)) h1 (\<lambda>_ h'. run (c p) h' Q)"
    by (simp add: run_upd_rel[OF arr1 k])
qed

lemma run_rel_read:
  assumes "owns h0 M h" and "has_shdrs io h f" and "i < n_shdrs io"
  shows "run (if sh_type (the_shdr io i) = SHT_RELA then read_section_data io f i
      else convert_rel_to_rela io f i) h
    (\<lambda>p h'. owns h0 (blk p + M) h' \<and> kept {} h h' \<and> (p \<noteq> 0 \<longrightarrow> holds_relas io h' p i) \<and>
      (p = 0 \<longrightarrow> refuses_rel io i))"
proof (cases "sh_type (the_shdr io i) = SHT_RELA")
  case True
  have "run (read_section_data io f i) h (\<lambda>p h'. owns h0 (blk p + M) h' \<and> kept {} h h' \<and>
      (p \<noteq> 0 \<longrightarrow> holds_relas io h' p i) \<and> (p = 0 \<longrightarrow> refuses_rel io i))"
    by (rule run_mono[OF run_read_section_data[OF assms]]) (simp add: True holds_relas_def refuses_rel_def)
  then show ?thesis using True by simp
next
  case False
  then show ?thesis using run_convert[OF assms] by (simp add: holds_relas_def)
qed

lemma run_rel_tables_post:
  assumes R: "rel_tables f \<in># R" and "\<forall>i \<in> set is. i < n_shdrs io"
    and "\<forall>i \<in> set is. sh_type (the_shdr io i) \<in> rel_types \<longrightarrow> sh_entsize (the_shdr io i) \<noteq> 0"
  shows "owns h0 (rel_blks (done @ replicate m empty_rel_table) + R) h \<Longrightarrow>
    blocks h (rel_tables f) = Some (Rels (done @ replicate m empty_rel_table)) \<Longrightarrow>
    m = length (filter (\<lambda>i. sh_type (the_shdr io i) \<in> rel_types) is) \<Longrightarrow>
    has_shdrs io h f \<Longrightarrow> list_all2 (rel_entry io h) js done \<Longrightarrow>
    run (rel_tables_loop io f is (length done)) h (rels_post io f R h0 h (length done + m) js
      (filter (\<lambda>i. sh_type (the_shdr io i) \<in> rel_types) is))"
  using assms(2,3)
proof (induction "is" arbitrary: h "done" m js)
  case Nil
  then show ?case by (auto simp: rels_post_def)
next
  case (Cons i "is")
  let ?q = "rel_tables f" and ?s = "the_shdr io i"
  let ?types = "\<lambda>i. sh_type (the_shdr io i) \<in> rel_types"
  let ?Q = "rels_post io f R h0 h (length done + m) js (filter ?types (i # is))"
  have i: "i < n_shdrs io" using Cons.prems by simp
  show ?case
  proof (cases "?types i")
    case False
    then show ?thesis
      using Cons.IH[of "done" m h js] Cons.prems by (simp add: run_get_Shdr[OF Cons.prems(4) i])
  next
    case True
    define ys where "ys = replicate (m - 1) empty_rel_table"
    have m: "replicate m empty_rel_table = empty_rel_table # ys" "m = Suc (m - 1)"
      using True Cons.prems(3) by (simp_all add: ys_def)
    have nt: "\<not> (sh_type ?s \<noteq> SHT_REL \<and> sh_type ?s \<noteq> SHT_RELA)" using True by simp
    have nz: "\<not> sh_entsize ?s = 0" using Cons.prems(7) True by auto
    let ?t1 = "empty_rel_table\<lparr>rel_section := Some i, n_relocations := sh_size ?s div sh_entsize ?s\<rparr>"
    let ?h1 = "h\<lparr>blocks := (blocks h)(?q \<mapsto> Rels (done @ ?t1 # ys))\<rparr>"
    have arr: "blocks h ?q = Some (Rels (done @ empty_rel_table # ys))"
      using Cons.prems(2) by (simp add: m(1))
    have k1: "kept {?q} h ?h1" by (rule kept_write)
    have o1: "owns h0 (rel_blks done + R) ?h1"
      using Cons.prems(1) R by (intro owns_write) simp_all
    have s1: "has_shdrs io ?h1 f" using Cons.prems(4) arr by (intro kept_has_shdrs(1)[OF _ k1]) auto
    note step = run_rel_step[where t = ?t1 and xs = "done" and ys = ys, OF run_rel_read[OF o1 s1 i] R _ refl s1]
    show ?thesis
      unfolding rel_tables_loop.simps run_andThen run_get_Shdr[OF Cons.prems(4) i]
        if_not_P[OF nt] if_not_P[OF nz] run_upd_rel[OF arr refl]
    proof (rule step[unfolded run_andThen])
      show "blocks ?h1 ?q = Some (Rels (done @ ?t1 # ys))" by simp
      fix p h2
      let ?t2 = "?t1\<lparr>relocations := p\<rparr>"
      assume a: "owns h0 (blk p + (rel_blks done + R)) h2" "kept {?q} ?h1 h2"
        "blocks h2 ?q = Some (Rels (done @ ?t2 # ys))" "has_shdrs io h2 f"
        "p \<noteq> 0 \<longrightarrow> holds_relas io h2 p i" "p = 0 \<longrightarrow> refuses_rel io i"
      have k2: "kept {?q} h h2" using k1 a(2) by (rule kept_trans)
      have "?Q True h2" if "p = 0"
        using a k2 m(2) that True unfolding rels_post_def
        by (intro exI[of _ "done @ ?t2 # ys"]) (simp add: ys_def add_ac)
      moreover have "run (rel_tables_loop io f is (length done + 1)) h2 ?Q" if p: "p \<noteq> 0"
      proof -
        have "list_all2 (rel_entry io h2) (js @ [i]) (done @ [?t2])"
          using Cons.prems(5) kept_rel_entry[OF _ k2 arr] a(5) p
          by (auto simp: rel_entry_def intro!: list_all2_appendI elim!: list_all2_mono)
        then have "run (rel_tables_loop io f is (length (done @ [?t2]))) h2 (rels_post io f R h0 h2
            (length (done @ [?t2]) + (m - 1)) (js @ [i]) (filter ?types is))"
          using a Cons.prems True by (intro Cons.IH) (auto simp: ys_def add_ac)
        then show ?thesis
          using m(2) kept_trans[OF k2] True unfolding rels_post_def by (auto elim!: run_mono)
      qed
      ultimately show "run (if p = 0 then ret True else rel_tables_loop io f is (length done + 1)) h2 ?Q"
        by simp
    qed
  qed
qed

lemmas run_rel_tables_loop = run_rel_tables_post[unfolded rels_post_def]

end

end
