(* ===== verification/ReadElfLoad.thy ===== *)
theory ReadElfLoad
  imports ReadElfTables
begin

text \<open>
  \<open>readelf\<close> from its first stage to its last: a sane file is loaded whole or leaves nothing
  behind, and what happens to a file with a dynamic segment but no dynamic symbol table. The
  reader of \<open>test/glibc-readelf.c\<close> keeps the laws of \<open>elf_reader\<close>, so the results hold of it.
\<close>

section \<open>The stages\<close>

definition has_interp :: "elf_io \<Rightarrow> heap \<Rightarrow> elf_file \<Rightarrow> bool" where
  "has_interp io h f \<longleftrightarrow>
     (case phdr_of io PT_INTERP of
        None \<Rightarrow> interpreter f = 0
      | Some i \<Rightarrow> holds_segment io h (interpreter f) i)"

definition has_dynamic :: "elf_io \<Rightarrow> heap \<Rightarrow> elf_file \<Rightarrow> bool" where
  "has_dynamic io h f \<longleftrightarrow>
     (case phdr_of io PT_DYNAMIC of
        None \<Rightarrow> elf_dyn f = \<lparr>dynamic = 0, dyn_symbol_table = None\<rparr>
      | Some i \<Rightarrow> holds_segment io h (dynamic (elf_dyn f)) i \<and>
          dyn_symbol_table (elf_dyn f) = dynsym_of io)"

definition has_names :: "elf_io \<Rightarrow> heap \<Rightarrow> elf_file \<Rightarrow> bool" where
  "has_names io h f \<longleftrightarrow> holds_section io h (section_names f) (unat (e_shstrndx (the_ehdr io)))"

definition has_syms :: "elf_io \<Rightarrow> heap \<Rightarrow> elf_symbol_table list \<Rightarrow> bool" where
  "has_syms io h ts \<longleftrightarrow> list_all2 (sym_entry io h) (sections_of io symtab_types) ts"

definition has_rels :: "elf_io \<Rightarrow> heap \<Rightarrow> elf_rel_table list \<Rightarrow> bool" where
  "has_rels io h rs \<longleftrightarrow> list_all2 (rel_entry io h) (sections_of io rel_types) rs"

text \<open>The structure holds the whole file, and owns each block it points to exactly once.\<close>

definition loaded :: "elf_io \<Rightarrow> heap \<Rightarrow> elf_file \<Rightarrow> heap \<Rightarrow> bool" where
  "loaded io h0 f h \<longleftrightarrow> (\<exists>ts rs. file_ok h0 f ts rs h \<and> has_ehdr io h f \<and> has_phdrs io h f \<and>
     has_shdrs io h f \<and> has_names io h f \<and> has_interp io h f \<and> has_syms io h ts \<and>
     has_dynamic io h f \<and> has_rels io h rs)"

named_theorems kept_rules \<open>what the file holds stays when nothing is overwritten\<close>

lemma kept_holds [kept_rules]: "kept {} h h' \<Longrightarrow> holds io h p off n \<Longrightarrow> holds io h' p off n"
  by (simp add: holds_kept)

lemma kept_has [kept_rules]:
  "kept {} h h' \<Longrightarrow> has_ehdr io h f \<Longrightarrow> has_ehdr io h' f"
  "kept {} h h' \<Longrightarrow> has_phdrs io h f \<Longrightarrow> has_phdrs io h' f"
  "kept {} h h' \<Longrightarrow> has_shdrs io h f \<Longrightarrow> has_shdrs io h' f"
  "kept {} h h' \<Longrightarrow> has_names io h f \<Longrightarrow> has_names io h' f"
  "kept {} h h' \<Longrightarrow> has_interp io h f \<Longrightarrow> has_interp io h' f"
  "kept {} h h' \<Longrightarrow> has_dynamic io h f \<Longrightarrow> has_dynamic io h' f"
  by (auto simp: has_ehdr_def has_phdrs_def has_shdrs_def has_names_def has_interp_def
      has_dynamic_def holds_section_def holds_segment_def kept_holds split: option.splits)

lemma kept_has_syms [kept_rules]: "kept {} h h' \<Longrightarrow> has_syms io h ts \<Longrightarrow> has_syms io h' ts"
  by (auto simp: has_syms_def intro: kept_sym_entry(2) elim!: list_all2_mono)

lemma loadedI:
  assumes "file_ok h0 f ts rs h" and "has_ehdr io h f" and "has_phdrs io h f" and "has_shdrs io h f"
    and "has_names io h f" and "has_interp io h f" and "has_syms io h ts" and "has_dynamic io h f"
    and "has_rels io h rs"
  shows "loaded io h0 f h"
  using assms unfolding loaded_def by blast

text \<open>Before the dynamic segment: the headers and the symbol tables are in place.\<close>

definition ready :: "elf_io \<Rightarrow> heap \<Rightarrow> elf_file \<Rightarrow> elf_symbol_table list \<Rightarrow> heap \<Rightarrow> bool" where
  "ready io h0 f ts h \<longleftrightarrow> file_ok h0 f ts [] h \<and> has_ehdr io h f \<and> has_phdrs io h f \<and>
     has_shdrs io h f \<and> has_names io h f \<and> has_interp io h f \<and> has_syms io h ts \<and>
     elf_dyn f = \<lparr>dynamic = 0, dyn_symbol_table = None\<rparr> \<and> rel_tables f = 0"

lemma readyI:
  assumes "file_ok h0 f ts [] h" and "has_ehdr io h f" and "has_phdrs io h f" and "has_shdrs io h f"
    and "has_names io h f" and "has_interp io h f" and "has_syms io h ts"
    and "elf_dyn f = \<lparr>dynamic = 0, dyn_symbol_table = None\<rparr>" and "rel_tables f = 0"
  shows "ready io h0 f ts h"
  using assms unfolding ready_def by blast

text \<open>How \<open>readelf\<close> ends: everything loaded, or nothing left behind and a cause for it.\<close>

definition finished :: "elf_io \<Rightarrow> heap \<Rightarrow> bool \<times> elf_file \<Rightarrow> heap \<Rightarrow> bool" where
  "finished io h0 = (\<lambda>(bad, f) h.
     if bad then unavailable io \<and> f = init_elf_file \<and> blocks h = blocks h0 else loaded io h0 f h)"

lemma init_fields [simp]:
  "sections init_elf_file = 0" "section_names init_elf_file = 0" "interpreter init_elf_file = 0"
  "elf_dyn init_elf_file = \<lparr>dynamic = 0, dyn_symbol_table = None\<rparr>"
  "symbol_tables init_elf_file = 0" "rel_tables init_elf_file = 0"
  by (simp_all add: init_elf_file_def)

lemma run_count_sections:
  assumes "has_shdrs io h f"
  shows "\<forall>i \<in> set is. i < n_shdrs io \<Longrightarrow> run (count_sections types f is n) h Q =
    Q (n + of_nat (length (filter (\<lambda>i. sh_type (the_shdr io i) \<in> types) is))) h"
  by (induction "is" arbitrary: n) (simp_all add: run_get_Shdr[OF assms] add.assoc)

lemma run_first_phdr:
  assumes "has_phdrs io h f"
  shows "\<forall>i \<in> set is. i < n_phdrs io \<Longrightarrow>
    run (first_phdr f t is) h Q = Q (find (\<lambda>i. p_type (the_phdr io i) = t) is) h"
  by (induction "is") (simp_all add: run_get_Phdr[OF assms])

lemma count_fits:
  "of_nat (length (sections_of io types)) = (n :: u16) \<Longrightarrow> unat n = length (sections_of io types)"
proof -
  assume n: "of_nat (length (sections_of io types)) = n"
  have "length (sections_of io types) \<le> n_shdrs io"
    unfolding sections_of_def by (rule le_trans[OF length_filter_le]) simp
  then have "length (sections_of io types) < 2 ^ LENGTH(16)"
    using unsigned_less[of "e_shnum (the_ehdr io)", where ?'a = nat] by simp
  then show ?thesis unfolding n[symmetric] by (rule unat_of_nat_small)
qed

lemma unavailable_tables:
  "list_ex (refuses_symtab io)
     (filter (\<lambda>i. sh_type (the_shdr io i) = SHT_SYMTAB \<or> sh_type (the_shdr io i) = SHT_DYNSYM)
       [SHN_BEGIN..<n_shdrs io]) \<Longrightarrow> unavailable io"
  "list_ex (refuses_rel io)
     (filter (\<lambda>i. sh_type (the_shdr io i) = SHT_REL \<or> sh_type (the_shdr io i) = SHT_RELA)
       [SHN_BEGIN..<n_shdrs io]) \<Longrightarrow> unavailable io"
proof -
  assume "list_ex (refuses_symtab io)
     (filter (\<lambda>i. sh_type (the_shdr io i) = SHT_SYMTAB \<or> sh_type (the_shdr io i) = SHT_DYNSYM)
       [SHN_BEGIN..<n_shdrs io])"
  then have "\<exists>i \<in> set (sections_of io symtab_types). refuses_symtab io i"
    by (simp add: sections_of_def list_ex_iff)
  then show "unavailable io" unfolding unavailable_def by blast
next
  assume "list_ex (refuses_rel io)
     (filter (\<lambda>i. sh_type (the_shdr io i) = SHT_REL \<or> sh_type (the_shdr io i) = SHT_RELA)
       [SHN_BEGIN..<n_shdrs io])"
  then have "\<exists>i \<in> set (sections_of io rel_types). refuses_rel io i"
    by (simp add: sections_of_def list_ex_iff)
  then show "unavailable io" unfolding unavailable_def by blast
qed

lemma tables_ok_fresh:
  "symbol_tables f = 0 \<Longrightarrow> n_symbol_tables f = 0 \<Longrightarrow> rel_tables f = 0 \<Longrightarrow> n_rel_tables f = 0 \<Longrightarrow>
    tables_ok f [] [] h"
  by (simp add: tables_ok_def)

text \<open>Filling an empty slot of the structure with a fresh block.\<close>

lemma own_slot:
  "sections f = 0 \<Longrightarrow> own (f\<lparr>sections := p\<rparr>) ts rs = blk p + own f ts rs"
  "section_names f = 0 \<Longrightarrow> own (f\<lparr>section_names := p\<rparr>) ts rs = blk p + own f ts rs"
  "interpreter f = 0 \<Longrightarrow> own (f\<lparr>interpreter := p\<rparr>) ts rs = blk p + own f ts rs"
  "dynamic (elf_dyn f) = 0 \<Longrightarrow>
    own (f\<lparr>elf_dyn := (elf_dyn f)\<lparr>dynamic := p\<rparr>\<rparr>) ts rs = blk p + own f ts rs"
  by (simp_all add: own_def add_ac)

lemma tables_ok_slot [simp]:
  "tables_ok (f\<lparr>sections := p\<rparr>) ts rs h = tables_ok f ts rs h"
  "tables_ok (f\<lparr>section_names := p\<rparr>) ts rs h = tables_ok f ts rs h"
  "tables_ok (f\<lparr>interpreter := p\<rparr>) ts rs h = tables_ok f ts rs h"
  "tables_ok (f\<lparr>elf_dyn := d\<rparr>) ts rs h = tables_ok f ts rs h"
  by (simp_all add: tables_ok_def)

lemma has_slot [simp]:
  "has_ehdr io h (f\<lparr>sections := p\<rparr>) = has_ehdr io h f"
  "has_ehdr io h (f\<lparr>section_names := p\<rparr>) = has_ehdr io h f"
  "has_ehdr io h (f\<lparr>interpreter := p\<rparr>) = has_ehdr io h f"
  "has_ehdr io h (f\<lparr>elf_dyn := d\<rparr>) = has_ehdr io h f"
  "has_ehdr io h (f\<lparr>n_symbol_tables := n\<rparr>) = has_ehdr io h f"
  "has_ehdr io h (f\<lparr>symbol_tables := p\<rparr>) = has_ehdr io h f"
  "has_ehdr io h (f\<lparr>n_rel_tables := n\<rparr>) = has_ehdr io h f"
  "has_ehdr io h (f\<lparr>rel_tables := p\<rparr>) = has_ehdr io h f"
  "has_phdrs io h (f\<lparr>sections := p\<rparr>) = has_phdrs io h f"
  "has_phdrs io h (f\<lparr>section_names := p\<rparr>) = has_phdrs io h f"
  "has_phdrs io h (f\<lparr>interpreter := p\<rparr>) = has_phdrs io h f"
  "has_phdrs io h (f\<lparr>elf_dyn := d\<rparr>) = has_phdrs io h f"
  "has_phdrs io h (f\<lparr>n_symbol_tables := n\<rparr>) = has_phdrs io h f"
  "has_phdrs io h (f\<lparr>symbol_tables := p\<rparr>) = has_phdrs io h f"
  "has_phdrs io h (f\<lparr>n_rel_tables := n\<rparr>) = has_phdrs io h f"
  "has_phdrs io h (f\<lparr>rel_tables := p\<rparr>) = has_phdrs io h f"
  "has_shdrs io h (f\<lparr>section_names := p\<rparr>) = has_shdrs io h f"
  "has_shdrs io h (f\<lparr>interpreter := p\<rparr>) = has_shdrs io h f"
  "has_shdrs io h (f\<lparr>elf_dyn := d\<rparr>) = has_shdrs io h f"
  "has_shdrs io h (f\<lparr>n_symbol_tables := n\<rparr>) = has_shdrs io h f"
  "has_shdrs io h (f\<lparr>symbol_tables := p\<rparr>) = has_shdrs io h f"
  "has_shdrs io h (f\<lparr>n_rel_tables := n\<rparr>) = has_shdrs io h f"
  "has_shdrs io h (f\<lparr>rel_tables := p\<rparr>) = has_shdrs io h f"
  "has_names io h (f\<lparr>sections := p\<rparr>) = has_names io h f"
  "has_names io h (f\<lparr>interpreter := p\<rparr>) = has_names io h f"
  "has_names io h (f\<lparr>elf_dyn := d\<rparr>) = has_names io h f"
  "has_names io h (f\<lparr>n_symbol_tables := n\<rparr>) = has_names io h f"
  "has_names io h (f\<lparr>symbol_tables := p\<rparr>) = has_names io h f"
  "has_names io h (f\<lparr>n_rel_tables := n\<rparr>) = has_names io h f"
  "has_names io h (f\<lparr>rel_tables := p\<rparr>) = has_names io h f"
  "has_interp io h (f\<lparr>sections := p\<rparr>) = has_interp io h f"
  "has_interp io h (f\<lparr>section_names := p\<rparr>) = has_interp io h f"
  "has_interp io h (f\<lparr>elf_dyn := d\<rparr>) = has_interp io h f"
  "has_interp io h (f\<lparr>n_symbol_tables := n\<rparr>) = has_interp io h f"
  "has_interp io h (f\<lparr>symbol_tables := p\<rparr>) = has_interp io h f"
  "has_interp io h (f\<lparr>n_rel_tables := n\<rparr>) = has_interp io h f"
  "has_interp io h (f\<lparr>rel_tables := p\<rparr>) = has_interp io h f"
  "has_dynamic io h (f\<lparr>sections := p\<rparr>) = has_dynamic io h f"
  "has_dynamic io h (f\<lparr>section_names := p\<rparr>) = has_dynamic io h f"
  "has_dynamic io h (f\<lparr>interpreter := p\<rparr>) = has_dynamic io h f"
  "has_dynamic io h (f\<lparr>n_symbol_tables := n\<rparr>) = has_dynamic io h f"
  "has_dynamic io h (f\<lparr>symbol_tables := p\<rparr>) = has_dynamic io h f"
  "has_dynamic io h (f\<lparr>n_rel_tables := n\<rparr>) = has_dynamic io h f"
  "has_dynamic io h (f\<lparr>rel_tables := p\<rparr>) = has_dynamic io h f"
  by (simp_all add: has_ehdr_def has_phdrs_def has_shdrs_def has_names_def has_interp_def
      has_dynamic_def split: option.split)

lemma kept_tables_ok: "tables_ok f ts rs h \<Longrightarrow> kept {} h h' \<Longrightarrow> tables_ok f ts rs h'"
  by (auto simp: tables_ok_def kept_def)

context elf_reader
begin

lemma run_read_header:
  assumes "heap_ok h0"
  shows "run (read_header io init_elf_file) h0 (\<lambda>(bad, f) h. \<exists>p. f = init_elf_file\<lparr>header := p\<rparr> \<and>
    bad = (p = 0) \<and> owns h0 (blk p) h \<and> (bad \<longrightarrow> unavailable io) \<and> (p \<noteq> 0 \<longrightarrow> blocks h p = Some (Raw (of_nat sizeof_Ehdr))))"
  unfolding read_header_def run_andThen
  by (rule run_mono[OF run_elf_alloc[OF owns_start[OF assms]]])
    (auto simp: unavailable_def refuses_def)

lemma run_read_phdrs:
  assumes own: "owns h0 (blk p) h" and p: "p \<noteq> 0"
    and b: "blocks h p = Some (Raw (of_nat sizeof_Ehdr))"
  shows "run (read_phdrs io (init_elf_file\<lparr>header := p\<rparr>)) h (\<lambda>(bad, f) h'. \<exists>q.
    f = init_elf_file\<lparr>header := p, program_headers := q\<rparr> \<and> owns h0 (blk q + blk p) h' \<and>
    (bad \<longrightarrow> unavailable io) \<and> (\<not> bad \<longrightarrow> has_ehdr io h' f \<and> has_phdrs io h' f))"
proof (cases "io_read io 0 (of_nat sizeof_Ehdr)")
  case None
  then have "elf_read io p 0 (of_nat sizeof_Ehdr) h = Some (True, h)" by (simp add: elf_read_def b)
  then show ?thesis
    using own None by (simp add: read_phdrs_def read_program_headers_def run_value
        init_elf_file_def exI[of _ 0] unavailable_def refuses_def)
next
  case (Some bs)
  let ?f = "init_elf_file\<lparr>header := p\<rparr>"
  let ?h = "h\<lparr>blocks := (blocks h)(p \<mapsto> Data bs)\<rparr>"
  have rd: "elf_read io p 0 (of_nat sizeof_Ehdr) h = Some (False, ?h)"
    by (simp add: elf_read_def b Some)
  have len: "length bs = unat (of_nat sizeof_Ehdr :: u64)"
    using Some by (rule reads) (simp add: sizeof_Ehdr_def)
  have hold: "holds io ?h p 0 (of_nat sizeof_Ehdr)" using len by (simp add: holds_def the_bytes_def Some)
  have "the_ehdr io = decode_Ehdr bs" by (simp add: the_ehdr_def the_bytes_def Some)
  then have get: "get_Ehdr p ?h = Some (the_ehdr io, ?h)"
    using len by (simp add: get_Ehdr_def andThen_def bytes_at_def sizeof_Ehdr_def)
  have own': "owns h0 (blk p) ?h" using own p by (intro owns_write) simp_all
  have read: "run (read_phdrs io ?f) h Q =
      (if \<not> ELF_VERIFY_MAGIC (the_ehdr io) then Q (True, ?f) ?h
       else if e_phnum (the_ehdr io) = 0 then Q (False, ?f) ?h
       else run (elf_read2 io (e_phoff (the_ehdr io)) (phdr_table_size io)) ?h
         (\<lambda>q h'. Q (q = 0, ?f\<lparr>program_headers := q\<rparr>) h'))" for Q
    by (simp add: read_phdrs_def read_program_headers_def run_value[of "elf_read io p 0 (of_nat sizeof_Ehdr)" h False ?h, OF rd]
        run_value[of "get_Ehdr p" ?h _ ?h, OF get] phdr_table_size_def init_elf_file_def)
  show ?thesis
  proof (cases "ELF_VERIFY_MAGIC (the_ehdr io) \<and> e_phnum (the_ehdr io) \<noteq> 0")
    case False
    then show ?thesis
      using own' hold unfolding read
      by (auto intro!: exI[of _ 0] simp: init_elf_file_def has_ehdr_def has_phdrs_def unavailable_def)
  next
    case True
    have "run (elf_read2 io (e_phoff (the_ehdr io)) (phdr_table_size io)) ?h (\<lambda>q h'.
        owns h0 (blk q + blk p) h' \<and> kept {} ?h h' \<and>
        (q \<noteq> 0 \<longrightarrow> holds io h' q (e_phoff (the_ehdr io)) (phdr_table_size io)) \<and>
        (q = 0 \<longrightarrow> refuses io (e_phoff (the_ehdr io)) (phdr_table_size io)))"
      using own' by (rule run_elf_read2)
    then have "run (elf_read2 io (e_phoff (the_ehdr io)) (phdr_table_size io)) ?h (\<lambda>q h'.
        owns h0 (blk q + blk p) h' \<and> (q = 0 \<longrightarrow> unavailable io) \<and> (q \<noteq> 0 \<longrightarrow> has_ehdr io h' (?f\<lparr>program_headers := q\<rparr>) \<and>
          has_phdrs io h' (?f\<lparr>program_headers := q\<rparr>)))"
      using True kept_holds[OF _ hold]
      by (auto elim!: run_mono simp: has_ehdr_def has_phdrs_def unavailable_def)
    then show ?thesis unfolding read using True by (auto elim!: run_mono)
  qed
qed

lemma run_read_sections:
  assumes "file_ok h0 f [] [] h" and "has_ehdr io h f" and "sections f = 0"
  shows "run (read_sections io f) h (\<lambda>(bad, f') h'. \<exists>p. f' = f\<lparr>sections := p\<rparr> \<and>
    file_ok h0 f' [] [] h' \<and> kept {} h h' \<and> (bad \<longrightarrow> unavailable io) \<and> (\<not> bad \<longrightarrow> has_shdrs io h' f'))"
proof -
  have o: "owns h0 (own f [] []) h" "tables_ok f [] [] h" using assms(1) by (simp_all add: file_ok_def)
  show ?thesis
    unfolding read_sections_def run_andThen run_get_Ehdr[OF assms(2)]
    by (rule run_mono[OF run_elf_read2[OF o(1)]])
      (auto simp: file_ok_def own_slot assms(3) has_shdrs_def shdr_table_size_def unavailable_def
        intro: kept_tables_ok[OF o(2)])
qed

lemma run_read_section_names:
  assumes "file_ok h0 f [] [] h" and "has_ehdr io h f" and "has_shdrs io h f"
    and "section_names f = 0" and "unat (e_shstrndx (the_ehdr io)) < n_shdrs io"
  shows "run (read_section_names io f) h (\<lambda>(bad, f') h'. \<exists>p. f' = f\<lparr>section_names := p\<rparr> \<and>
    file_ok h0 f' [] [] h' \<and> kept {} h h' \<and> (bad \<longrightarrow> unavailable io) \<and> (\<not> bad \<longrightarrow> has_names io h' f'))"
proof -
  have o: "owns h0 (own f [] []) h" "tables_ok f [] [] h" using assms(1) by (simp_all add: file_ok_def)
  show ?thesis
    unfolding read_section_names_def run_andThen run_get_Ehdr[OF assms(2)]
    by (rule run_mono[OF run_read_section_data[OF o(1) assms(3,5)]])
      (auto simp: file_ok_def own_slot assms(4) has_names_def unavailable_def intro: kept_tables_ok[OF o(2)])
qed

lemma run_interpreter_loop:
  assumes o: "owns h0 (own f [] []) h" and "tables_ok f [] [] h" and ph: "has_phdrs io h f"
    and z: "interpreter f = 0"
  shows "\<forall>i \<in> set is. i < n_phdrs io \<Longrightarrow>
    run (interpreter_loop io f is) h (\<lambda>(bad, f') h'. \<exists>p. f' = f\<lparr>interpreter := p\<rparr> \<and>
      file_ok h0 f' [] [] h' \<and> kept {} h h' \<and>
      (bad \<longrightarrow> (\<exists>i. find (\<lambda>i. p_type (the_phdr io i) = PT_INTERP) is = Some i \<and> refuses_segment io i)) \<and>
      (\<not> bad \<longrightarrow> (case find (\<lambda>i. p_type (the_phdr io i) = PT_INTERP) is of
         None \<Rightarrow> p = 0 | Some i \<Rightarrow> holds_segment io h' p i)))"
proof (induction "is")
  case Nil
  have "f = f\<lparr>interpreter := 0\<rparr>" using z by simp
  then show ?case using assms by (auto simp: file_ok_def)
next
  case (Cons i "is")
  show ?case
  proof (cases "p_type (the_phdr io i) = PT_INTERP")
    case False
    then show ?thesis using Cons by (simp add: run_get_Phdr[OF ph])
  next
    case True
    have i: "i < n_phdrs io" using Cons.prems by simp
    have "run (read_phdr_data io f i) h (\<lambda>p h'. file_ok h0 (f\<lparr>interpreter := p\<rparr>) [] [] h' \<and> kept {} h h' \<and>
        (p \<noteq> 0 \<longrightarrow> holds_segment io h' p i) \<and> (p = 0 \<longrightarrow> refuses_segment io i))"
      by (rule run_mono[OF run_read_phdr_data[OF o ph i]])
        (auto simp: file_ok_def own_slot z intro: kept_tables_ok[OF assms(2)])
    then show ?thesis
      using True by (auto simp: run_get_Phdr[OF ph i] elim!: run_mono)
  qed
qed

lemma run_read_interpreter:
  assumes "file_ok h0 f [] [] h" and "has_ehdr io h f" and "has_phdrs io h f" and "interpreter f = 0"
  shows "run (read_interpreter io f) h (\<lambda>(bad, f') h'. \<exists>p. f' = f\<lparr>interpreter := p\<rparr> \<and>
    file_ok h0 f' [] [] h' \<and> kept {} h h' \<and> (bad \<longrightarrow> unavailable io) \<and> (\<not> bad \<longrightarrow> has_interp io h' f'))"
proof -
  have o: "owns h0 (own f [] []) h" "tables_ok f [] [] h" using assms(1) by (simp_all add: file_ok_def)
  show ?thesis
    unfolding read_interpreter_def run_andThen run_get_Ehdr[OF assms(2)]
    by (rule run_mono[OF run_interpreter_loop[OF o assms(3,4)]])
      (auto simp: has_interp_def phdr_of_def unavailable_def split: option.splits)
qed

lemma upd_swap:
  "f\<lparr>symbol_tables := p, n_symbol_tables := n\<rparr> = f\<lparr>n_symbol_tables := n, symbol_tables := p\<rparr>"
  "f\<lparr>rel_tables := p, n_rel_tables := n\<rparr> = f\<lparr>n_rel_tables := n, rel_tables := p\<rparr>"
  by simp_all

lemma run_symbol_tables_error:
  assumes "owns h0 (sym_blks ts + (blk p + M)) h" and "blocks h p = Some (Syms ts)"
    and "length ts = unat (n_symbol_tables f)" and "symbol_tables f = p" and "p \<noteq> 0"
  shows "run (symbol_tables_error f) h (\<lambda>(bad, f') h'. bad \<and> owns h0 M h' \<and>
    f' = f\<lparr>n_symbol_tables := 0, symbol_tables := 0\<rparr>)"
proof -
  have "run (free_symbol_tables f) h (\<lambda>_ h'. owns h0 (blk p + M) h' \<and> blocks h' \<subseteq>\<^sub>m blocks h)"
    using assms by (intro run_free_symbol_tables[where ts = ts]) simp_all
  moreover have "run (elf_free p) h' (\<lambda>_ h''. owns h0 M h'')" if "owns h0 (blk p + M) h'" for h'
    by (rule run_mono[OF run_elf_free[OF that]]) simp
  ultimately show ?thesis
    using assms(4,5) by (auto simp: symbol_tables_error_def elim!: run_mono)
qed

lemma run_rel_tables_error:
  assumes "owns h0 (rel_blks rs + (blk p + M)) h" and "blocks h p = Some (Rels rs)"
    and "length rs = unat (n_rel_tables f)" and "rel_tables f = p" and "p \<noteq> 0"
  shows "run (rel_tables_error f) h (\<lambda>(bad, f') h'. bad \<and> owns h0 M h' \<and>
    f' = f\<lparr>n_rel_tables := 0, rel_tables := 0\<rparr> \<and> blocks h' \<subseteq>\<^sub>m blocks h)"
proof -
  have "run (free_rel_tables f) h (\<lambda>_ h'. owns h0 (blk p + M) h' \<and> blocks h' \<subseteq>\<^sub>m blocks h)"
    using assms by (intro run_free_rel_tables[where rs = rs]) simp_all
  moreover have "run (elf_free p) h' (\<lambda>_ h''. owns h0 M h'' \<and> blocks h'' \<subseteq>\<^sub>m blocks h)"
    if "owns h0 (blk p + M) h'" "blocks h' \<subseteq>\<^sub>m blocks h" for h'
    by (rule run_mono[OF run_elf_free[OF that(1)]]) (use that(2) map_le_trans in blast)
  ultimately show ?thesis
    using assms(4,5) by (auto simp: rel_tables_error_def elim!: run_mono)
qed

lemma kept_fresh: "kept {} h h1 \<Longrightarrow> kept {p} h1 h2 \<Longrightarrow> p \<notin> dom (blocks h) \<Longrightarrow> kept {} h h2"
  unfolding kept_def by (metis domI empty_iff insertE)

text \<open>The table just allocated is cleared and filled.\<close>

lemma run_fill_symbol_tables:
  assumes own: "owns h0 (blk p + M) h" and p: "p \<noteq> 0" "blocks h p = Some (Raw k)"
    and f: "symbol_tables f = p" "unat (n_symbol_tables f) = length (sections_of io symtab_types)"
    and sh: "has_shdrs io h f"
    and ok: "\<forall>i \<in> set (sections_of io symtab_types). link_of io i < n_shdrs io"
  shows "run (andThen (init_symbol_tables f) (\<lambda>_. symbol_tables_loop io f [SHN_BEGIN..<n_shdrs io] 0)) h
    (\<lambda>bad h'. \<exists>ts. length ts = length (sections_of io symtab_types) \<and>
      owns h0 (sym_blks ts + (blk p + M)) h' \<and> blocks h' p = Some (Syms ts) \<and> kept {p} h h' \<and>
      (bad \<longrightarrow> unavailable io) \<and> (\<not> bad \<longrightarrow> has_syms io h' ts))"
proof -
  let ?is = "[SHN_BEGIN..<n_shdrs io]" and ?m = "length (sections_of io symtab_types)"
  let ?types = "\<lambda>i. sh_type (the_shdr io i) \<in> symtab_types"
  let ?h = "h\<lparr>blocks := (blocks h)(p \<mapsto> Syms (replicate ?m empty_symbol_table))\<rparr>"
  have init: "init_symbol_tables f h = Some ((), ?h)"
    using p f by (auto simp: init_symbol_tables_def domIff)
  have k: "kept {p} h ?h" by (rule kept_write)
  have o: "owns h0 (sym_blks ([] @ replicate ?m empty_symbol_table) + (blk p + M)) ?h"
    using own p(1) by (simp add: owns_write)
  have "run (symbol_tables_loop io f ?is (length ([] :: elf_symbol_table list))) ?h (\<lambda>bad h'.
    \<exists>ts. length ts = length ([] :: elf_symbol_table list) + ?m \<and>
    owns h0 (sym_blks ts + (blk p + M)) h' \<and> blocks h' (symbol_tables f) = Some (Syms ts) \<and>
    kept {symbol_tables f} ?h h' \<and>
    (bad \<longrightarrow> list_ex (refuses_symtab io) (filter ?types ?is)) \<and>
    (\<not> bad \<longrightarrow> list_all2 (sym_entry io h') ([] @ filter ?types ?is) ts))"
  proof (rule run_symbol_tables_loop)
    show "\<forall>i \<in> set ?is. ?types i \<longrightarrow> link_of io i < n_shdrs io"
      using ok by (auto simp: sections_of_def)
    show "has_shdrs io ?h f" using kept_has_shdrs(1)[OF sh k] p(2) by simp
  qed (use o p(1) f(1) in \<open>auto simp: sections_of_def\<close>)
  then have "run (symbol_tables_loop io f ?is 0) ?h (\<lambda>bad h'. \<exists>ts. length ts = ?m \<and>
    owns h0 (sym_blks ts + (blk p + M)) h' \<and> blocks h' p = Some (Syms ts) \<and>
    kept {p} ?h h' \<and> (bad \<longrightarrow> unavailable io) \<and> (\<not> bad \<longrightarrow> has_syms io h' ts))"
    using unavailable_tables(1)
    by (simp add: has_syms_def sections_of_def f(1)) (rule run_mono, assumption, blast)
  then show ?thesis
    unfolding run_andThen run_value[of "init_symbol_tables f" h "()" ?h, OF init]
    by (rule run_mono) (use kept_trans[OF k] in blast)
qed

lemma run_fill_rel_tables:
  assumes own: "owns h0 (blk p + M) h" and p: "p \<noteq> 0" "blocks h p = Some (Raw k)"
    and f: "rel_tables f = p" "unat (n_rel_tables f) = length (sections_of io rel_types)"
    and sh: "has_shdrs io h f"
    and ok: "\<forall>i \<in> set (sections_of io rel_types). sh_entsize (the_shdr io i) \<noteq> 0"
  shows "run (andThen (init_rel_tables f) (\<lambda>_. rel_tables_loop io f [SHN_BEGIN..<n_shdrs io] 0)) h
    (\<lambda>bad h'. \<exists>rs. length rs = length (sections_of io rel_types) \<and>
      owns h0 (rel_blks rs + (blk p + M)) h' \<and> blocks h' p = Some (Rels rs) \<and> kept {p} h h' \<and>
      (bad \<longrightarrow> unavailable io) \<and> (\<not> bad \<longrightarrow> has_rels io h' rs))"
proof -
  let ?is = "[SHN_BEGIN..<n_shdrs io]" and ?m = "length (sections_of io rel_types)"
  let ?types = "\<lambda>i. sh_type (the_shdr io i) \<in> rel_types"
  let ?h = "h\<lparr>blocks := (blocks h)(p \<mapsto> Rels (replicate ?m empty_rel_table))\<rparr>"
  have init: "init_rel_tables f h = Some ((), ?h)"
    using p f by (auto simp: init_rel_tables_def domIff)
  have k: "kept {p} h ?h" by (rule kept_write)
  have o: "owns h0 (rel_blks ([] @ replicate ?m empty_rel_table) + (blk p + M)) ?h"
    using own p(1) by (simp add: owns_write)
  have "run (rel_tables_loop io f ?is (length ([] :: elf_rel_table list))) ?h (\<lambda>bad h'.
    \<exists>rs. length rs = length ([] :: elf_rel_table list) + ?m \<and>
    owns h0 (rel_blks rs + (blk p + M)) h' \<and> blocks h' (rel_tables f) = Some (Rels rs) \<and>
    kept {rel_tables f} ?h h' \<and>
    (bad \<longrightarrow> list_ex (refuses_rel io) (filter ?types ?is)) \<and>
    (\<not> bad \<longrightarrow> list_all2 (rel_entry io h') ([] @ filter ?types ?is) rs))"
  proof (rule run_rel_tables_loop)
    show "\<forall>i \<in> set ?is. ?types i \<longrightarrow> sh_entsize (the_shdr io i) \<noteq> 0"
      using ok by (auto simp: sections_of_def)
    show "has_shdrs io ?h f" using kept_has_shdrs(1)[OF sh k] p(2) by simp
  qed (use o p(1) f(1) in \<open>auto simp: sections_of_def\<close>)
  then have "run (rel_tables_loop io f ?is 0) ?h (\<lambda>bad h'. \<exists>rs. length rs = ?m \<and>
    owns h0 (rel_blks rs + (blk p + M)) h' \<and> blocks h' p = Some (Rels rs) \<and>
    kept {p} ?h h' \<and> (bad \<longrightarrow> unavailable io) \<and> (\<not> bad \<longrightarrow> has_rels io h' rs))"
    using unavailable_tables(2)
    by (simp add: has_rels_def sections_of_def f(1)) (rule run_mono, assumption, blast)
  then show ?thesis
    unfolding run_andThen run_value[of "init_rel_tables f" h "()" ?h, OF init]
    by (rule run_mono) (use kept_trans[OF k] in blast)
qed

lemma run_read_symbol_tables:
  assumes ok: "file_ok h0 f [] [] h" and hd: "has_ehdr io h f" and sh: "has_shdrs io h f"
    and z: "symbol_tables f = 0" "rel_tables f = 0"
    and links: "\<forall>i \<in> set (sections_of io symtab_types). link_of io i < n_shdrs io"
  shows "run (read_symbol_tables io f) h (\<lambda>(bad, f') h'. \<exists>ts n p.
    f' = f\<lparr>n_symbol_tables := n, symbol_tables := p\<rparr> \<and> file_ok h0 f' ts [] h' \<and>
    (bad \<longrightarrow> unavailable io) \<and> (\<not> bad \<longrightarrow> kept {} h h' \<and> has_syms io h' ts))"
    (is "run _ h ?Q")
proof -
  let ?is = "[SHN_BEGIN..<n_shdrs io]" and ?m = "length (sections_of io symtab_types)"
  let ?n = "of_nat ?m :: Elf64_Half" and ?M = "own f [] []"
  have o: "owns h0 ?M h" and n0: "n_symbol_tables f = 0" "n_rel_tables f = 0"
    using ok z by (auto simp: file_ok_def tables_ok_def unat_eq_zero)
  have m: "unat ?n = ?m" by (rule count_fits) simp
  have own_f: "own (f\<lparr>n_symbol_tables := n, symbol_tables := p\<rparr>) ts [] = sym_blks ts + (blk p + ?M)" for n p ts
    using z by (simp add: own_def add_ac)
  have failed: "?Q (True, f\<lparr>n_symbol_tables := 0, symbol_tables := 0\<rparr>) h'" if "owns h0 ?M h'" "unavailable io" for h'
    using that z n0(2) by (auto simp: file_ok_def tables_ok_def own_f intro!: exI[of _ "[]"] exI[of _ 0])
  have "run (elf_alloc io (of_nat sizeof_symbol_table * ucast ?n)) h (\<lambda>p h1.
      let f1 = f\<lparr>n_symbol_tables := ?n, symbol_tables := p\<rparr> in
      run (if p = 0 then symbol_tables_error f1
        else andThen (init_symbol_tables f1) (\<lambda>_. andThen (symbol_tables_loop io f1 ?is 0) (\<lambda>bad.
          if bad then symbol_tables_error f1 else ret (False, f1)))) h1 ?Q)"
    unfolding Let_def
  proof (rule run_mono[OF run_elf_alloc[OF o]], elim conjE)
    fix p :: ptr and h1 :: heap
    let ?f = "f\<lparr>n_symbol_tables := ?n, symbol_tables := p\<rparr>"
    assume a: "owns h0 (blk p + ?M) h1" "kept {} h h1" and p: "p \<noteq> 0 \<longrightarrow>
        blocks h1 p = Some (Raw (of_nat sizeof_symbol_table * ucast ?n)) \<and> p \<notin> dom (blocks h) \<and>
        (\<exists>k. io_alloc io k (of_nat sizeof_symbol_table * ucast ?n))"
      and no: "p = 0 \<longrightarrow> (\<exists>k. \<not> io_alloc io k (of_nat sizeof_symbol_table * ucast ?n))"
    show "run (if p = 0 then symbol_tables_error ?f
      else andThen (init_symbol_tables ?f) (\<lambda>_. andThen (symbol_tables_loop io ?f ?is 0) (\<lambda>bad.
        if bad then symbol_tables_error ?f else ret (False, ?f)))) h1 ?Q"
    proof (cases "p = 0")
      case True
      then have "unavailable io" using no by (auto simp: unavailable_def refuses_table_def)
      then show ?thesis
        using True a(1) failed[of h1] by (simp add: symbol_tables_error_def upd_swap)
    next
      case False
      have raw: "blocks h1 p = Some (Raw (of_nat sizeof_symbol_table * ucast ?n))"
        and new: "p \<notin> dom (blocks h)" using p False by auto
      have sh1: "has_shdrs io h1 ?f" using kept_has(3)[OF a(2) sh] by (simp add: has_shdrs_def)
      have fin: "run (if bad then symbol_tables_error ?f else ret (False, ?f)) h' ?Q"
        if b: "length ts = ?m" "owns h0 (sym_blks ts + (blk p + ?M)) h'" "blocks h' p = Some (Syms ts)"
          "kept {p} h1 h'" "bad \<longrightarrow> unavailable io" "\<not> bad \<longrightarrow> has_syms io h' ts" for bad ts h'
      proof (cases bad)
        case True
        have "run (symbol_tables_error ?f) h' ?Q"
          by (rule run_mono[OF run_symbol_tables_error[OF b(2,3)]])
            (use b(1,5) True m False failed in auto)
        then show ?thesis using True by simp
      next
        case ok: False
        then show ?thesis
          using b m False n0 z kept_fresh[OF a(2) b(4) new]
          by (auto simp: file_ok_def tables_ok_def own_f)
      qed
      have "run (andThen (init_symbol_tables ?f) (\<lambda>_. symbol_tables_loop io ?f ?is 0)) h1
          (\<lambda>bad h'. run (if bad then symbol_tables_error ?f else ret (False, ?f)) h' ?Q)"
        by (rule run_mono[OF run_fill_symbol_tables[where f = ?f, OF a(1) False raw _ _ sh1 links]])
          (simp, simp add: m, elim exE conjE, rule fin)
      then show ?thesis unfolding if_not_P[OF False] run_andThen .
    qed
  qed
  moreover have "run (count_sections symtab_types f ?is 0) h R = R ?n h" for R
    using run_count_sections[OF sh, of ?is] by (simp add: sections_of_def)
  ultimately show ?thesis
    unfolding read_symbol_tables_def run_andThen run_get_Ehdr[OF hd] Let_def n0(1) by simp
qed

lemma run_read_relocations:
  assumes ok: "file_ok h0 f ts [] h" and hd: "has_ehdr io h f" and sh: "has_shdrs io h f"
    and z: "rel_tables f = 0"
    and sizes: "\<forall>i \<in> set (sections_of io rel_types). sh_entsize (the_shdr io i) \<noteq> 0"
  shows "run (read_relocations io f) h (\<lambda>(bad, f') h'. \<exists>rs n p.
    f' = f\<lparr>n_rel_tables := n, rel_tables := p\<rparr> \<and> file_ok h0 f' ts rs h' \<and>
    (bad \<longrightarrow> unavailable io) \<and> (\<not> bad \<longrightarrow> kept {} h h' \<and> has_rels io h' rs))"
    (is "run _ h ?Q")
proof -
  let ?is = "[SHN_BEGIN..<n_shdrs io]" and ?m = "length (sections_of io rel_types)"
  let ?n = "of_nat ?m :: Elf64_Half" and ?M = "own f ts []"
  have o: "owns h0 ?M h" and n0: "n_rel_tables f = 0" and t: "tables_ok f ts [] h"
    using ok z by (auto simp: file_ok_def tables_ok_def unat_eq_zero)
  have m: "unat ?n = ?m" by (rule count_fits) simp
  have own_f: "own (f\<lparr>n_rel_tables := n, rel_tables := p\<rparr>) ts rs = rel_blks rs + (blk p + ?M)" for n p rs
    using z by (simp add: own_def add_ac)
  have failed: "?Q (True, f\<lparr>n_rel_tables := 0, rel_tables := 0\<rparr>) h'" if "owns h0 ?M h'" "unavailable io"
    "symbol_tables f = 0 \<or> blocks h' (symbol_tables f) = Some (Syms ts)" for h'
    using that z t
    by (auto simp: file_ok_def tables_ok_def own_f intro!: exI[of _ "[]"] exI[of _ 0])
  have syms: "symbol_tables f = 0 \<or> blocks h' (symbol_tables f) = Some (Syms ts)" if "kept {} h h'" for h'
    using t that by (cases "symbol_tables f = 0") (auto simp: tables_ok_def kept_def)
  have "run (elf_alloc io (of_nat sizeof_rel_table * ucast ?n)) h (\<lambda>p h1.
      let f1 = f\<lparr>n_rel_tables := ?n, rel_tables := p\<rparr> in
      run (if p = 0 then rel_tables_error f1
        else andThen (init_rel_tables f1) (\<lambda>_. andThen (rel_tables_loop io f1 ?is 0) (\<lambda>bad.
          if bad then rel_tables_error f1 else ret (False, f1)))) h1 ?Q)"
    unfolding Let_def
  proof (rule run_mono[OF run_elf_alloc[OF o]], elim conjE)
    fix p :: ptr and h1 :: heap
    let ?f = "f\<lparr>n_rel_tables := ?n, rel_tables := p\<rparr>"
    assume a: "owns h0 (blk p + ?M) h1" "kept {} h h1" and p: "p \<noteq> 0 \<longrightarrow>
        blocks h1 p = Some (Raw (of_nat sizeof_rel_table * ucast ?n)) \<and> p \<notin> dom (blocks h) \<and>
        (\<exists>k. io_alloc io k (of_nat sizeof_rel_table * ucast ?n))"
      and no: "p = 0 \<longrightarrow> (\<exists>k. \<not> io_alloc io k (of_nat sizeof_rel_table * ucast ?n))"
    show "run (if p = 0 then rel_tables_error ?f
      else andThen (init_rel_tables ?f) (\<lambda>_. andThen (rel_tables_loop io ?f ?is 0) (\<lambda>bad.
        if bad then rel_tables_error ?f else ret (False, ?f)))) h1 ?Q"
    proof (cases "p = 0")
      case True
      then have "unavailable io" using no unfolding unavailable_def refuses_table_def by blast
      then have "?Q (True, f\<lparr>n_rel_tables := 0, rel_tables := 0\<rparr>) h1"
        using True a(1) syms[OF a(2)] by (intro failed) simp_all
      then show ?thesis using True by (simp add: rel_tables_error_def upd_swap)
    next
      case False
      have raw: "blocks h1 p = Some (Raw (of_nat sizeof_rel_table * ucast ?n))"
        and new: "p \<notin> dom (blocks h)" using p False by auto
      have sh1: "has_shdrs io h1 ?f" using kept_has(3)[OF a(2) sh] by (simp add: has_shdrs_def)
      have fin: "run (if bad then rel_tables_error ?f else ret (False, ?f)) h' ?Q"
        if b: "length rs = ?m" "owns h0 (rel_blks rs + (blk p + ?M)) h'" "blocks h' p = Some (Rels rs)"
          "kept {p} h1 h'" "bad \<longrightarrow> unavailable io" "\<not> bad \<longrightarrow> has_rels io h' rs" for bad rs h'
      proof (cases bad)
        case True
        have k: "kept {} h h'" by (rule kept_fresh[OF a(2) b(4) new])
        have undo: "?Q (True, f\<lparr>n_rel_tables := 0, rel_tables := 0\<rparr>) h''"
          if "owns h0 ?M h''" "blocks h'' \<subseteq>\<^sub>m blocks h'" for h''
          using failed[OF that(1)] b(5) True smaller_heap[OF that(2,1), of "symbol_tables f"] syms[OF k]
          by (cases "symbol_tables f = 0") (simp_all add: own_def)
        have "run (rel_tables_error ?f) h' ?Q"
          by (rule run_mono[OF run_rel_tables_error[OF b(2,3)]]) (use b(1) m False undo in auto)
        then show ?thesis using True by simp
      next
        case ok: False
        then show ?thesis
          using b m False t syms[OF kept_fresh[OF a(2) b(4) new]] kept_fresh[OF a(2) b(4) new]
          by (auto simp: file_ok_def tables_ok_def own_f)
      qed
      have "run (andThen (init_rel_tables ?f) (\<lambda>_. rel_tables_loop io ?f ?is 0)) h1
          (\<lambda>bad h'. run (if bad then rel_tables_error ?f else ret (False, ?f)) h' ?Q)"
        by (rule run_mono[OF run_fill_rel_tables[where f = ?f, OF a(1) False raw _ _ sh1 sizes]])
          (simp, simp add: m, elim exE conjE, rule fin)
      then show ?thesis unfolding if_not_P[OF False] run_andThen .
    qed
  qed
  moreover have "run (count_sections rel_types f ?is 0) h R = R ?n h" for R
    using run_count_sections[OF sh, of ?is] by (simp add: sections_of_def)
  ultimately show ?thesis
    unfolding read_relocations_def run_andThen run_get_Ehdr[OF hd] Let_def n0 by simp
qed

lemma run_first_dynsym:
  assumes syms: "has_syms io h ts" and arr: "blocks h (symbol_tables f) = Some (Syms ts)"
    and sh: "has_shdrs io h f"
  shows "\<forall>k \<in> set ks. k < length ts \<Longrightarrow> run (first_dynsym f ks) h Q =
    Q (find (\<lambda>k. sh_type (the_shdr io (sections_of io symtab_types ! k)) = SHT_DYNSYM) ks) h"
proof (induction ks)
  case (Cons k ks)
  let ?i = "sections_of io symtab_types ! k"
  have k: "k < length ts" using Cons.prems by simp
  then have s: "sym_section (ts ! k) = Some ?i"
    using syms by (auto simp: has_syms_def sym_entry_def dest: list_all2_nthD2)
  have "k < length (sections_of io symtab_types)"
    using k syms by (simp add: has_syms_def list_all2_lengthD)
  then have "?i \<in> set (sections_of io symtab_types)" by (rule nth_mem)
  then have i: "?i < n_shdrs io" by (simp add: sections_of_def)
  have "get_syms f h = Some (ts, h)" by (simp add: get_syms_def arr)
  then show ?case
    using Cons k by (simp add: run_value s run_get_Shdr[OF sh i])
qed simp

lemma run_read_dynamic:
  assumes ok: "file_ok h0 f ts [] h" and hd: "has_ehdr io h f" and ph: "has_phdrs io h f"
    and sh: "has_shdrs io h f" and syms: "has_syms io h ts"
    and z: "elf_dyn f = \<lparr>dynamic = 0, dyn_symbol_table = None\<rparr>"
    and sane: "phdr_of io PT_DYNAMIC \<noteq> None \<longrightarrow> dynsym_of io \<noteq> None"
  shows "run (read_dynamic io f) h (\<lambda>(bad, f') h'. \<exists>d. f' = f\<lparr>elf_dyn := d\<rparr> \<and>
    file_ok h0 f' ts [] h' \<and> kept {} h h' \<and> (bad \<longrightarrow> unavailable io) \<and> (\<not> bad \<longrightarrow> has_dynamic io h' f'))"
proof -
  let ?Q = "\<lambda>(bad, f') h'. \<exists>d. f' = f\<lparr>elf_dyn := d\<rparr> \<and>
    file_ok h0 f' ts [] h' \<and> kept {} h h' \<and> (bad \<longrightarrow> unavailable io) \<and> (\<not> bad \<longrightarrow> has_dynamic io h' f')"
  have o: "owns h0 (own f ts []) h" "tables_ok f ts [] h" using ok by (simp_all add: file_ok_def)
  have found: "run (first_phdr f PT_DYNAMIC [0..<n_phdrs io]) h R = R (phdr_of io PT_DYNAMIC) h" for R
    using run_first_phdr[OF ph, of "[0..<n_phdrs io]"] by (simp add: phdr_of_def)
  show ?thesis
  proof (cases "phdr_of io PT_DYNAMIC")
    case None
    have "?Q (False, f) h"
      using ok None z by (auto simp: has_dynamic_def intro!: exI[of _ "elf_dyn f"])
    then show ?thesis
      by (simp add: read_dynamic_def run_get_Ehdr[OF hd] found None del: split_paired_Ex)
  next
    case (Some i)
    have i: "i < n_phdrs io" using Some by (auto simp: phdr_of_def find_Some_iff)
    obtain k where k: "dynsym_of io = Some k" using sane Some by auto
    have slot: "own (f\<lparr>elf_dyn := \<lparr>dynamic = p, dyn_symbol_table = s\<rparr>\<rparr>) ts [] = blk p + own f ts []" for p s
      using z by (simp add: own_def add_ac)
    let ?cont = "\<lambda>p. let f = f\<lparr>elf_dyn := (elf_dyn f)\<lparr>dynamic := p\<rparr>\<rparr> in
      if p = 0 then dynamic_error f
      else andThen (first_dynsym f [0..<unat (n_symbol_tables f)]) (\<lambda>k.
        let f = (case k of None \<Rightarrow> f | Some k \<Rightarrow> f\<lparr>elf_dyn := (elf_dyn f)\<lparr>dyn_symbol_table := Some k\<rparr>\<rparr>) in
        if dyn_symbol_table (elf_dyn f) = None then dynamic_error f else ret (False, f))"
    have "run (read_phdr_data io f i) h (\<lambda>p h'. run (?cont p) h' ?Q)"
    proof (rule run_mono[OF run_read_phdr_data[OF o(1) ph i]])
      fix p :: ptr and h' :: heap
      assume a: "owns h0 (blk p + own f ts []) h' \<and> kept {} h h' \<and> (p \<noteq> 0 \<longrightarrow> holds_segment io h' p i) \<and>
        (p = 0 \<longrightarrow> refuses_segment io i)"
      have t: "tables_ok f ts [] h'" using a kept_tables_ok[OF o(2)] by blast
      show "run (?cont p) h' ?Q"
      proof (cases "p = 0")
        case True
        then show ?thesis
          using a t Some by (auto simp: dynamic_error_def z file_ok_def slot unavailable_def)
      next
        case False
        let ?f = "f\<lparr>elf_dyn := (elf_dyn f)\<lparr>dynamic := p\<rparr>\<rparr>"
        have len: "length ts = unat (n_symbol_tables f)" using o(2) by (simp add: tables_ok_def)
        have "length ts = length (sections_of io symtab_types)"
          using syms by (simp add: has_syms_def list_all2_lengthD)
        moreover have "ts \<noteq> []"
          using k calculation by (auto simp: dynsym_of_def)
        ultimately have arr: "blocks h' (symbol_tables ?f) = Some (Syms ts)"
          and len': "length (sections_of io symtab_types) = unat (n_symbol_tables f)"
          using t len by (auto simp: tables_ok_def split: if_splits)
        have sh': "has_shdrs io h' ?f" "has_syms io h' ts"
          using a kept_has(3)[OF _ sh] kept_has_syms[OF _ syms] by (auto simp: has_shdrs_def)
        have dyn: "run (first_dynsym ?f [0..<unat (n_symbol_tables f)]) h' R = R (dynsym_of io) h'" for R
          using run_first_dynsym[OF sh'(2) arr sh'(1), of "[0..<unat (n_symbol_tables f)]"] len
          by (simp add: dynsym_of_def len')
        show ?thesis
          using a t False Some k
          by (simp add: z dyn[unfolded z, simplified] Let_def file_ok_def slot has_dynamic_def) blast
      qed
    qed
    then show ?thesis
      unfolding read_dynamic_def run_andThen run_get_Ehdr[OF hd] found Some option.case by simp
  qed
qed

text \<open>
  The first six stages, whatever follows: they reach the rest \<open>k\<close> with every header and symbol
  table loaded, or fail because something is unavailable, owning what they allocated. \<open>R\<close> is
  any claim about the outcome.
\<close>

lemma outcome_stage:
  assumes "run (m f) h (\<lambda>(bad, f') h'. (bad \<longrightarrow> R (readelf_error f' h')) \<and> (\<not> bad \<longrightarrow> R (k f' h')))"
  shows "R (stage m k f h)"
  using assms by (auto simp: stage_def andThen_def run_def split: option.splits if_splits)

lemma outcome_to_dynamic:
  assumes ok0: "heap_ok h0"
    and sn: "unat (e_shstrndx (the_ehdr io)) < n_shdrs io"
    and links: "\<forall>i \<in> set (sections_of io symtab_types). link_of io i < n_shdrs io"
    and err: "\<And>f ts rs h. unavailable io \<Longrightarrow> file_ok h0 f ts rs h \<Longrightarrow> R (readelf_error f h)"
    and rest: "\<And>f ts h. ready io h0 f ts h \<Longrightarrow> R (k f h)"
  shows "R (stage (read_header io) (stage (read_phdrs io) (stage (read_sections io)
    (stage (read_section_names io) (stage (read_interpreter io) (stage (read_symbol_tables io) k)))))
      init_elf_file h0)"
proof -
  let ?zero = "\<lparr>dynamic = 0, dyn_symbol_table = None\<rparr>"
  have s6: "R (stage (read_symbol_tables io) k f h)"
    if "file_ok h0 f [] [] h" "has_ehdr io h f" "has_phdrs io h f" "has_shdrs io h f"
      "has_names io h f" "has_interp io h f" "elf_dyn f = ?zero"
      "symbol_tables f = 0" "rel_tables f = 0" for f h
    by (rule outcome_stage, rule run_mono[OF run_read_symbol_tables[OF that(1,2,4,8,9) links]])
      (use that in \<open>auto intro!: rest readyI err intro: kept_rules\<close>)
  have s5: "R (stage (read_interpreter io) (stage (read_symbol_tables io) k) f h)"
    if "file_ok h0 f [] [] h" "has_ehdr io h f" "has_phdrs io h f" "has_shdrs io h f"
      "has_names io h f" "interpreter f = 0" "elf_dyn f = ?zero"
      "symbol_tables f = 0" "rel_tables f = 0" for f h
    by (rule outcome_stage, rule run_mono[OF run_read_interpreter[OF that(1,2,3,6)]])
      (use that in \<open>auto intro!: s6 err intro: kept_rules\<close>)
  let ?k4 = "stage (read_interpreter io) (stage (read_symbol_tables io) k)"
  have s4: "R (stage (read_section_names io) ?k4 f h)"
    if "file_ok h0 f [] [] h" "has_ehdr io h f" "has_phdrs io h f" "has_shdrs io h f"
      "section_names f = 0" "interpreter f = 0" "elf_dyn f = ?zero"
      "symbol_tables f = 0" "rel_tables f = 0" for f h
    by (rule outcome_stage, rule run_mono[OF run_read_section_names[OF that(1,2,4,5) sn]])
      (use that in \<open>auto intro!: s5 err intro: kept_rules\<close>)
  have s3: "R (stage (read_sections io) (stage (read_section_names io) ?k4) f h)"
    if "file_ok h0 f [] [] h" "has_ehdr io h f" "has_phdrs io h f"
      "sections f = 0" "section_names f = 0" "interpreter f = 0" "elf_dyn f = ?zero"
      "symbol_tables f = 0" "rel_tables f = 0" for f h
    by (rule outcome_stage, rule run_mono[OF run_read_sections[OF that(1,2,4)]])
      (use that in \<open>auto intro!: s4 err intro: kept_rules\<close>)
  have ok: "file_ok h0 (init_elf_file\<lparr>header := p, program_headers := q\<rparr>) [] [] h"
    if "owns h0 (blk q + blk p) h" for p q h
    using that by (simp add: file_ok_def tables_ok_def own_def init_elf_file_def add_ac)
  have s2: "R (stage (read_phdrs io) (stage (read_sections io) (stage (read_section_names io) ?k4))
      (init_elf_file\<lparr>header := p\<rparr>) h)"
    if "owns h0 (blk p) h" "p \<noteq> 0" "blocks h p = Some (Raw (of_nat sizeof_Ehdr))" for p h
    by (rule outcome_stage, rule run_mono[OF run_read_phdrs[OF that]])
      (auto intro: ok err intro!: s3)
  have ok1: "file_ok h0 (init_elf_file\<lparr>header := p\<rparr>) [] [] h" if "owns h0 (blk p) h" for p h
    using that by (simp add: file_ok_def tables_ok_def own_def init_elf_file_def)
  show ?thesis
    by (rule outcome_stage, rule run_mono[OF run_read_header[OF ok0]])
      (auto intro: ok1 err intro!: s2)
qed

text \<open>
  A file with a dynamic segment but no dynamic symbol table: \<open>read_dynamic\<close> frees the block of
  the segment and keeps the pointer, which the error path of \<open>readelf\<close> frees again.
\<close>

lemma free_all_dead: "p \<noteq> 0 \<Longrightarrow> p \<notin> dom (blocks h) \<Longrightarrow> p \<in> set ps \<Longrightarrow> free_all ps h = None"
proof (induction ps arbitrary: h)
  case (Cons q ps)
  show ?case
  proof (cases "q = p")
    case True
    then show ?thesis using Cons.prems by (simp add: andThen_def elf_free_def)
  next
    case False
    then have "p \<notin> dom (blocks h')" if "elf_free q h = Some ((), h')" for h'
      using that Cons.prems(2) by (auto simp: elf_free_def split: if_splits)
    then show ?thesis
      using Cons False by (auto simp: andThen_def split: option.splits)
  qed
qed simp

lemma dynamic_fails:
  assumes r: "ready io h0 f ts h" and found: "phdr_of io PT_DYNAMIC = Some i"
    and none: "dynsym_of io = None" and avail: "\<not> unavailable io"
  shows "stage (read_dynamic io) k f h = None"
proof -
  have r: "owns h0 (own f ts []) h" "tables_ok f ts [] h" "has_ehdr io h f" "has_phdrs io h f"
    "has_shdrs io h f" "has_syms io h ts" "elf_dyn f = \<lparr>dynamic = 0, dyn_symbol_table = None\<rparr>"
    using r by (simp_all add: ready_def file_ok_def)
  have first: "run (first_phdr f PT_DYNAMIC [0..<n_phdrs io]) h R = R (phdr_of io PT_DYNAMIC) h" for R
    using run_first_phdr[OF r(4), of "[0..<n_phdrs io]"] by (simp add: phdr_of_def)
  have i: "i < n_phdrs io" using found by (auto simp: phdr_of_def find_Some_iff)
  let ?f = "\<lambda>p. f\<lparr>elf_dyn := \<lparr>dynamic = p, dyn_symbol_table = None\<rparr>\<rparr>"
  let ?D = "\<lambda>(bad, f') h'. bad \<and> dynamic (elf_dyn f') \<noteq> 0 \<and> dynamic (elf_dyn f') \<notin> dom (blocks h')"
  have "run (read_phdr_data io f i) h (\<lambda>p h'. run (first_dynsym (?f p) [0..<unat (n_symbol_tables f)]) h'
      (\<lambda>k h'. k = None \<and> run (dynamic_error (?f p)) h' ?D) \<and> p \<noteq> 0)"
  proof (rule run_mono[OF run_read_phdr_data[OF r(1,4) i]])
    fix p :: ptr and h' :: heap
    assume a: "owns h0 (blk p + own f ts []) h' \<and> kept {} h h' \<and> (p \<noteq> 0 \<longrightarrow> holds_segment io h' p i) \<and>
      (p = 0 \<longrightarrow> refuses_segment io i)"
    then have p: "p \<noteq> 0" using avail found unfolding unavailable_def by blast
    have t: "tables_ok f ts [] h'" using a kept_tables_ok[OF r(2)] by blast
    have len: "length (sections_of io symtab_types) = unat (n_symbol_tables f)" "length ts = unat (n_symbol_tables f)"
      using r(2,6) by (auto simp: tables_ok_def has_syms_def dest: list_all2_lengthD)
    have dyn: "run (first_dynsym (?f p) [0..<unat (n_symbol_tables f)]) h' R = R (dynsym_of io) h'" for R
    proof (cases "symbol_tables f = 0")
      case True
      then show ?thesis using t len by (simp add: tables_ok_def dynsym_of_def)
    next
      case False
      then have arr: "blocks h' (symbol_tables (?f p)) = Some (Syms ts)" using t by (simp add: tables_ok_def)
      have "has_syms io h' ts" "has_shdrs io h' (?f p)"
        using a kept_has(3)[OF _ r(5)] kept_has_syms[OF _ r(6)] by auto
      then show ?thesis
        using run_first_dynsym[OF _ arr, of "[0..<unat (n_symbol_tables f)]"] len
        by (simp add: dynsym_of_def)
    qed
    have "run (elf_free p) h' (\<lambda>_ h''. p \<notin> dom (blocks h''))"
      using owns_member[of h0 "blk p + own f ts []" h' p] a p by (auto simp: run_def elf_free_def)
    then have "run (dynamic_error (?f p)) h' ?D"
      using p by (auto simp: dynamic_error_def elim!: run_mono)
    then show "run (first_dynsym (?f p) [0..<unat (n_symbol_tables f)]) h'
        (\<lambda>k h'. k = None \<and> run (dynamic_error (?f p)) h' ?D) \<and> p \<noteq> 0"
      using p none by (simp add: dyn)
  qed
  then have "run (read_dynamic io f) h ?D"
    unfolding read_dynamic_def run_andThen run_get_Ehdr[OF r(3)] first found option.case
    by (rule run_mono) (auto simp: r(7) Let_def elim!: run_mono)
  then obtain x h' where x: "read_dynamic io f h = Some (x, h')" "?D x h'" by (rule runE)
  then obtain f' where d: "read_dynamic io f h = Some ((True, f'), h')"
    "dynamic (elf_dyn f') \<noteq> 0" "dynamic (elf_dyn f') \<notin> dom (blocks h')"
    by (cases x) simp
  have "free_all [header f', program_headers f', sections f', section_names f', interpreter f',
      dynamic (elf_dyn f')] h' = None"
    by (rule free_all_dead[OF d(2,3)]) simp
  then have "free_elf_file f' h' = None"
    by (simp only: free_elf_file_def andThen_def option.case)
  then show ?thesis using d(1) by (simp add: stage_def andThen_def readelf_error_def)
qed

lemma readelf_fails:
  assumes "heap_ok h0" and "unat (e_shstrndx (the_ehdr io)) < n_shdrs io"
    and "\<forall>i \<in> set (sections_of io symtab_types). link_of io i < n_shdrs io"
    and "phdr_of io PT_DYNAMIC \<noteq> None" and "dynsym_of io = None" and "\<not> unavailable io"
  shows "readelf io init_elf_file h0 = None"
proof -
  obtain i where i: "phdr_of io PT_DYNAMIC = Some i" using assms(4) by auto
  show ?thesis
    unfolding readelf_def
    by (rule outcome_to_dynamic[OF assms(1-3), where R = "\<lambda>r. r = None"])
      (use assms(5,6) dynamic_fails[OF _ i] in auto)
qed

text \<open>The whole reader: on a sane file it either loads everything or leaves nothing behind.\<close>

lemma run_readelf:
  assumes "heap_ok h0" and sane: "sane io"
  shows "run (readelf io init_elf_file) h0 (finished io h0)"
proof -
  let ?R = "\<lambda>r. case r of None \<Rightarrow> False | Some (x, h') \<Rightarrow> finished io h0 x h'"
  have sn: "unat (e_shstrndx (the_ehdr io)) < n_shdrs io"
    "\<forall>i \<in> set (sections_of io symtab_types). link_of io i < n_shdrs io"
    "\<forall>i \<in> set (sections_of io rel_types). sh_entsize (the_shdr io i) \<noteq> 0"
    "phdr_of io PT_DYNAMIC \<noteq> None \<longrightarrow> dynsym_of io \<noteq> None"
    using sane by (auto simp: sane_def list_all_iff)
  have err: "?R (readelf_error f h)" if "unavailable io" "file_ok h0 f ts rs h" for f ts rs h
    using run_free_elf_file[OF that(2)] that(1)
    by (auto simp: readelf_error_def finished_def run_def andThen_def ret_def split: option.splits)
  have s8: "?R (stage (read_relocations io) (\<lambda>f. ret (False, f)) f h)"
    if "file_ok h0 f ts [] h" "has_ehdr io h f" "has_phdrs io h f" "has_shdrs io h f"
      "has_names io h f" "has_interp io h f" "has_syms io h ts" "has_dynamic io h f"
      "rel_tables f = 0" for f h ts
    by (rule outcome_stage, rule run_mono[OF run_read_relocations[OF that(1,2,4,9) sn(3)]])
      (use that in \<open>auto simp: finished_def ret_def intro!: loadedI err intro: kept_rules\<close>)
  have s7: "?R (stage (read_dynamic io) (stage (read_relocations io) (\<lambda>f. ret (False, f))) f h)"
    if r: "ready io h0 f ts h" for f ts h
  proof -
    have r: "file_ok h0 f ts [] h" "has_ehdr io h f" "has_phdrs io h f" "has_shdrs io h f"
      "has_syms io h ts" "elf_dyn f = \<lparr>dynamic = 0, dyn_symbol_table = None\<rparr>"
      "has_names io h f" "has_interp io h f" "rel_tables f = 0"
      using r by (simp_all add: ready_def)
    show ?thesis
      by (rule outcome_stage, rule run_mono[OF run_read_dynamic[OF r(1-6) sn(4)]])
        (use r in \<open>auto intro!: s8 err intro: kept_rules\<close>)
  qed
  have "?R (readelf io init_elf_file h0)"
    unfolding readelf_def by (rule outcome_to_dynamic[OF assms(1) sn(1,2)]) (rule err s7, assumption+)+
  then show ?thesis by (simp add: run_def)
qed

end

section \<open>The reader of the test program keeps the laws\<close>

lemma sys_read_count_length:
  "sys_read_count r = n \<Longrightarrow> n \<le> 0x7fffffffffffffff \<Longrightarrow>
    r = map_option (take (unat n)) r' \<Longrightarrow> \<exists>bs. r = Some bs \<and> length bs = unat n"
proof (cases r)
  case None
  assume "sys_read_count r = n" "n \<le> 0x7fffffffffffffff"
  then show ?thesis using None by (auto simp: sys_read_count_def word_le_def unsigned_minus_1_eq_mask
        mask_eq_exp_minus_1)
next
  case (Some bs)
  assume a: "sys_read_count r = n" "r = map_option (take (unat n)) r'"
  then have "length bs \<le> unat n" using Some by (cases r') auto
  then have "length bs < 18446744073709551616" using unat_lt64[of n] by linarith
  then show ?thesis using a(1) Some by (auto simp: sys_read_count_def)
qed

interpretation weak: elf_reader weak_io
  by unfold_locales (simp_all add: weak_io_def)

text \<open>With the defaults nothing is read and nothing is left: \<open>readelf\<close> reports an error.\<close>

lemma readelf_weak:
  "readelf weak_io init_elf_file h = Some ((True, init_elf_file), h\<lparr>requests := Suc (requests h)\<rparr>)"
  by (simp add: readelf_def stage_def read_header_def andThen_def ret_def elf_alloc_def weak_io_def
      readelf_error_def free_elf_file_def free_symbol_tables_def free_rel_tables_def elf_free_def
      init_elf_file_def Let_def)

interpretation glibc: elf_reader "glibc_io lseek file_at malloc"
proof
  fix off n bs
  assume r: "io_read (glibc_io lseek file_at malloc) off n = Some bs" and n: "n \<le> 0x7fffffffffffffff"
  let ?r = "map_option (take (unat n)) (file_at off)"
  have c: "sys_read_count ?r = n" and bs: "bs = (case ?r of None \<Rightarrow> [] | Some bs \<Rightarrow> bs)"
    using r by (auto simp: glibc_io_def glibc_elf_read_def Let_def split: if_splits)
  then show "length bs = unat n" using sys_read_count_length[OF c n refl] by auto
next
  fix k n
  assume "io_alloc (glibc_io lseek file_at malloc) k n"
  then show "n \<le> 0x7fffffffffffffff" by (simp add: glibc_io_def)
qed

section \<open>A small file\<close>

text \<open>An array of encoded structs decodes element by element.\<close>

lemma array_at_concat:
  assumes "\<And>x. length (enc x) = n" and "i < length xs"
  shows "array_at dec n (concat (map enc xs) @ rest) i = dec (enc (xs ! i))"
  using assms(2)
proof (induction xs arbitrary: i)
  case (Cons x xs)
  then show ?case using assms(1)[of x] Cons.IH[of "i - 1"]
    by (cases i) (simp_all add: array_at_def)
qed simp

lemma length_encode_Shdr: "length (encode_Shdr s) = sizeof_Shdr"
  by (simp add: encode_Shdr_def sizeof_Shdr_def)

lemma length_encode_Phdr: "length (encode_Phdr p) = sizeof_Phdr"
  by (simp add: encode_Phdr_def sizeof_Phdr_def)

lemmas shdr_array = array_at_concat[of encode_Shdr sizeof_Shdr, OF length_encode_Shdr]
lemmas phdr_array = array_at_concat[of encode_Phdr sizeof_Phdr, OF length_encode_Phdr]

definition sample_ehdr :: Elf64_Ehdr where
  "sample_ehdr =
     \<lparr>e_ident = [0x7f, 0x45, 0x4c, 0x46, 2, 1, 1, 0, 0, 0, 0, 0, 0, 0, 0, 0], e_type = 2,
      e_machine = 62, e_version = 1, e_entry = 0, e_phoff = 64, e_shoff = 120, e_flags = 0,
      e_ehsize = 64, e_phentsize = 56, e_phnum = 1, e_shentsize = 64, e_shnum = 4, e_shstrndx = 1\<rparr>"

definition sample_phdr :: "Elf64_Word \<Rightarrow> Elf64_Phdr" where
  "sample_phdr t = \<lparr>p_type = t, p_flags = 4, p_offset = 376, p_vaddr = 0, p_paddr = 0,
     p_filesz = 2, p_memsz = 2, p_align = 1\<rparr>"

definition sample_shdr :: "Elf64_Word \<Rightarrow> u64 \<Rightarrow> Elf64_Word \<Rightarrow> u64 \<Rightarrow> Elf64_Shdr" where
  "sample_shdr t sz link ent =
     \<lparr>sh_name = 0, sh_type = t, sh_flags = 0, sh_addr = 0, sh_offset = 376, sh_size = sz,
      sh_link = link, sh_info = 0, sh_addralign = 1, sh_entsize = ent\<rparr>"

definition sample_shdrs :: "bool \<Rightarrow> Elf64_Shdr list" where
  "sample_shdrs ra = [sample_shdr 0 0 0 0, sample_shdr 3 1 0 0, sample_shdr SHT_SYMTAB 24 1 24,
     if ra then sample_shdr SHT_RELA 24 2 24 else sample_shdr SHT_REL 64 2 16]"

text \<open>The file, given by what is found from the offsets the headers name on.\<close>

definition sample_at :: "Elf64_Word \<Rightarrow> bool \<Rightarrow> u64 \<Rightarrow> u8 list option" where
  "sample_at t ra off =
     (if off = 0 then Some (encode_Ehdr sample_ehdr)
      else if off = 64 then Some (encode_Phdr (sample_phdr t))
      else if off = 120 then Some (concat (map encode_Shdr (sample_shdrs ra)))
      else if off = 376 then Some (replicate 64 7)
      else Some [])"

definition sample_file :: "Elf64_Word \<Rightarrow> bool \<Rightarrow> elf_io" where
  "sample_file t ra = glibc_io (\<lambda>_. True) (sample_at t ra) (\<lambda>_ _. True)"

abbreviation sample_io :: "Elf64_Word \<Rightarrow> elf_io" where
  "sample_io t \<equiv> sample_file t False"

definition empty_heap :: heap where
  "empty_heap = \<lparr>blocks = (\<lambda>_. None), requests = 0\<rparr>"

lemma sample_read:
  assumes "off \<le> 0x7fffffffffffffff" and "sample_at t ra off = Some bs"
    and "unat n \<le> length bs"
  shows "io_read (sample_file t ra) off n = Some (take (unat n) bs)"
proof -
  have "(of_nat (min (length bs) (unat n)) :: u64) = n" using assms(3) by (simp add: min_absorb2)
  then show ?thesis
    using assms(1,2) by (simp add: sample_file_def glibc_io_def glibc_elf_read_def sys_read_count_def
        not_less [symmetric])
qed

lemma sample_headers:
  shows sample_ehdr_eq: "the_ehdr (sample_file t ra) = sample_ehdr"
    and sample_phdr_eq: "the_phdr (sample_file t ra) 0 = sample_phdr t"
    and sample_shdr_eq: "i < 4 \<Longrightarrow> the_shdr (sample_file t ra) i = sample_shdrs ra ! i"
proof -
  have len: "length (encode_Ehdr sample_ehdr) = 64" by (simp add: encode_Ehdr_def sample_ehdr_def)
  have "the_bytes (sample_file t ra) 0 (of_nat sizeof_Ehdr) = encode_Ehdr sample_ehdr"
    by (simp add: the_bytes_def sample_read[of 0 t ra "encode_Ehdr sample_ehdr"] sample_at_def len sizeof_Ehdr_def)
  then show e: "the_ehdr (sample_file t ra) = sample_ehdr"
    by (simp add: the_ehdr_def decode_encode_Ehdr sample_ehdr_def)
  have "the_bytes (sample_file t ra) 64 56 = encode_Phdr (sample_phdr t)"
    using sample_read[of 64 t ra "encode_Phdr (sample_phdr t)" 56]
    by (simp add: the_bytes_def sample_at_def length_encode_Phdr sizeof_Phdr_def)
  then show "the_phdr (sample_file t ra) 0 = sample_phdr t"
    using phdr_array[of 0 "[sample_phdr t]" decode_Phdr "[]"]
    by (simp add: the_phdr_def phdr_table_size_def e sample_ehdr_def sizeof_Phdr_def decode_encode_Phdr)
  let ?bs = "concat (map encode_Shdr (sample_shdrs ra))"
  have "length ?bs = 256" by (simp add: sample_shdrs_def length_encode_Shdr sizeof_Shdr_def)
  then have "the_bytes (sample_file t ra) 120 256 = ?bs"
    using sample_read[of 120 t ra ?bs 256] by (simp add: the_bytes_def sample_at_def)
  then show "the_shdr (sample_file t ra) i = sample_shdrs ra ! i" if "i < 4"
    using shdr_array[of i "sample_shdrs ra" decode_Shdr "[]"] that
    by (simp add: the_shdr_def shdr_table_size_def e sample_ehdr_def sizeof_Shdr_def decode_encode_Shdr
        sample_shdrs_def)
qed

lemma sample_counts [simp]:
  "e_shnum (the_ehdr (sample_file t ra)) = 4" "e_phnum (the_ehdr (sample_file t ra)) = 1"
  "e_shstrndx (the_ehdr (sample_file t ra)) = 1" "e_phoff (the_ehdr (sample_file t ra)) = 64"
  "e_shoff (the_ehdr (sample_file t ra)) = 120"
  by (simp_all add: sample_ehdr_eq) (simp_all add: sample_ehdr_def)

lemma sample_shdr_nth [simp]:
  "the_shdr (sample_file t ra) (Suc 0) = sample_shdr 3 1 0 0"
  "the_shdr (sample_file t ra) 2 = sample_shdr SHT_SYMTAB 24 1 24"
  "the_shdr (sample_file t ra) 3 =
     (if ra then sample_shdr SHT_RELA 24 2 24 else sample_shdr SHT_REL 64 2 16)"
  by (simp_all add: sample_shdr_eq) (simp_all add: sample_shdrs_def)

lemma sample_shdr_fields [simp]:
  "sh_type (sample_shdr ty sz l e) = ty" "sh_size (sample_shdr ty sz l e) = sz"
  "sh_link (sample_shdr ty sz l e) = l" "sh_entsize (sample_shdr ty sz l e) = e"
  "sh_offset (sample_shdr ty sz l e) = 376"
  by (simp_all add: sample_shdr_def)

lemma sample_sections:
  "sections_of (sample_file t ra) symtab_types = [2]" "sections_of (sample_file t ra) rel_types = [3]"
proof -
  have "[SHN_BEGIN..<4] = [1, 2, 3]" by code_simp
  then show "sections_of (sample_file t ra) symtab_types = [2]" "sections_of (sample_file t ra) rel_types = [3]"
    by (simp_all add: sections_of_def elf_consts)
qed

lemma sample_phdr_of: "phdr_of (sample_file t ra) t' = (if t = t' then Some 0 else None)"
  by (simp add: phdr_of_def sample_phdr_eq sample_phdr_def)

lemma sample_dynsym: "dynsym_of (sample_file t ra) = None"
  by (simp add: dynsym_of_def sample_sections) (simp add: elf_consts)

lemma sample_sane: "t \<noteq> PT_DYNAMIC \<Longrightarrow> sane (sample_file t ra)"
  by (simp add: sane_def sample_sections sample_phdr_of link_of_def)

lemma sample_not_refused:
  assumes "off \<le> 0x7fffffffffffffff" and "sample_at t ra off = Some bs" and "unat n \<le> length bs"
    and "n \<le> 0x7fffffffffffffff"
  shows "\<not> refuses (sample_file t ra) off n"
  using sample_read[OF assms(1-3)] assms(4)
  by (simp add: refuses_def) (simp add: sample_file_def glibc_io_def)

lemma sample_available: "\<not> unavailable (sample_file t ra)"
proof -
  have "length (encode_Ehdr sample_ehdr) = 64" by (simp add: encode_Ehdr_def sample_ehdr_def)
  moreover have "length (concat (map encode_Shdr (sample_shdrs ra))) = 256"
    by (simp add: sample_shdrs_def length_encode_Shdr sizeof_Shdr_def)
  ultimately have r: "\<not> refuses (sample_file t ra) 0 64" "\<not> refuses (sample_file t ra) 64 56"
    "\<not> refuses (sample_file t ra) 120 256" "n \<le> 64 \<Longrightarrow> \<not> refuses (sample_file t ra) 376 n" for n
    using sample_not_refused[of 0 t ra _ 64] sample_not_refused[of 64 t ra _ 56]
      sample_not_refused[of 120 t ra _ 256] sample_not_refused[of 376 t ra _ n]
    by (simp_all add: sample_at_def length_encode_Phdr sizeof_Phdr_def word_le_nat_alt)
  have a: "io_alloc (sample_file t ra) k n \<longleftrightarrow> n \<le> 0x7fffffffffffffff" for k n
    by (simp add: sample_file_def glibc_io_def)
  have "ELF_VERIFY_MAGIC (the_ehdr (sample_file t ra))"
    unfolding sample_ehdr_eq by (simp add: ELF_VERIFY_MAGIC_def sample_ehdr_def)
  then show ?thesis
    using r by (auto simp: unavailable_def refuses_section_def refuses_segment_def refuses_symtab_def
        refuses_rel_def refuses_table_def sample_sections sample_phdr_of link_of_def a sizeof_Ehdr_def
        phdr_table_size_def shdr_table_size_def sizeof_Phdr_def sizeof_Shdr_def sizeof_Rela_def
        sizeof_symbol_table_def sizeof_rel_table_def sample_phdr_eq sample_phdr_def)
qed

lemma empty_heap_ok: "heap_ok empty_heap"
  by (simp add: heap_ok_def empty_heap_def)

lemma sample_loads:
  assumes "t \<noteq> PT_DYNAMIC"
  obtains f h where "readelf (sample_file t ra) init_elf_file empty_heap = Some ((False, f), h)"
    and "loaded (sample_file t ra) empty_heap f h"
proof -
  have "sane (sample_file t ra)" using assms by (rule sample_sane)
  from glibc.run_readelf[OF empty_heap_ok this[unfolded sample_file_def]]
  obtain x h where x: "readelf (sample_file t ra) init_elf_file empty_heap = Some (x, h)"
    "finished (sample_file t ra) empty_heap x h"
    unfolding sample_file_def by (rule runE)
  obtain bad f where b: "x = (bad, f)" by (cases x)
  have "\<not> bad" "loaded (sample_file t ra) empty_heap f h"
    using x(2) sample_available[of t ra] by (auto simp: b finished_def split: if_splits)
  then show thesis using x(1) that by (simp add: b)
qed

section \<open>Properties\<close>



text \<open>C34: \<open>free_elf_file\<close> gives back exactly what \<open>readelf\<close> allocated: no block is freed twice
and none is leaked.\<close>

theorem free_elf_file_returns_all:
  assumes "loaded io h0 f h"
  shows "\<exists>h'. free_elf_file f h = Some ((), h') \<and> blocks h' = blocks h0"
proof -
  obtain ts rs where "file_ok h0 f ts rs h" using assms by (auto simp: loaded_def)
  then show ?thesis by (metis runE[OF run_free_elf_file] unit.exhaust)
qed

theorem free_elf_file_returns_all_witness:
  "\<exists>f h h'. readelf (sample_io PT_INTERP) init_elf_file empty_heap = Some ((False, f), h) \<and>
    free_elf_file f h = Some ((), h') \<and> blocks h' = blocks empty_heap"
proof -
  obtain f h where "readelf (sample_io PT_INTERP) init_elf_file empty_heap = Some ((False, f), h)"
    "loaded (sample_io PT_INTERP) empty_heap f h"
    by (rule sample_loads[of PT_INTERP False]) (simp add: elf_consts)
  then show ?thesis using free_elf_file_returns_all by blast
qed

text \<open>C39: a file that is readable and sane, but has a dynamic segment and no dynamic symbol table,
makes \<open>readelf\<close> free the block of the segment twice, which is undefined behaviour.\<close>

theorem readelf_double_free:
  assumes "heap_ok h0" and "io = glibc_io lseek file_at malloc"
    and "unat (e_shstrndx (the_ehdr io)) < n_shdrs io"
    and "\<forall>i \<in> set (sections_of io symtab_types). link_of io i < n_shdrs io"
    and "phdr_of io PT_DYNAMIC \<noteq> None" and "dynsym_of io = None" and "\<not> unavailable io"
  shows "readelf io init_elf_file h0 = None"
  using assms(1,3-7) unfolding assms(2) by (rule glibc.readelf_fails)

theorem readelf_double_free_witness:
  "readelf (sample_io PT_DYNAMIC) init_elf_file empty_heap = None"
  by (rule readelf_double_free[OF empty_heap_ok sample_file_def])
    (simp_all add: sample_sections sample_phdr_of sample_dynsym sample_available link_of_def)

text \<open>A table of \<open>SHT_REL\<close> entries is announced with its size divided by the entry size of the
section, but only one in four of its entries is converted, because the converter divides by the
size of a section header: readers that trust the count run past the end of the array.\<close>

theorem rel_table_short:
  assumes "rel_entry io h i t" and "sh_type (the_shdr io i) = SHT_REL"
    and "sh_entsize (the_shdr io i) = of_nat sizeof_Rel"
  shows "\<exists>relas. blocks h (relocations t) = Some (Relas relas) \<and>
    length relas = unat (n_relocations t) div 4"
proof -
  have "SHT_REL \<noteq> SHT_RELA" by (simp add: elf_consts)
  then have b: "blocks h (relocations t) = Some (Relas (converted io i))"
    and n: "n_relocations t = sh_size (the_shdr io i) div 16"
    using assms by (simp_all add: rel_entry_def holds_relas_def sizeof_Rel_def)
  have "length (converted io i) = unat (sh_size (the_shdr io i)) div 64"
    by (simp add: converted_def sizeof_Shdr_def unat_div)
  also have "\<dots> = unat (n_relocations t) div 4"
    by (simp add: n unat_div div_mult2_eq [symmetric])
  finally show ?thesis using b by blast
qed

theorem rel_table_short_witness:
  "\<exists>h t relas. rel_entry (sample_io PT_INTERP) h 3 t \<and> n_relocations t = 4 \<and>
    blocks h (relocations t) = Some (Relas relas) \<and> length relas = 1"
proof -
  let ?io = "sample_io PT_INTERP"
  let ?h = "empty_heap\<lparr>blocks := [1 \<mapsto> Relas (converted ?io 3)]\<rparr>"
  let ?t = "\<lparr>rel_section = Some 3, n_relocations = 4, relocations = 1\<rparr>"
  have "io_read ?io 376 64 = Some (section_bytes ?io 3)"
    using sample_read[of 376 PT_INTERP False _ 64]
    by (simp add: section_bytes_def the_bytes_def sample_at_def)
  moreover have "SHT_REL \<noteq> SHT_RELA" by (simp add: elf_consts)
  ultimately have e: "rel_entry ?io ?h 3 ?t" by (simp add: rel_entry_def holds_relas_def)
  have "sh_type (the_shdr ?io 3) = SHT_REL" "sh_entsize (the_shdr ?io 3) = of_nat sizeof_Rel"
    by (simp_all add: sizeof_Rel_def)
  from rel_table_short[OF e this] e show ?thesis by force
qed

end
