(* ===== verification/ElfMap.thy ===== *)
theory ElfMap
  imports ReadElfLoad
begin

text \<open>
  The memory map of an ELF file, \<open>mmap_get\<close> and \<open>mmap_sort\<close> of \<open>test/print-elf.c\<close>: one entry
  per program header but the first, per allocated section, per symbol and per relocation, sorted
  by address. The array is a list; its elements before they are written are a parameter. A
  pointer into an ELF table is the block it points into with an index. \<open>None\<close> is undefined
  behaviour or, in the first loop of \<open>mmap_get\<close>, not returning.
\<close>

section \<open>Entries\<close>

datatype mmap_item =
    MET_NONE
  | MET_PHDR nat               \<comment> \<open>index in the program headers\<close>
  | MET_SHDR ptr u32           \<comment> \<open>name: table and offset\<close>
  | MET_SYM ptr u32
  | MET_REL nat "nat option" u64   \<comment> \<open>relocation table, its symbol table, index\<close>

record mmap_entry =
  addr :: Elf64_Addr
  addr_end :: Elf64_Addr
  item :: mmap_item

definition sizeof_mmap_entry :: nat where "sizeof_mmap_entry = 48"

section \<open>Reading the file\<close>

definition get_Sym :: "elf_symbol_table \<Rightarrow> nat \<Rightarrow> Elf64_Sym action" where
  "get_Sym t j = get_element decode_Sym sizeof_Sym (symbols t) j"

text \<open>A relocation table is read from the file or made by \<open>convert_rel_to_rela\<close>.\<close>

definition get_Rela :: "elf_rel_table \<Rightarrow> nat \<Rightarrow> Elf64_Rela action" where
  "get_Rela t j = (\<lambda>h.
     case blocks h (relocations t) of
       Some (Relas rs) \<Rightarrow> if j < length rs then Some (rs ! j, h) else None
     | _ \<Rightarrow> get_element decode_Rela sizeof_Rela (relocations t) j h)"

definition sym_table :: "elf_file \<Rightarrow> nat \<Rightarrow> elf_symbol_table action" where
  "sym_table f k = andThen (get_syms f) (\<lambda>ts h. if k < length ts then Some (ts ! k, h) else None)"

definition rel_table :: "elf_file \<Rightarrow> nat \<Rightarrow> elf_rel_table action" where
  "rel_table f k = andThen (get_rels f) (\<lambda>ts h. if k < length ts then Some (ts ! k, h) else None)"

fun symbol_table_loop :: "elf_file \<Rightarrow> nat \<Rightarrow> nat list \<Rightarrow> nat option action" where
  "symbol_table_loop f ndx [] = ret None"
| "symbol_table_loop f ndx (k # ks) =
     andThen (sym_table f k) (\<lambda>t.
       if sym_section t = Some ndx then ret (Some k) else symbol_table_loop f ndx ks)"

definition get_symbol_table :: "elf_file \<Rightarrow> Elf64_Half \<Rightarrow> nat option action" where
  "get_symbol_table f ndx = symbol_table_loop f (unat ndx) [0..<unat (n_symbol_tables f)]"

text \<open>The C loop \<open>for\<close> over indices, with a state.\<close>

fun for_each :: "(nat \<Rightarrow> 's \<Rightarrow> 's action) \<Rightarrow> nat list \<Rightarrow> 's \<Rightarrow> 's action" where
  "for_each g [] s = ret s"
| "for_each g (i # is) s = andThen (g i s) (for_each g is)"

section \<open>The number of entries\<close>

definition count_alloc :: "elf_file \<Rightarrow> nat \<Rightarrow> Elf64_Xword \<Rightarrow> Elf64_Xword action" where
  "count_alloc f i n = andThen (get_Shdr f i) (\<lambda>s.
     ret (if sh_flags s AND SHF_ALLOC \<noteq> 0 then n + 1 else n))"

definition count_symbols :: "elf_file \<Rightarrow> nat \<Rightarrow> Elf64_Xword \<Rightarrow> Elf64_Xword action" where
  "count_symbols f k n = andThen (sym_table f k) (\<lambda>t. ret (n + ucast (n_symbols t)))"

definition count_relocations :: "elf_file \<Rightarrow> nat \<Rightarrow> Elf64_Xword \<Rightarrow> Elf64_Xword action" where
  "count_relocations f k n = andThen (rel_table f k) (\<lambda>t. ret (n + n_relocations t))"

definition mmap_count :: "elf_file \<Rightarrow> Elf64_Ehdr \<Rightarrow> Elf64_Xword action" where
  "mmap_count f hdr =
     andThen (for_each (count_alloc f) [0..<unat (e_shnum hdr)]
       (if e_phnum hdr \<noteq> 0 then ucast (e_phnum hdr) - 1 else 0)) (\<lambda>n.
     andThen (for_each (count_symbols f) [0..<unat (n_symbol_tables f)] n) (\<lambda>n.
       for_each (count_relocations f) [0..<unat (n_rel_tables f)] n))"

section \<open>Filling the array\<close>

definition empty_entry :: mmap_entry where
  "empty_entry = \<lparr>addr = 0, addr_end = 0, item = MET_NONE\<rparr>"

text \<open>The counter is an \<open>Elf64_Half\<close> and wraps: with more than 65535 entries the loop never ends.\<close>

partial_function (option) init_entries ::
  "Elf64_Xword \<Rightarrow> mmap_entry list \<Rightarrow> Elf64_Half \<Rightarrow> mmap_entry list option" where
  "init_entries n es i =
     (if ucast i < n
      then if unat i < length es then init_entries n (es[unat i := empty_entry]) (i + 1) else None
      else Some es)"

type_synonym fill = "mmap_entry list \<times> nat"

definition put_entry :: "mmap_entry \<Rightarrow> fill \<Rightarrow> fill action" where
  "put_entry e = (\<lambda>(es, k) h. if k < length es then Some ((es[k := e], k + 1), h) else None)"

definition phdr_entry :: "nat \<Rightarrow> Elf64_Phdr \<Rightarrow> mmap_entry" where
  "phdr_entry i p = \<lparr>addr = p_vaddr p, addr_end = p_vaddr p + p_memsz p, item = MET_PHDR i\<rparr>"

definition shdr_entry :: "elf_file \<Rightarrow> Elf64_Shdr \<Rightarrow> mmap_entry" where
  "shdr_entry f s =
     \<lparr>addr = sh_addr s, addr_end = sh_addr s + sh_size s, item = MET_SHDR (section_names f) (sh_name s)\<rparr>"

definition sym_mmap_entry :: "elf_symbol_table \<Rightarrow> Elf64_Sym \<Rightarrow> mmap_entry" where
  "sym_mmap_entry t s =
     \<lparr>addr = st_value s, addr_end = st_value s + st_size s, item = MET_SYM (names t) (st_name s)\<rparr>"

definition rel_mmap_entry :: "nat \<Rightarrow> nat option \<Rightarrow> nat \<Rightarrow> Elf64_Rela \<Rightarrow> mmap_entry" where
  "rel_mmap_entry k st j r =
     \<lparr>addr = r_offset r, addr_end = r_offset r, item = MET_REL k st (of_nat j)\<rparr>"

definition put_phdr :: "elf_file \<Rightarrow> nat \<Rightarrow> fill \<Rightarrow> fill action" where
  "put_phdr f i s = andThen (get_Phdr f i) (\<lambda>p. put_entry (phdr_entry i p) s)"

definition put_shdr :: "elf_file \<Rightarrow> nat \<Rightarrow> fill \<Rightarrow> fill action" where
  "put_shdr f i s = andThen (get_Shdr f i) (\<lambda>sh.
     if sh_flags sh AND SHF_ALLOC = 0 then ret s else put_entry (shdr_entry f sh) s)"

definition put_symbols :: "elf_file \<Rightarrow> nat \<Rightarrow> fill \<Rightarrow> fill action" where
  "put_symbols f k s = andThen (sym_table f k) (\<lambda>t.
     for_each (\<lambda>j s. andThen (get_Sym t j) (\<lambda>y. put_entry (sym_mmap_entry t y) s))
       [0..<unat (n_symbols t)] s)"

definition put_relocations :: "elf_file \<Rightarrow> nat \<Rightarrow> fill \<Rightarrow> fill action" where
  "put_relocations f k s = andThen (rel_table f k) (\<lambda>t.
     case rel_section t of
       None \<Rightarrow> (\<lambda>h. None)
     | Some i \<Rightarrow> andThen (get_Shdr f i) (\<lambda>sh.
         andThen (get_symbol_table f (ucast (sh_link sh))) (\<lambda>st.
           for_each (\<lambda>j s. andThen (get_Rela t j) (\<lambda>r. put_entry (rel_mmap_entry k st j r) s))
             [0..<unat (n_relocations t)] s)))"

definition fill_entries :: "elf_file \<Rightarrow> Elf64_Ehdr \<Rightarrow> fill \<Rightarrow> fill action" where
  "fill_entries f hdr s =
     andThen (for_each (put_phdr f) [1..<unat (e_phnum hdr)] s) (\<lambda>s.
     andThen (for_each (put_shdr f) [0..<unat (e_shnum hdr)] s) (\<lambda>s.
     andThen (for_each (put_symbols f) [0..<unat (n_symbol_tables f)] s) (\<lambda>s.
       for_each (put_relocations f) [0..<unat (n_rel_tables f)] s)))"

text \<open>
  The result is the pointer with the entries behind it, \<open>None\<close> for \<open>NULL\<close>, and \<open>*n_entries\<close>.
  \<open>stale\<close> is what the allocated memory holds.
\<close>

definition mmap_get ::
  "elf_io \<Rightarrow> (nat \<Rightarrow> mmap_entry) \<Rightarrow> elf_file
    \<Rightarrow> ((ptr \<times> mmap_entry list) option \<times> Elf64_Xword) action" where
  "mmap_get io stale f =
     andThen (get_Ehdr (header f)) (\<lambda>hdr.
     andThen (mmap_count f hdr) (\<lambda>n.
     andThen (elf_alloc io (of_nat sizeof_mmap_entry * n)) (\<lambda>p.
       if p = 0 then ret (None, n)
       else (\<lambda>h. case init_entries n (map stale [0..<unat n]) 0 of
           None \<Rightarrow> None
         | Some es \<Rightarrow> andThen (fill_entries f hdr (es, 0)) (\<lambda>(es, _). ret (Some (p, es), n)) h))))"

section \<open>Sorting\<close>

definition mmap_entry_swap :: "mmap_entry list \<Rightarrow> nat \<Rightarrow> nat \<Rightarrow> mmap_entry list" where
  "mmap_entry_swap es a b = es[a := es ! b, b := es ! a]"

text \<open>The inner loop of \<open>mmap_sort\<close> from \<open>j\<close> down, and the outer loop over the next \<open>k\<close> values of \<open>i\<close>.\<close>

fun sort_inner :: "mmap_entry list \<Rightarrow> nat \<Rightarrow> mmap_entry list" where
  "sort_inner es 0 = es"
| "sort_inner es (Suc j) =
     (if \<not> addr (es ! j) > addr (es ! Suc j) then es
      else sort_inner (mmap_entry_swap es (Suc j) j) j)"

fun sort_outer :: "mmap_entry list \<Rightarrow> nat \<Rightarrow> nat \<Rightarrow> mmap_entry list" where
  "sort_outer es i 0 = es"
| "sort_outer es i (Suc k) = sort_outer (sort_inner es i) (Suc i) k"

definition mmap_sort :: "mmap_entry list \<Rightarrow> Elf64_Xword \<Rightarrow> mmap_entry list option" where
  "mmap_sort es n_entries =
     (if unat n_entries \<le> length es then Some (sort_outer es 1 (unat n_entries - 1)) else None)"

text \<open>What the inner loop does: insert after the entries that are not larger.\<close>

definition insert_after :: "mmap_entry \<Rightarrow> mmap_entry list \<Rightarrow> mmap_entry list" where
  "insert_after x ys = filter (\<lambda>y. addr y \<le> addr x) ys @ x # filter (\<lambda>y. addr x < addr y) ys"

lemma swap_adjacent: "mmap_entry_swap (ys @ y # x # zs) (Suc (length ys)) (length ys) = ys @ x # y # zs"
  by (simp add: mmap_entry_swap_def nth_append list_update_append)

lemma sort_inner_insert:
  "sorted (map addr ys) \<Longrightarrow> sort_inner (ys @ x # zs) (length ys) = insert_after x ys @ zs"
proof (induction ys arbitrary: zs rule: rev_induct)
  case (snoc y ys)
  have s: "sorted (map addr ys)" "\<forall>z \<in> set ys. addr z \<le> addr y"
    using snoc.prems by (auto simp: sorted_append)
  have nth: "(ys @ y # x # zs) ! length ys = y" "(ys @ y # x # zs) ! Suc (length ys) = x"
    by (simp_all add: nth_append)
  show ?case
  proof (cases "addr x < addr y")
    case True
    then have "insert_after x (ys @ [y]) = insert_after x ys @ [y]" by (simp add: insert_after_def)
    then show ?thesis using True snoc.IH[OF s(1), of "y # zs"] by (simp add: nth swap_adjacent)
  next
    case False
    then have "\<forall>z \<in> set (ys @ [y]). addr z \<le> addr x" using s(2) by auto
    then have "insert_after x (ys @ [y]) = ys @ [y, x]"
      by (auto simp: insert_after_def filter_empty_conv leD intro!: filter_True)
    then show ?thesis using False by (simp add: nth)
  qed
qed (simp add: insert_after_def)

lemma sorted_insert_after: "sorted (map addr ys) \<Longrightarrow> sorted (map addr (insert_after x ys))"
  by (auto simp: insert_after_def sorted_append sorted_filter)

lemma mset_insert_after: "mset (insert_after x ys) = add_mset x (mset ys)"
  by (simp add: insert_after_def not_le [symmetric])

lemma filter_insert_after:
  "filter (\<lambda>e. addr e = k) (insert_after x ys) = filter (\<lambda>e. addr e = k) (ys @ [x])"
proof (cases "k \<le> addr x")
  case True
  then have "filter (\<lambda>e. addr e \<le> addr x \<and> addr e = k) ys = filter (\<lambda>e. addr e = k) ys"
    "filter (\<lambda>e. addr x < addr e \<and> addr e = k) ys = []"
    by (auto simp: filter_empty_conv intro: filter_cong)
  then show ?thesis by (cases "addr x = k") (simp_all add: insert_after_def)
next
  case False
  then have "filter (\<lambda>e. addr e \<le> addr x \<and> addr e = k) ys = []"
    "filter (\<lambda>e. addr x < addr e \<and> addr e = k) ys = filter (\<lambda>e. addr e = k) ys"
    by (auto simp: filter_empty_conv intro!: filter_cong)
  then show ?thesis using False by (auto simp: insert_after_def)
qed

text \<open>The prefix below \<open>i\<close> is the stably sorted prefix of the array; the rest is untouched.\<close>

lemma sort_inner_step:
  assumes "i < length es"
  shows "sort_inner (sort_key addr (take i es) @ drop i es) i =
    sort_key addr (take (Suc i) es) @ drop (Suc i) es"
proof -
  let ?ys = "sort_key addr (take i es)" and ?x = "es ! i"
  have l: "length ?ys = i" using assms by simp
  have "sort_inner (?ys @ ?x # drop (Suc i) es) (length ?ys) = insert_after ?x ?ys @ drop (Suc i) es"
    by (rule sort_inner_insert) simp
  moreover have "sort_key addr (take i es @ [?x]) = insert_after ?x ?ys"
  proof (rule properties_for_sort_key)
    show "mset (insert_after ?x ?ys) = mset (take i es @ [?x])" by (simp add: mset_insert_after)
    show "filter (\<lambda>e. addr k = addr e) (insert_after ?x ?ys) =
        filter (\<lambda>e. addr k = addr e) (take i es @ [?x])" for k
      using sort_key_stable[of addr "addr k" "take i es"]
      by (simp add: filter_insert_after eq_commute[of "addr k"])
    show "sorted (map addr (insert_after ?x ?ys))" by (simp add: sorted_insert_after)
  qed
  ultimately show ?thesis using assms l by (simp add: Cons_nth_drop_Suc take_Suc_conv_app_nth)
qed

lemma sort_outer_correct:
  "i + k \<le> length es \<Longrightarrow> sort_outer (sort_key addr (take i es) @ drop i es) i k =
    sort_key addr (take (i + k) es) @ drop (i + k) es"
  by (induction k arbitrary: i) (simp_all add: sort_inner_step)

lemma mmap_sort_correct:
  assumes "unat n_entries = length es"
  shows "mmap_sort es n_entries = Some (sort_key addr es)"
proof (cases es)
  case Nil
  then show ?thesis using assms by (simp add: mmap_sort_def)
next
  case (Cons e es')
  have "sort_outer (sort_key addr (take 1 es) @ drop 1 es) 1 (length es - 1) = sort_key addr es"
    using Cons by (subst sort_outer_correct) auto
  then show ?thesis using Cons assms by (simp add: mmap_sort_def)
qed

section \<open>What the map of a loaded file is\<close>

definition symbol_at :: "elf_io \<Rightarrow> nat \<Rightarrow> nat \<Rightarrow> Elf64_Sym" where
  "symbol_at io i j = array_at decode_Sym sizeof_Sym (section_bytes io i) j"

definition rela_at :: "elf_io \<Rightarrow> nat \<Rightarrow> nat \<Rightarrow> Elf64_Rela" where
  "rela_at io i j = array_at decode_Rela sizeof_Rela (section_bytes io i) j"

definition alloc_entries :: "elf_io \<Rightarrow> elf_file \<Rightarrow> nat \<Rightarrow> mmap_entry list" where
  "alloc_entries io f i =
     (if sh_flags (the_shdr io i) AND SHF_ALLOC = 0 then [] else [shdr_entry f (the_shdr io i)])"

definition sym_entries :: "elf_io \<Rightarrow> elf_symbol_table list \<Rightarrow> nat \<Rightarrow> mmap_entry list" where
  "sym_entries io ts k =
     map (\<lambda>j. sym_mmap_entry (ts ! k) (symbol_at io (sections_of io symtab_types ! k) j))
       [0..<unat (n_symbols (ts ! k))]"

definition rel_entries :: "elf_io \<Rightarrow> elf_rel_table list \<Rightarrow> nat \<Rightarrow> mmap_entry list" where
  "rel_entries io rs k =
     (let i = sections_of io rel_types ! k;
          st = find (\<lambda>k. sections_of io symtab_types ! k = link_of io i)
                 [0..<length (sections_of io symtab_types)] in
      map (\<lambda>j. rel_mmap_entry k st j (rela_at io i j)) [0..<unat (n_relocations (rs ! k))])"

definition mmap_of ::
  "elf_io \<Rightarrow> elf_file \<Rightarrow> elf_symbol_table list \<Rightarrow> elf_rel_table list \<Rightarrow> mmap_entry list" where
  "mmap_of io f ts rs =
     map (\<lambda>i. phdr_entry i (the_phdr io i)) [1..<n_phdrs io] @
     concat (map (alloc_entries io f) [0..<n_shdrs io]) @
     concat (map (sym_entries io ts) [0..<length ts]) @
     concat (map (rel_entries io rs) [0..<length rs])"

definition in_view ::
  "elf_io \<Rightarrow> elf_file \<Rightarrow> elf_symbol_table list \<Rightarrow> elf_rel_table list \<Rightarrow> heap \<Rightarrow> bool" where
  "in_view io f ts rs h \<longleftrightarrow> has_ehdr io h f \<and> has_phdrs io h f \<and> has_shdrs io h f \<and>
     tables_ok f ts rs h \<and> has_syms io h ts \<and> has_rels io h rs"

text \<open>Every relocation table is of the kind with addends, with the entry size of its type.\<close>

definition plain_relas :: "elf_io \<Rightarrow> bool" where
  "plain_relas io \<longleftrightarrow> list_all (\<lambda>i. sh_type (the_shdr io i) = SHT_RELA \<and>
     sh_entsize (the_shdr io i) = of_nat sizeof_Rela) (sections_of io rel_types)"

lemma kept_in_view:
  assumes "kept {} h h'" and "in_view io f ts rs h"
  shows "in_view io f ts rs h'"
proof -
  have "has_rels io h' rs"
    using assms unfolding in_view_def has_rels_def
    by (auto simp: rel_entry_def holds_relas_def holds_section_def kept_holds kept_def
        elim!: list_all2_mono split: if_splits)
  moreover have "tables_ok f ts rs h'"
    using assms by (auto simp: in_view_def tables_ok_def kept_def split: if_splits)
  ultimately show ?thesis
    using assms by (auto simp: in_view_def intro: kept_rules)
qed

section \<open>Running the loops\<close>

definition put_at :: "nat \<Rightarrow> 'a list \<Rightarrow> 'a list \<Rightarrow> 'a list" where
  "put_at k xs es = take k es @ xs @ drop (k + length xs) es"

lemma put_at_Nil [simp]: "put_at k [] es = es"
  by (simp add: put_at_def)

lemma length_put_at [simp]: "k + length xs \<le> length es \<Longrightarrow> length (put_at k xs es) = length es"
  by (simp add: put_at_def)

lemma put_at_single: "k < length es \<Longrightarrow> put_at k [x] es = es[k := x]"
  by (simp add: put_at_def upd_conv_take_nth_drop)

lemma put_at_append:
  "k + length xs + length ys \<le> length es \<Longrightarrow>
    put_at (k + length xs) ys (put_at k xs es) = put_at k (xs @ ys) es"
  by (simp add: put_at_def ac_simps)

lemma put_at_all: "length xs = length es \<Longrightarrow> put_at 0 xs es = xs"
  by (simp add: put_at_def)

lemma run_put_entry:
  "k < length es \<Longrightarrow> run (put_entry e (es, k)) h Q = Q (put_at k [e] es, k + 1) h"
  by (simp add: run_def put_entry_def put_at_single)

lemma run_for_fill:
  assumes "\<And>i es k Q. i \<in> set is \<Longrightarrow> k + length (out i) \<le> length es \<Longrightarrow>
      run (g i (es, k)) h Q = Q (put_at k (out i) es, k + length (out i)) h"
    and "k + length (concat (map out is)) \<le> length es"
  shows "run (for_each g is (es, k)) h Q =
    Q (put_at k (concat (map out is)) es, k + length (concat (map out is))) h"
  using assms
proof (induction "is" arbitrary: es k Q)
  case (Cons i "is")
  have "run (for_each g is (put_at k (out i) es, k + length (out i))) h Q =
    Q (put_at (k + length (out i)) (concat (map out is)) (put_at k (out i) es),
       k + length (out i) + length (concat (map out is))) h"
    by (rule Cons.IH) (use Cons.prems in auto)
  then show ?case using Cons.prems by (simp add: put_at_append add.assoc)
qed simp

lemma run_for_count:
  assumes "\<And>i n Q. i \<in> set is \<Longrightarrow> run (g i n) h Q = Q (n + of_nat (c i)) h"
  shows "run (for_each g is n) h Q = Q (n + of_nat (sum_list (map c is)) :: u64) h"
  using assms by (induction "is" arbitrary: n) (simp_all add: add.assoc)

section \<open>Reading a loaded file\<close>

lemma sym_facts:
  assumes "in_view io f ts rs h" and "k < length ts"
  shows "sym_section (ts ! k) = Some (sections_of io symtab_types ! k)"
    and "n_symbols (ts ! k) = ucast (sh_size (the_shdr io (sections_of io symtab_types ! k)) div of_nat sizeof_Sym)"
    and "holds_section io h (symbols (ts ! k)) (sections_of io symtab_types ! k)"
  using assms by (simp_all add: in_view_def has_syms_def list_all2_conv_all_nth sym_entry_def)

lemma rel_facts:
  assumes "in_view io f ts rs h" and "k < length rs"
  shows "rel_section (rs ! k) = Some (sections_of io rel_types ! k)"
    and "n_relocations (rs ! k) = sh_size (the_shdr io (sections_of io rel_types ! k))
      div sh_entsize (the_shdr io (sections_of io rel_types ! k))"
    and "holds_relas io h (relocations (rs ! k)) (sections_of io rel_types ! k)"
  using assms by (simp_all add: in_view_def has_rels_def list_all2_conv_all_nth rel_entry_def)

lemma view_lengths:
  assumes "in_view io f ts rs h"
  shows "length ts = length (sections_of io symtab_types)" "length rs = length (sections_of io rel_types)"
    "unat (n_symbol_tables f) = length ts" "unat (n_rel_tables f) = length rs"
  using assms by (auto simp: in_view_def has_syms_def has_rels_def tables_ok_def dest: list_all2_lengthD)

lemma run_sym_table:
  assumes "in_view io f ts rs h" and "k < length ts"
  shows "run (sym_table f k) h Q = Q (ts ! k) h"
  using assms by (auto simp: run_def sym_table_def andThen_def get_syms_def in_view_def tables_ok_def
      split: if_splits)

lemma run_rel_table:
  assumes "in_view io f ts rs h" and "k < length rs"
  shows "run (rel_table f k) h Q = Q (rs ! k) h"
  using assms by (auto simp: run_def rel_table_def andThen_def get_rels_def in_view_def tables_ok_def
      split: if_splits)

lemma run_element:
  assumes "holds_section io h p i" and "n * (j + 1) \<le> unat (sh_size (the_shdr io i))"
  shows "run (get_element dec n p j) h Q = Q (array_at dec n (section_bytes io i) j) h"
  using assms by (simp add: run_def get_element_def andThen_def bytes_at_def holds_section_def holds_def
      section_bytes_def)

lemma element_bound:
  "j < unat (x div of_nat n) \<Longrightarrow> 0 < n \<Longrightarrow> n < 2 ^ 64 \<Longrightarrow> n * (j + 1) \<le> unat (x :: u64)"
proof -
  assume j: "j < unat (x div of_nat n)" and n: "0 < n" "n < 2 ^ 64"
  have "unat (of_nat n :: u64) = n" using n by (intro unat_of_nat_small) simp
  then have "j + 1 \<le> unat x div n" using j by (simp add: unat_div)
  then show ?thesis using n by (simp add: less_eq_div_iff_mult_less_eq mult.commute)
qed

lemma unat_ucast_le: "unat (ucast (x :: u64) :: u32) \<le> unat x"
  by (simp add: unsigned_ucast_eq)

lemma run_get_Sym:
  assumes "in_view io f ts rs h" and "k < length ts" and "j < unat (n_symbols (ts ! k))"
  shows "run (get_Sym (ts ! k) j) h Q = Q (symbol_at io (sections_of io symtab_types ! k) j) h"
proof -
  let ?sz = "sh_size (the_shdr io (sections_of io symtab_types ! k))"
  have "j < unat (?sz div of_nat sizeof_Sym)"
    using assms(3) sym_facts(2)[OF assms(1,2)] unat_ucast_le[of "?sz div of_nat sizeof_Sym"] by simp
  then have "sizeof_Sym * (j + 1) \<le> unat ?sz" by (rule element_bound) (simp_all add: sizeof_Sym_def)
  then show ?thesis
    unfolding get_Sym_def symbol_at_def by (rule run_element[OF sym_facts(3)[OF assms(1,2)]])
qed

lemma run_get_Rela:
  assumes "in_view io f ts rs h" and "plain_relas io" and "k < length rs"
    and "j < unat (n_relocations (rs ! k))"
  shows "run (get_Rela (rs ! k) j) h Q = Q (rela_at io (sections_of io rel_types ! k) j) h"
proof -
  let ?i = "sections_of io rel_types ! k"
  have p: "sh_type (the_shdr io ?i) = SHT_RELA" "sh_entsize (the_shdr io ?i) = of_nat sizeof_Rela"
    using assms(2,3) view_lengths(2)[OF assms(1)] by (simp_all add: plain_relas_def list_all_length)
  then have d: "holds_section io h (relocations (rs ! k)) ?i"
    using rel_facts(3)[OF assms(1,3)] by (simp add: holds_relas_def)
  have "sizeof_Rela * (j + 1) \<le> unat (sh_size (the_shdr io ?i))"
    using assms(4) unfolding rel_facts(2)[OF assms(1,3)] p(2)
    by (rule element_bound) (simp_all add: sizeof_Rela_def)
  then have "run (get_element decode_Rela sizeof_Rela (relocations (rs ! k)) j) h Q = Q (rela_at io ?i j) h"
    unfolding rela_at_def by (rule run_element[OF d])
  moreover have "get_Rela (rs ! k) j h = get_element decode_Rela sizeof_Rela (relocations (rs ! k)) j h"
    using d by (simp add: get_Rela_def holds_section_def holds_def)
  ultimately show ?thesis by (simp add: run_def)
qed

lemma run_symbol_table_loop:
  assumes "in_view io f ts rs h"
  shows "\<forall>k \<in> set ks. k < length ts \<Longrightarrow> run (symbol_table_loop f ndx ks) h Q =
    Q (find (\<lambda>k. sections_of io symtab_types ! k = ndx) ks) h"
  by (induction ks) (simp_all add: run_sym_table[OF assms] sym_facts(1)[OF assms])

lemma run_get_symbol_table:
  assumes "in_view io f ts rs h"
  shows "run (get_symbol_table f ndx) h Q =
    Q (find (\<lambda>k. sections_of io symtab_types ! k = unat ndx) [0..<length ts]) h"
  unfolding get_symbol_table_def view_lengths(3)[OF assms]
  by (rule run_symbol_table_loop[OF assms]) simp

section \<open>The whole map\<close>

lemma has_headers:
  assumes "in_view io f ts rs h"
  shows "has_ehdr io h f" "has_phdrs io h f" "has_shdrs io h f"
  using assms by (simp_all add: in_view_def)

lemma run_mmap_count:
  assumes v: "in_view io f ts rs h"
  shows "run (mmap_count f (the_ehdr io)) h Q = Q (of_nat (length (mmap_of io f ts rs))) h"
proof -
  have 1: "run (for_each (count_alloc f) [0..<n_shdrs io] n) h Q =
      Q (n + of_nat (length (concat (map (alloc_entries io f) [0..<n_shdrs io])))) h" for n Q
    unfolding length_concat map_map
    by (rule run_for_count)
      (simp add: count_alloc_def run_get_Shdr[OF has_headers(3)[OF v]] alloc_entries_def)
  have 2: "run (for_each (count_symbols f) [0..<length ts] n) h Q =
      Q (n + of_nat (length (concat (map (sym_entries io ts) [0..<length ts])))) h" for n Q
    unfolding length_concat map_map
    by (rule run_for_count) (simp add: count_symbols_def run_sym_table[OF v] sym_entries_def)
  have 3: "run (for_each (count_relocations f) [0..<length rs] n) h Q =
      Q (n + of_nat (length (concat (map (rel_entries io rs) [0..<length rs])))) h" for n Q
    unfolding length_concat map_map
    by (rule run_for_count)
      (simp add: count_relocations_def run_rel_table[OF v] rel_entries_def Let_def)
  have "(if e_phnum (the_ehdr io) \<noteq> 0 then ucast (e_phnum (the_ehdr io)) - 1 else 0 :: u64) =
      of_nat (n_phdrs io - 1)"
    by (simp add: of_nat_diff Suc_le_eq unat_gt_0)
  then show ?thesis
    by (simp only: mmap_count_def run_andThen view_lengths(3,4)[OF v] 1 2 3)
      (simp add: mmap_of_def add.assoc)
qed

lemma half_less_xword: "(ucast (i :: u16) :: u64) < n \<longleftrightarrow> unat i < unat n"
proof -
  have "unat i < 65536" using unsigned_less[of i, where ?'a = nat] by simp
  then have "take_bit 64 (unat i) = unat i" by (intro take_bit_nat_eq_self) simp
  then show ?thesis by (simp add: word_less_nat_alt unsigned_ucast_eq)
qed

lemma init_entries_returns:
  "unat n = length es \<Longrightarrow> unat n < 65536 \<Longrightarrow> \<exists>es'. init_entries n es i = Some es' \<and> length es' = length es"
proof (induction "unat n - unat i" arbitrary: es i rule: less_induct)
  case less
  show ?case
  proof (cases "unat i < unat n")
    case True
    then have "unat (i + 1) = unat i + 1" using less.prems(2) by (simp add: unat_word_ariths)
    then obtain es' where "init_entries n (es[unat i := empty_entry]) (i + 1) = Some es'"
      "length es' = length es"
      using less.hyps[of "i + 1" "es[unat i := empty_entry]"] True less.prems
      by (auto simp: diff_less_mono2)
    then show ?thesis using True less.prems by (subst init_entries.simps) (simp add: half_less_xword)
  next
    case False
    then show ?thesis by (subst init_entries.simps) (simp add: half_less_xword)
  qed
qed

lemma init_entries_endless:
  assumes "65535 < unat n"
  shows "init_entries n es i = None"
proof (rule ccontr)
  assume "init_entries n es i \<noteq> None"
  then obtain r where "init_entries n es i = Some r" by auto
  then have "65535 < unat n \<longrightarrow> False"
  proof (rule init_entries.raw_induct[where P = "\<lambda>n es i r. 65535 < unat n \<longrightarrow> False", rotated])
    fix rec and n :: u64 and es and i :: u16 and r
    assume IH: "\<And>n es i r. rec n es i = Some r \<Longrightarrow> 65535 < unat n \<longrightarrow> False"
      and r: "(if ucast i < n then if unat i < length es then rec n (es[unat i := empty_entry]) (i + 1)
        else None else Some es) = Some r"
    show "65535 < unat n \<longrightarrow> False"
    proof
      assume "65535 < unat n"
      moreover have "unat (i :: u16) \<le> 65535" using unsigned_less[of i, where ?'a = nat] by simp
      ultimately have "(ucast i :: u64) < n" by (simp add: half_less_xword)
      then show False using r IH \<open>65535 < unat n\<close> by (auto split: if_splits)
    qed
  qed
  then show False using assms by simp
qed

lemma run_put_phdr:
  assumes "in_view io f ts rs h" and "i < n_phdrs io" and "k < length es"
  shows "run (put_phdr f i (es, k)) h Q = Q (put_at k [phdr_entry i (the_phdr io i)] es, k + 1) h"
  using assms(3)
  by (simp add: put_phdr_def run_get_Phdr[OF has_headers(2)[OF assms(1)] assms(2)] run_put_entry)

lemma run_put_shdr:
  assumes "in_view io f ts rs h" and "i < n_shdrs io"
    and "k + length (alloc_entries io f i) \<le> length es"
  shows "run (put_shdr f i (es, k)) h Q =
    Q (put_at k (alloc_entries io f i) es, k + length (alloc_entries io f i)) h"
  using assms(3)
  by (auto simp: put_shdr_def run_get_Shdr[OF has_headers(3)[OF assms(1)] assms(2)] run_put_entry
      alloc_entries_def split: if_splits)

lemma run_put_symbols:
  assumes v: "in_view io f ts rs h" and i: "i < length ts"
    and "k + length (sym_entries io ts i) \<le> length es"
  shows "run (put_symbols f i (es, k)) h Q =
    Q (put_at k (sym_entries io ts i) es, k + length (sym_entries io ts i)) h"
proof -
  let ?e = "\<lambda>j. sym_mmap_entry (ts ! i) (symbol_at io (sections_of io symtab_types ! i) j)"
  have c: "concat (map (\<lambda>j. [?e j]) [0..<unat (n_symbols (ts ! i))]) = sym_entries io ts i"
    by (simp add: sym_entries_def concat_map_singleton)
  have "run (for_each (\<lambda>j s. andThen (get_Sym (ts ! i) j) (\<lambda>y. put_entry (sym_mmap_entry (ts ! i) y) s))
      [0..<unat (n_symbols (ts ! i))] (es, k)) h Q =
    Q (put_at k (sym_entries io ts i) es, k + length (sym_entries io ts i)) h"
    unfolding c [symmetric]
    by (rule run_for_fill) (use assms(3) in \<open>simp_all add: run_get_Sym[OF v i] run_put_entry sym_entries_def\<close>)
  then show ?thesis by (simp add: put_symbols_def run_sym_table[OF v i])
qed

lemma run_put_relocations:
  assumes v: "in_view io f ts rs h" and p: "plain_relas io" and i: "i < length rs"
    and "k + length (rel_entries io rs i) \<le> length es"
  shows "run (put_relocations f i (es, k)) h Q =
    Q (put_at k (rel_entries io rs i) es, k + length (rel_entries io rs i)) h"
proof -
  let ?s = "sections_of io rel_types ! i"
  let ?st = "find (\<lambda>k. sections_of io symtab_types ! k = link_of io ?s) [0..<length ts]"
  let ?e = "\<lambda>j. rel_mmap_entry i ?st j (rela_at io ?s j)"
  have c: "concat (map (\<lambda>j. [?e j]) [0..<unat (n_relocations (rs ! i))]) = rel_entries io rs i"
    by (simp add: rel_entries_def Let_def concat_map_singleton view_lengths(1)[OF v])
  have "?s \<in> set (sections_of io rel_types)" using i view_lengths(2)[OF v] by simp
  then have s: "?s < n_shdrs io" by (simp add: sections_of_def)
  have "run (for_each (\<lambda>j s. andThen (get_Rela (rs ! i) j) (\<lambda>r. put_entry (rel_mmap_entry i ?st j r) s))
      [0..<unat (n_relocations (rs ! i))] (es, k)) h Q =
    Q (put_at k (rel_entries io rs i) es, k + length (rel_entries io rs i)) h"
    unfolding c [symmetric]
    by (rule run_for_fill) (use assms(4) in \<open>simp_all add: run_get_Rela[OF v p i] run_put_entry rel_entries_def Let_def\<close>)
  then show ?thesis
    by (simp add: put_relocations_def run_rel_table[OF v i] rel_facts(1)[OF v i] run_get_symbol_table[OF v]
        run_get_Shdr[OF has_headers(3)[OF v] s] link_of_def)
qed

lemma run_fill_entries:
  assumes v: "in_view io f ts rs h" and p: "plain_relas io" and l: "length es = length (mmap_of io f ts rs)"
  shows "run (fill_entries f (the_ehdr io) (es, 0)) h Q =
    Q (mmap_of io f ts rs, length (mmap_of io f ts rs)) h"
proof -
  let ?a = "concat (map (\<lambda>i. [phdr_entry i (the_phdr io i)]) [1..<n_phdrs io])"
  let ?b = "concat (map (alloc_entries io f) [0..<n_shdrs io])"
  let ?c = "concat (map (sym_entries io ts) [0..<length ts])"
  let ?d = "concat (map (rel_entries io rs) [0..<length rs])"
  have m: "mmap_of io f ts rs = ?a @ ?b @ ?c @ ?d" by (simp add: mmap_of_def concat_map_singleton)
  have 1: "run (for_each (put_phdr f) [1..<n_phdrs io] (es, 0)) h Q = Q (put_at 0 ?a es, 0 + length ?a) h" for Q
    by (rule run_for_fill) (use l m in \<open>simp_all add: run_put_phdr[OF v]\<close>)
  have 2: "run (for_each (put_shdr f) [0..<n_shdrs io] (es', k)) h Q = Q (put_at k ?b es', k + length ?b) h"
    if "k + length ?b \<le> length es'" for es' k Q
    by (rule run_for_fill) (use that in \<open>simp_all add: run_put_shdr[OF v]\<close>)
  have 3: "run (for_each (put_symbols f) [0..<length ts] (es', k)) h Q = Q (put_at k ?c es', k + length ?c) h"
    if "k + length ?c \<le> length es'" for es' k Q
    by (rule run_for_fill) (use that in \<open>simp_all add: run_put_symbols[OF v]\<close>)
  have 4: "run (for_each (put_relocations f) [0..<length rs] (es', k)) h Q = Q (put_at k ?d es', k + length ?d) h"
    if "k + length ?d \<le> length es'" for es' k Q
    by (rule run_for_fill) (use that in \<open>simp_all add: run_put_relocations[OF v p]\<close>)
  have len: "length ?a + length ?b + length ?c + length ?d = length es" using l m by simp
  have join: "put_at (k + length xs) ys (put_at k xs es) = put_at k (xs @ ys) es"
    if "k + length xs + length ys \<le> length es" for k xs ys using that by (rule put_at_append)
  show ?thesis
    unfolding fill_entries_def run_andThen 1 view_lengths(3,4)[OF v]
    using len l m join[of 0 ?a ?b] join[of 0 "?a @ ?b" ?c] join[of 0 "?a @ ?b @ ?c" ?d]
      put_at_all[of "mmap_of io f ts rs" es]
    by (simp add: 2 3 4 add.assoc del: length_concat map_concat concat_map_singleton)
qed

text \<open>The number of entries, from the file alone.\<close>

definition mmap_size :: "elf_io \<Rightarrow> nat" where
  "mmap_size io = (n_phdrs io - 1)
     + length (filter (\<lambda>i. sh_flags (the_shdr io i) AND SHF_ALLOC \<noteq> 0) [0..<n_shdrs io])
     + (\<Sum>i\<leftarrow>sections_of io symtab_types.
          unat (ucast (sh_size (the_shdr io i) div of_nat sizeof_Sym) :: Elf64_Word))
     + (\<Sum>i\<leftarrow>sections_of io rel_types.
          unat (sh_size (the_shdr io i) div sh_entsize (the_shdr io i)))"

lemma sum_list_alloc:
  "(\<Sum>i\<leftarrow>is. length (alloc_entries io f i)) =
    length (filter (\<lambda>i. sh_flags (the_shdr io i) AND SHF_ALLOC \<noteq> 0) is)"
  by (induction "is") (simp_all add: alloc_entries_def)

lemma sum_list_nth: "(\<Sum>k\<leftarrow>[0..<length xs]. g (xs ! k)) = (\<Sum>x\<leftarrow>xs. g x)"
  by (simp add: map_nth flip: map_map[of g "(!) xs", unfolded comp_def])

lemma length_mmap_of:
  assumes v: "in_view io f ts rs h"
  shows "length (mmap_of io f ts rs) = mmap_size io"
proof -
  have "(\<Sum>k\<leftarrow>[0..<length ts]. length (sym_entries io ts k)) =
    (\<Sum>k\<leftarrow>[0..<length (sections_of io symtab_types)].
      unat (ucast (sh_size (the_shdr io (sections_of io symtab_types ! k)) div of_nat sizeof_Sym) :: Elf64_Word))"
    using sym_facts(2)[OF v] view_lengths(1)[OF v]
    by (intro arg_cong[where f = sum_list] map_cong) (simp_all add: sym_entries_def)
  moreover have "(\<Sum>k\<leftarrow>[0..<length rs]. length (rel_entries io rs k)) =
    (\<Sum>k\<leftarrow>[0..<length (sections_of io rel_types)].
      unat (sh_size (the_shdr io (sections_of io rel_types ! k)) div
        sh_entsize (the_shdr io (sections_of io rel_types ! k))))"
    using rel_facts(2)[OF v] view_lengths(2)[OF v]
    by (intro arg_cong[where f = sum_list] map_cong) (simp_all add: rel_entries_def Let_def)
  ultimately show ?thesis
    using sum_list_nth[of "\<lambda>i. unat (ucast (sh_size (the_shdr io i) div of_nat sizeof_Sym) :: Elf64_Word)"
        "sections_of io symtab_types"]
      sum_list_nth[of "\<lambda>i. unat (sh_size (the_shdr io i) div sh_entsize (the_shdr io i))"
        "sections_of io rel_types"]
    by (simp add: mmap_of_def mmap_size_def length_concat comp_def sum_list_alloc add.assoc)
qed

lemma loaded_view:
  assumes "loaded io h0 f h"
  obtains ts rs where "in_view io f ts rs h" and "heap_ok h"
  using assms by (auto simp: loaded_def in_view_def file_ok_def owns_def)

text \<open>
  The end of \<open>print_elf_file\<close> of \<open>test/readelf.c\<close>, with the flag for the memory map set: the
  array that \<open>mmap_print\<close> gets, \<open>None\<close> when nothing is printed.
\<close>

definition ET_EXEC :: Elf64_Half where [elf_consts]: "ET_EXEC = 2"
definition ET_DYN :: Elf64_Half where [elf_consts]: "ET_DYN = 3"

definition show_memory_map ::
  "elf_io \<Rightarrow> (nat \<Rightarrow> mmap_entry) \<Rightarrow> elf_file \<Rightarrow> mmap_entry list option action" where
  "show_memory_map io stale f =
     andThen (get_Ehdr (header f)) (\<lambda>hdr.
       if e_type hdr \<noteq> ET_EXEC \<and> e_type hdr \<noteq> ET_DYN then ret None
       else andThen (mmap_get io stale f) (\<lambda>(r, n).
         case r of
           None \<Rightarrow> ret None
         | Some (p, es) \<Rightarrow>
             (case mmap_sort es n of
                None \<Rightarrow> (\<lambda>h. None)
              | Some es \<Rightarrow> andThen (elf_free p) (\<lambda>_. ret (Some es)))))"

text \<open>What a call of \<open>mmap_get\<close> may return.\<close>

definition lists_map ::
  "elf_io \<Rightarrow> elf_file \<Rightarrow> heap \<Rightarrow> (ptr \<times> mmap_entry list) option \<times> Elf64_Xword \<Rightarrow> heap \<Rightarrow> bool" where
  "lists_map io f h = (\<lambda>(r, n) h'. unat n = mmap_size io \<and>
     (case r of
        None \<Rightarrow> blocks h' = blocks h \<and> (\<exists>k. \<not> io_alloc io k (of_nat sizeof_mmap_entry * n))
      | Some (p, es) \<Rightarrow> owns h (blk p) h' \<and> length es = mmap_size io \<and>
          (\<exists>ts rs. tables_ok f ts rs h \<and> es = mmap_of io f ts rs)))"

lemma run_mmap_get:
  assumes v: "in_view io f ts rs h" and p: "plain_relas io" and s: "mmap_size io < 65536"
    and ok: "heap_ok h"
  shows "run (mmap_get io stale f) h (lists_map io f h)"
proof -
  let ?n = "of_nat (mmap_size io) :: u64"
  have n: "unat ?n = mmap_size io" using s by (intro unat_of_nat_small) simp
  have alloc: "run (elf_alloc io (of_nat sizeof_mmap_entry * ?n)) h (\<lambda>q h'.
      owns h (blk q) h' \<and> kept {} h h' \<and>
      (q = 0 \<longrightarrow> (\<exists>k. \<not> io_alloc io k (of_nat sizeof_mmap_entry * ?n))))"
    using run_elf_alloc[OF owns_start[OF ok], of io "of_nat sizeof_mmap_entry * ?n"]
    by (rule run_mono) auto
  have fill: "run (\<lambda>h. case init_entries ?n (map stale [0..<unat ?n]) 0 of
        None \<Rightarrow> None
      | Some es \<Rightarrow> andThen (fill_entries f (the_ehdr io) (es, 0)) (\<lambda>(es, _). ret (Some (q, es), ?n)) h)
      h' (lists_map io f h)"
    if q: "owns h (blk q) h'" and k: "kept {} h h'" for q h'
  proof -
    obtain es where es: "init_entries ?n (map stale [0..<unat ?n]) 0 = Some es" "length es = mmap_size io"
      using init_entries_returns[of ?n "map stale [0..<unat ?n]" 0] n s by auto
    have "run (fill_entries f (the_ehdr io) (es, 0)) h' Q = Q (mmap_of io f ts rs, mmap_size io) h'" for Q
      using run_fill_entries[OF kept_in_view[OF k v] p, of es] es(2) length_mmap_of[OF v] by simp
    then have "run (andThen (fill_entries f (the_ehdr io) (es, 0)) (\<lambda>(es, _). ret (Some (q, es), ?n))) h'
        (lists_map io f h)"
      using q n v length_mmap_of[OF v] by (auto simp: lists_map_def in_view_def)
    then show ?thesis by (simp add: run_def es(1))
  qed
  show ?thesis
    unfolding mmap_get_def run_andThen run_get_Ehdr[OF has_headers(1)[OF v]]
      run_mmap_count[OF v] length_mmap_of[OF v]
    by (rule run_mono[OF alloc]) (use n fill in \<open>auto simp: lists_map_def dest: owns_none\<close>)
qed

definition shows_map :: "elf_io \<Rightarrow> elf_file \<Rightarrow> heap \<Rightarrow> mmap_entry list option \<Rightarrow> heap \<Rightarrow> bool" where
  "shows_map io f h r h' \<longleftrightarrow> blocks h' = blocks h \<and>
     (case r of
        None \<Rightarrow> e_type (the_ehdr io) \<notin> {ET_EXEC, ET_DYN} \<or> (\<exists>k n. \<not> io_alloc io k n)
      | Some es \<Rightarrow> length es = mmap_size io \<and>
          (\<exists>ts rs. tables_ok f ts rs h \<and> es = sort_key addr (mmap_of io f ts rs)))"

lemma run_show_memory_map:
  assumes v: "in_view io f ts rs h" and p: "plain_relas io" and s: "mmap_size io < 65536"
    and ok: "heap_ok h"
  shows "run (show_memory_map io stale f) h (shows_map io f h)"
proof (cases "e_type (the_ehdr io) \<in> {ET_EXEC, ET_DYN}")
  case False
  then show ?thesis
    by (simp add: show_memory_map_def run_get_Ehdr[OF has_headers(1)[OF v]] shows_map_def)
next
  case True
  have "run (case x of (None, n) \<Rightarrow> ret None
      | (Some (p, es), n) \<Rightarrow> (case mmap_sort es n of
          None \<Rightarrow> (\<lambda>h. None)
        | Some es \<Rightarrow> andThen (elf_free p) (\<lambda>_. ret (Some es)))) h' (shows_map io f h)"
    if l: "lists_map io f h x h'" for x h'
  proof -
    obtain r n where x: "x = (r, n)" by (cases x)
    show ?thesis
    proof (cases r)
      case None
      then show ?thesis using l by (auto simp: x lists_map_def shows_map_def)
    next
      case (Some q)
      obtain p es where q: "q = (p, es)" by (cases q)
      have o: "owns h (blk p) h'" and n: "unat n = length es"
        and es: "\<exists>ts rs. tables_ok f ts rs h \<and> es = mmap_of io f ts rs" "length es = mmap_size io"
        using l by (auto simp: x Some q lists_map_def)
      have "run (elf_free p) h' (\<lambda>_ h''. blocks h'' = blocks h)"
        using o by (auto intro: run_mono[OF run_elf_free[of h p "{#}"]] dest: owns_none)
      then have "run (elf_free p) h' (\<lambda>_. shows_map io f h (Some (sort_key addr es)))"
        by (rule run_mono) (use es in \<open>auto simp: shows_map_def\<close>)
      then show ?thesis by (simp add: x Some q mmap_sort_correct[OF n])
    qed
  qed
  then show ?thesis
    using True unfolding show_memory_map_def run_andThen run_get_Ehdr[OF has_headers(1)[OF v]]
    by (auto intro: run_mono[OF run_mmap_get[OF v p s ok]] simp: case_prod_beta)
qed


lemma sample_mmap:
  "plain_relas (sample_file t True)" "mmap_size (sample_file t True) = 2"
proof -
  show "plain_relas (sample_file t True)"
    by (simp add: plain_relas_def sample_sections sizeof_Rela_def)
  have "sh_flags (the_shdr (sample_file t True) i) = 0" if "i < 4" for i
    using that by (simp add: sample_shdr_eq sample_shdrs_def sample_shdr_def nth_Cons' split: if_splits)
  then have "filter (\<lambda>i. sh_flags (the_shdr (sample_file t True) i) AND SHF_ALLOC \<noteq> 0) [0..<4] = []"
    by (auto simp: filter_empty_conv)
  then show "mmap_size (sample_file t True) = 2"
    by (simp add: mmap_size_def sample_sections sizeof_Sym_def)
qed


text \<open>The first loop of \<open>mmap_get\<close>, which clears the new array, returns exactly when there are at
most 65535 entries: its counter is 16 bits wide and the number of entries 64.\<close>

theorem init_entries_returns_iff:
  assumes "unat n = length es"
  shows "(\<exists>es'. init_entries n es i = Some es') \<longleftrightarrow> length es < 65536"
  using init_entries_returns[OF assms, of i] init_entries_endless[of n es i] assms
  by (cases "length es < 65536") auto

theorem init_entries_returns_iff_witness:
  "\<exists>es'. init_entries 2 [empty_entry, empty_entry] 0 = Some es'"
  using init_entries_returns_iff[of 2 "[empty_entry, empty_entry]" 0] by simp

text \<open>C24: \<open>mmap_sort\<close> is the stable sort by address: for an array of \<open>n_entries\<close> elements it computes
\<open>sort_key addr\<close>, so the entries of one address keep the order of \<open>mmap_get\<close> (segments before
sections before symbols).\<close>

theorem mmap_sort_stable:
  assumes "unat n_entries = length es"
  shows "mmap_sort es n_entries = Some (sort_key addr es)"
  using assms by (rule mmap_sort_correct)

theorem mmap_sort_stable_witness:
  "mmap_sort [empty_entry\<lparr>addr := 5\<rparr>, empty_entry, empty_entry\<lparr>addr := 5, addr_end := 6\<rparr>] 3 =
    Some [empty_entry, empty_entry\<lparr>addr := 5\<rparr>, empty_entry\<lparr>addr := 5, addr_end := 6\<rparr>]"
  by (subst mmap_sort_stable) (simp_all add: empty_entry_def)

end
