(* ===== verification/ElfTools.thy ===== *)
theory ElfTools
  imports Console
begin

text \<open>
  The columns of the ELF listings of \<open>test/print-elf.c\<close> that come from the name tables of
  \<open>include/elf.h\<close>, and the hash table of \<open>lib/elf.c\<close> with its listing. The output is the list
  of the calls of \<open>printf\<close>, as in \<open>Console\<close>; \<open>None\<close> is a read outside a table.
\<close>

section \<open>Columns\<close>

definition print_phdr_type :: "Elf64_Word \<Rightarrow> print_call option" where
  "print_phdr_type type =
     (if type < PT_NUM then
        map_option (\<lambda>n. (''%-8s '', [n])) (name_arg (name_at elf_segment_type_str (unat type)))
      else if PT_GNU_STACK \<le> type \<and> type \<le> PT_GNU_RELRO then
        map_option (\<lambda>n. (''%-8s '', [n]))
          (name_arg (name_at elf_segment_type_str (unat (PT_NUM + type - PT_GNU_STACK))))
      else Some (''%-8x '', [Num (ucast type)]))"

definition print_phdr_flags :: "Elf64_Word \<Rightarrow> print_call" where
  "print_phdr_flags flags =
     (''%c%c%c '',
      [Chr (if flags AND PF_R \<noteq> 0 then CHR ''R'' else CHR '' ''),
       Chr (if flags AND PF_W \<noteq> 0 then CHR ''W'' else CHR '' ''),
       Chr (if flags AND PF_X \<noteq> 0 then CHR ''X'' else CHR '' '')])"

text \<open>\<open>FLAG\<close>: the fifth character of the name of the flag.\<close>

definition section_flags :: flags where
  "section_flags =
     [(''SHF_COMPRESSED'', push_bit 11 1), (''SHF_TLS'', push_bit 10 1), (''SHF_GROUP'', push_bit 9 1),
      (''SHF_OS_NONCONFORMING'', push_bit 8 1), (''SHF_LINK_ORDER'', push_bit 7 1),
      (''SHF_STRINGS'', push_bit 5 1), (''SHF_MERGE'', push_bit 3 1), (''SHF_EXECINSTR'', push_bit 2 1),
      (''SHF_ALLOC'', push_bit 1 1), (''SHF_WRITE'', push_bit 0 1)]"

definition section_flags_text :: "Elf64_Xword \<Rightarrow> string" where
  "section_flags_text f = map (\<lambda>(n, m). if f AND m \<noteq> 0 then n ! 4 else CHR '' '') section_flags"

definition SHT_LOOS :: Elf64_Word where [elf_consts]: "SHT_LOOS = 0x60000000"
definition SHT_HIOS :: Elf64_Word where [elf_consts]: "SHT_HIOS = 0x6fffffff"
definition SHT_LOPROC :: Elf64_Word where [elf_consts]: "SHT_LOPROC = 0x70000000"
definition SHT_HIPROC :: Elf64_Word where [elf_consts]: "SHT_HIPROC = 0x7fffffff"

definition print_section_type :: "Elf64_Word \<Rightarrow> print_call option" where
  "print_section_type type =
     (if type \<le> SHT_NUM then
        map_option (\<lambda>n. (''%-18s '', [n])) (name_arg (name_at elf_section_type_str (unat type)))
      else if SHT_LOOS \<le> type \<and> type \<le> SHT_HIOS then Some (''%-18s '', [Lit ''OS-specific''])
      else if SHT_LOPROC \<le> type \<and> type \<le> SHT_HIPROC then
        Some (''%-18s '', [Lit ''Processor-specific''])
      else Some (''%#-10x         '', [Num (ucast type)]))"

text \<open>The tag is signed, and so is its comparison with \<open>DT_MAX\<close>.\<close>

definition DT_MAX :: int where "DT_MAX = 28"

definition print_dyn_tag :: "Elf64_Sxword \<Rightarrow> print_call option" where
  "print_dyn_tag tag =
     (if sint tag \<le> DT_MAX then
        if sint tag < 0 then None
        else map_option (\<lambda>n. (''%-12s '', [n])) (name_arg (name_at elf_dyn_tag_str (nat (sint tag))))
      else Some (''%#-12lx '', [Num tag]))"

definition print_symbol_binding :: "Elf64_Sym \<Rightarrow> print_call list option" where
  "print_symbol_binding s =
     (let binding = unat (ELF_SYMBOL_BINDING s) in
      if binding < 3 then
        map_option (\<lambda>n. [(''%-11s '', [n])]) (name_arg (name_at elf_symbol_binding_str binding))
      else if 10 \<le> binding \<and> binding \<le> 12 then Some [(''%-11s '', [Lit ''OS-specific''])]
      else if 13 \<le> binding \<and> binding \<le> 15 then Some [(''%-11s '', [Lit ''Proc''])]
      else Some [])"

definition print_symbol_type :: "Elf64_Sym \<Rightarrow> print_call list option" where
  "print_symbol_type s =
     (let type = unat (ELF_SYMBOL_TYPE s) in
      if type < 7 then
        map_option (\<lambda>n. [(''%-11s '', [n])]) (name_arg (name_at elf_symbol_type_str type))
      else if 10 \<le> type \<and> type \<le> 12 then Some [(''%-11s '', [Lit ''OS-specific''])]
      else if 13 \<le> type \<and> type \<le> 15 then Some [(''%-11s '', [Lit ''Proc''])]
      else Some [])"

definition print_relocation_type :: "Elf64_Rela \<Rightarrow> print_call option" where
  "print_relocation_type r =
     map_option (\<lambda>n. (''%-15s '', [n]))
       (name_arg (name_at elf_relocation_type_str (unat (ELF64_R_TYPE (r_info r)))))"

text \<open>The addend is printed as a sign and an unsigned magnitude.\<close>

definition print_addend :: "Elf64_Rela \<Rightarrow> print_call" where
  "print_addend r =
     (''%c%#lx'',
      [Chr (if sint (r_addend r) < 0 then CHR ''-'' else CHR '' ''),
       Num (if sint (r_addend r) < 0 then - r_addend r else r_addend r)])"

section \<open>Hash tables\<close>

record elf_hash_table =
  nbucket :: Elf64_Word
  nchain :: Elf64_Word
  buckets :: u64
  chains :: u64
  hash_symbols :: u64
  hash_strings :: u64

text \<open>\<open>rd\<close> reads a 32-bit word of the memory.\<close>

definition init_hash_table :: "(u64 \<Rightarrow> u32) \<Rightarrow> u64 \<Rightarrow> u64 \<Rightarrow> u64 \<Rightarrow> elf_hash_table" where
  "init_hash_table rd a syms strs =
     (let nb = rd a; nc = rd (a + 4); bs = a + 8 in
      \<lparr>nbucket = nb, nchain = nc, buckets = bs, chains = bs + 4 * ucast nb,
       hash_symbols = syms, hash_strings = strs\<rparr>)"

text \<open>The symbols \<open>print_hash_table\<close> prints, by index; the inner loop may run on for ever.\<close>

partial_function (option) print_chain :: "(u64 \<Rightarrow> u32) \<Rightarrow> u64 \<Rightarrow> Elf64_Word list option" where
  "print_chain rd k =
     (if rd k = 0 then Some []
      else Option.bind (print_chain rd (k + 4)) (\<lambda>ks. Some (rd k # ks)))"

fun print_buckets :: "(u64 \<Rightarrow> u32) \<Rightarrow> elf_hash_table \<Rightarrow> nat list \<Rightarrow> Elf64_Word list option" where
  "print_buckets rd t [] = Some []"
| "print_buckets rd t (i # is) =
     (let j = rd (buckets t + 4 * of_nat i) in
      if j = 0 then print_buckets rd t is
      else case print_chain rd (chains t + 4 * of_nat i) of
             None \<Rightarrow> None
           | Some ks \<Rightarrow> map_option (\<lambda>js. j # ks @ js) (print_buckets rd t is))"

definition print_hash_table :: "(u64 \<Rightarrow> u32) \<Rightarrow> elf_hash_table \<Rightarrow> Elf64_Word list option" where
  "print_hash_table rd t = print_buckets rd t [0..<unat (nbucket t)]"

text \<open>
  The chain of a bucket according to the ELF specification: the symbol index of the bucket, then
  the element of the chain array with that index, until 0. A chain has at most \<open>nchain\<close> symbols.
\<close>

fun spec_chain :: "(u64 \<Rightarrow> u32) \<Rightarrow> elf_hash_table \<Rightarrow> nat \<Rightarrow> Elf64_Word \<Rightarrow> Elf64_Word list" where
  "spec_chain rd t 0 j = []"
| "spec_chain rd t (Suc n) j =
     (if j = 0 then [] else j # spec_chain rd t n (rd (chains t + 4 * ucast j)))"

definition spec_hash_symbols :: "(u64 \<Rightarrow> u32) \<Rightarrow> elf_hash_table \<Rightarrow> Elf64_Word list" where
  "spec_hash_symbols rd t =
     concat (map (\<lambda>i. spec_chain rd t (unat (nchain t)) (rd (buckets t + 4 * of_nat i)))
       [0..<unat (nbucket t)])"

section \<open>Properties\<close>

lemma name_args:
  "name_arg (name_at elf_section_type_str i) = None \<longleftrightarrow> 16 \<le> i"
  "name_arg (name_at elf_dyn_tag_str i) = None \<longleftrightarrow> 29 \<le> i"
  "name_arg (name_at elf_relocation_type_str i) = None \<longleftrightarrow> 43 \<le> i"
  using name_at_relocation[of i]
  by (auto simp: name_arg_def elf_section_type_str_def elf_dyn_tag_str_def name_at_names_from
      split: name_cell.splits)

text \<open>Where the listings of \<open>test/print-elf.c\<close> read outside a table of names: for the section type
\<open>SHT_NUM\<close>, one past the last name; for a negative dynamic tag, because the comparison with
\<open>DT_MAX\<close> is signed; and for every relocation type beyond the last, which is not checked at all.\<close>

theorem listing_columns_outside:
  "(print_section_type t = None \<longleftrightarrow> t = SHT_NUM) \<and>
   (print_dyn_tag tag = None \<longleftrightarrow> sint tag < 0) \<and>
   (print_relocation_type r = None \<longleftrightarrow> 43 \<le> ELF64_R_TYPE (r_info r))"
proof (intro conjI)
  show "print_section_type t = None \<longleftrightarrow> t = SHT_NUM"
    using name_args(1)[of "unat t"]
    by (auto simp: print_section_type_def elf_consts word_le_nat_alt word_unat_eq_iff)
  have "29 \<le> nat (sint tag) \<longleftrightarrow> 29 \<le> sint tag" by arith
  then show "print_dyn_tag tag = None \<longleftrightarrow> sint tag < 0"
    using name_args(2)[of "nat (sint tag)"] by (auto simp: print_dyn_tag_def DT_MAX_def)
  show "print_relocation_type r = None \<longleftrightarrow> 43 \<le> ELF64_R_TYPE (r_info r)"
    using name_args(3) by (simp add: print_relocation_type_def word_le_nat_alt)
qed

text \<open>Words of a hash table at \<open>a\<close>: the two lengths, the buckets, the chains.\<close>

definition hash_words :: "(u64 \<Rightarrow> u32) \<Rightarrow> u64 \<Rightarrow> u32 list \<Rightarrow> u32 list \<Rightarrow> bool" where
  "hash_words rd a bs cs \<longleftrightarrow>
     (\<forall>k < length bs + length cs + 2.
        rd (a + 4 * of_nat k) = ([of_nat (length bs), of_nat (length cs)] @ bs @ cs) ! k)"

text \<open>\<open>init_hash_table\<close> finds the parts of a hash table as the ELF specification lays it out: the
lengths, and behind \<open>buckets\<close> and \<open>chains\<close> the elements of the two arrays.\<close>

theorem hash_table_found:
  assumes "hash_words rd a bs cs" and "length bs < 2 ^ 32" and "length cs < 2 ^ 32"
  shows "let t = init_hash_table rd a syms strs in
    unat (nbucket t) = length bs \<and> unat (nchain t) = length cs \<and>
    map (\<lambda>i. rd (buckets t + 4 * of_nat i)) [0..<length bs] = bs \<and>
    map (\<lambda>i. rd (chains t + 4 * of_nat i)) [0..<length cs] = cs"
proof -
  have w: "rd (a + 4 * of_nat k) = ([of_nat (length bs), of_nat (length cs)] @ bs @ cs) ! k"
    if "k < length bs + length cs + 2" for k using assms(1) that by (simp add: hash_words_def)
  have n: "rd a = of_nat (length bs)" "rd (a + 4) = of_nat (length cs)"
    using w[of 0] w[of 1] by simp_all
  have u: "unat (of_nat (length bs) :: u32) = length bs" "unat (of_nat (length cs) :: u32) = length cs"
    using assms(2,3) by (auto intro: unat_of_nat_small)
  have c: "(ucast (of_nat (length bs) :: u32) :: u64) = of_nat (length bs)"
    using u(1) by (metis of_nat_unat ucast_eq unsigned_of_nat)
  have b: "rd (a + 8 + 4 * of_nat i) = bs ! i" if "i < length bs" for i
    using w[of "i + 2"] that by (simp add: nth_append algebra_simps)
  have ch: "rd (a + 8 + 4 * of_nat (length bs) + 4 * of_nat j) = cs ! j" if "j < length cs" for j
    using w[of "length bs + j + 2"] that by (simp add: nth_append algebra_simps)
  show ?thesis
    using b ch by (auto simp: init_hash_table_def Let_def n u c intro!: nth_equalityI)
qed

text \<open>A table of one bucket with the chain 2, 1: the chain array is 0, 0, 1.\<close>

definition sample_words :: "u64 \<Rightarrow> u32" where
  "sample_words a = (if a = 0 then 1 else if a = 4 then 3 else if a = 8 then 2 else if a = 20 then 1 else 0)"

lemma sample_hash_words: "hash_words sample_words 0 [2] [0, 0, 1]"
proof -
  have "sample_words (0 + 4 * of_nat k) =
      ([of_nat (length [2 :: u32]), of_nat (length [0 :: u32, 0, 1])] @ [2] @ [0, 0, 1]) ! k"
    if "k < 6" for k
  proof -
    consider "k = 0" | "k = 1" | "k = 2" | "k = 3" | "k = 4" | "k = 5" using \<open>k < 6\<close> by linarith
    then show ?thesis by cases (simp_all add: sample_words_def)
  qed
  then show ?thesis by (simp add: hash_words_def)
qed

theorem hash_table_found_witness:
  "let t = init_hash_table sample_words 0 0x1000 0x2000 in
    unat (nbucket t) = length [2 :: u32] \<and> unat (nchain t) = length [0, 0, 1 :: u32] \<and>
    map (\<lambda>i. sample_words (buckets t + 4 * of_nat i)) [0..<length [2 :: u32]] = [2] \<and>
    map (\<lambda>i. sample_words (chains t + 4 * of_nat i)) [0..<length [0, 0, 1 :: u32]] = [0, 0, 1]"
  by (rule hash_table_found[OF sample_hash_words]) simp_all

text \<open>\<open>print_hash_table\<close> does not follow the chains: it reads the chain array from the index of the
bucket on. For a table with the single chain 2, 1 it prints only symbol 2.\<close>

theorem print_hash_table_misses:
  "let t = init_hash_table sample_words 0 0x1000 0x2000 in
    print_hash_table sample_words t = Some [2] \<and> spec_hash_symbols sample_words t = [2, 1]"
proof -
  have "print_chain sample_words 12 = Some []"
    by (subst print_chain.simps) (simp add: sample_words_def)
  then show ?thesis
    by (simp add: print_hash_table_def spec_hash_symbols_def init_hash_table_def Let_def sample_words_def)
      (simp add: numeral_3_eq_3 sample_words_def)
qed

end
