(* ===== verification/Spec2Isabelle.thy ===== *)
theory Spec2Isabelle
  imports CString Elf PageTable System Printf Console ElfMap ElfTools
begin

text \<open>
  A model of SctOs: a small x86-64 operating system with its UEFI boot loader, its runtime library
  and its ELF tools.

  \<^bold>\<open>The program.\<close> The firmware starts \<open>efi_main\<close> (\<open>efi/opsys-loader.c\<close>). It installs itself as a
  boot option (\<open>efi/efivars.c\<close>, \<open>efi/efi-wrapper.c\<close>), allocates pages for a stack, for
  \<open>bootloader_data\<close> and for the kernel's first free memory, takes the firmware's memory map, loads
  the kernel file segment by segment (\<open>efi/efi-readelf.c\<close>), builds page tables, ends the boot
  services, merges the memory map and jumps to \<open>efi_main2\<close> on the new stack. That switches to the
  page tables, applies the relocations of the kernel and jumps to \<open>kernel_main\<close> (\<open>src/entry.c\<close>). The
  kernel clears its \<open>.bss\<close>, sets up the descriptor tables and the APIC (\<open>src/x86.c\<close>, \<open>src/gdt.c\<close>),
  puts the free pages on its list (\<open>src/virtual-memory.c\<close>) and jumps to \<open>main2\<close>, which builds an
  address space of its own, switches to it, raises two interrupts (\<open>src/stubs.S\<close>,
  \<open>src/interrupts.c\<close>) and shuts down. The library is \<open>lib/string.c\<close>, \<open>lib/generic_printf.c\<close> and the ELF
  reader \<open>lib/readelf.c\<close>, which the tools under \<open>test/\<close> use.

  \<^bold>\<open>Machine.\<close> An address is a 64-bit word and arithmetic on it wraps. Memory is a total function from
  addresses to bytes; a C integer is a word of its width; a pointer to a structure is an address
  where the code depends on the bytes and a value where it does not. Code that may stop the machine
  returns \<open>Inl\<close> of the way it stopped (\<open>halt\<close>, or the exit with a firmware status) or \<open>Inr\<close> of its
  value. \<open>option\<close> is used for undefined behaviour and for not returning.

  \<^bold>\<open>Theories\<close>, with the source they model:

  \<^item> \<open>Prelude\<close>, \<open>Bytes\<close>: word types, results, rules on words and lists; byte memory with
    little-endian loads and stores.
  \<^item> \<open>CString\<close> (\<open>lib/string.c\<close>): each routine with its effect on memory; overlap in \<open>memmove\<close>, the
    bounds of the string routines, the overrun of \<open>strncpy\<close>.
  \<^item> \<open>Printf\<close> (\<open>lib/generic_printf.c\<close>): the formatter as a state machine over the format, its local
    buffers and variable arguments; it writes the text that the items of the format stand for, and
    a call returns exactly when it has the arguments its format asks for.
  \<^item> \<open>Elf\<close>, \<open>ElfNames\<close> (\<open>include/elf.h\<close>): the structures with their byte layout, and the name tables.
  \<^item> \<open>ReadElf\<close>, \<open>ReadElfTables\<close>, \<open>ReadElfLoad\<close> (\<open>lib/readelf.c\<close>, \<open>test/glibc-readelf.c\<close>): the reader
    over a heap of blocks; who owns which block; the locale \<open>elf_reader\<close> with the laws of \<open>elf_read\<close>
    and \<open>elf_alloc\<close>, which the reader of the test program is shown to keep; loading is complete or
    leaves nothing behind.
  \<^item> \<open>ElfMap\<close>, \<open>ElfTools\<close> (\<open>test/print-elf.c\<close>, \<open>test/readelf.c\<close>, \<open>lib/elf.c\<close>): the memory map of a
    loaded file and its stable sort, the columns taken from name tables, the hash table.
  \<^item> \<open>X86\<close> (\<open>include/opsys/x86.h\<close>, \<open>src/gdt.c\<close>, \<open>src/x86.c\<close>): descriptors, tables, exceptions.
  \<^item> \<open>Interrupts\<close> (\<open>src/stubs.S\<close>, \<open>src/asm-util.h\<close>, \<open>src/interrupts.c\<close>, \<open>test/gen-vectors.c\<close>): the
    path of an interrupt from the processor's pushes to \<open>iretq\<close>.
  \<^item> \<open>BootData\<close> (\<open>include/opsys/bootloader_data.h\<close>): what the loader hands over, the kernel's state.
  \<^item> \<open>Paging\<close> (\<open>include/opsys/virtual-memory.h\<close>), \<open>PageTable\<close>, \<open>Spaces\<close>: page arithmetic; four-level
    tables as trees in memory, the locale \<open>page_store\<close> for memory and page allocator, and the
    refinement of a partial map from addresses to entries, proved once for every such store.
  \<^item> \<open>PageAlloc\<close>, \<open>AddressSpace\<close> (\<open>src/virtual-memory.c\<close>): the free list, as an instance of the
    locale \<open>page_stack\<close>; \<open>map_page\<close>, \<open>map_range\<close>, \<open>set_vpage_ro\<close>, \<open>new_address_space\<close>.
  \<^item> \<open>Entry\<close>, \<open>KernelRun\<close> (\<open>src/entry.c\<close>): \<open>kernel_main\<close> and \<open>main2\<close>, up to the switch and to the end.
  \<^item> \<open>Loader\<close>, \<open>KernelImage\<close>, \<open>ImageHeaders\<close>, \<open>MmapInit\<close>, \<open>Relocate\<close>, \<open>Boot\<close>, \<open>EfiMain\<close>
    (\<open>efi/opsys-loader.c\<close>, \<open>efi/efi-readelf.c\<close>, \<open>efi/setup_new_stack.S\<close>): the boot page tables, the
    kernel image and the headers inside it, the memory map, the relocations, and their composition.
  \<^item> \<open>System\<close>: loader and kernel composed (\<open>system_run\<close>): the memory that the boot page tables show is
    the kernel of the file, what the loader hands over is what \<open>kernel_main\<close> needs, and the run ends
    in the shut-down request.
  \<^item> \<open>DevicePath\<close>, \<open>EfiVars\<close> (\<open>efi/efi-wrapper.c\<close>, \<open>efi/efivars.c\<close>): device paths, load options, the
    scan of the EFI variables and the installation of the boot option.
  \<^item> \<open>Console\<close> (\<open>efi/opsys-loader.c\<close>, \<open>efi/efi-wrapper.c\<close>): what the loader prints, as the list of
    its calls of \<open>Print\<close>.

  \<^bold>\<open>Interfaces.\<close> The page-table code of kernel and loader is one development over the locale
  \<open>page_store\<close> (a store of quadwords and an allocator of table pages); the kernel instantiates it with
  the direct map and its free list, the loader with the identity map and the firmware's pages. The
  laws of the free list are the locale \<open>page_stack\<close>, those of a file reader \<open>elf_reader\<close>.

  \<^bold>\<open>What the groups of lemmas show.\<close> For each operation: the result on every branch, what it leaves
  unchanged, and the invariant it keeps (the free list and the tables are disjoint pages, the file
  structure owns each block once, the memory map covers the same pages). For the two builders of
  page tables: the resulting translation is exactly the requested one, and they return exactly when
  no page is requested twice and there are enough frames. For the compositions: what is true at each
  hand-over (from \<open>efi_main\<close> to \<open>efi_main2\<close>, to \<open>kernel_main\<close>, to \<open>main2\<close>, to the shut-down), and that
  the one side delivers what the other needs.

  \<^bold>\<open>Loops.\<close> No fuel is used. A loop that counts is recursion on a list of indices or on a number. A loop
  that need not end is a \<open>partial_function\<close> into \<open>option\<close>: \<open>strlen\<close>, the loops of the formatter, the
  scan of the dynamic section, the walk of a device path, the scans of the EFI variables and the
  retry of \<open>enumerate_efi_vars\<close>, the clearing loop of \<open>mmap_get\<close>, the walk of a hash chain. Where the
  code relies on such a loop, that it returns is a theorem of its own.

  \<^bold>\<open>Parameters.\<close> The firmware's services (pages, pool memory, files, memory map, variables, loaded
  image) and gnu-efi's string and path functions; the instructions \<open>rdmsr\<close> and \<open>cpuid\<close>; the addresses
  the linker script and the generated vector table supply; the effect of compiled code on scratch
  registers and the stack in an interrupt; \<open>elf_read\<close> and \<open>elf_alloc\<close>. Their documented behaviour
  appears as hypotheses, and each theorem with hypotheses has a witness on a concrete machine.

  \<^bold>\<open>Not modelled.\<close> The formatting inside gnu-efi's \<open>Print\<close> and glibc's \<open>printf\<close>, so output is a list of
  calls; in the model of \<open>efi_main\<close> the printing calls are left out, and \<open>Console\<close> states when they are
  defined. The parsing of the command line and the remaining listings of \<open>test/readelf.c\<close> and
  \<open>test/print-elf.c\<close>, which only print fields; \<open>test/introspect.c\<close>, which needs its own dynamic section
  in memory. The debugging hook \<open>break_\<close>, the stack protector's \<open>__stack_chk_fail\<close> and \<open>halt\<close> itself, which
  is the value \<open>Halted\<close>. The register accesses \<open>get_cr0\<close> to \<open>set_cr4\<close>, whose values are parameters or
  fields. The memory of the kernel has one address per page: that a page is visible at two virtual
  addresses is stated by the translations, not by the memory. Build files and prose.
\<close>

end
